(* ===== verification/Prelude.thy ===== *)
theory Prelude
  imports Complex_Main "HOL-Library.AList" "HOL-Library.Multiset"
begin

text \<open>
  Shared vocabulary of the development: the Python values the batch engine computes with
  (floats, dictionaries, bounded deques, integer formatting), and the lemmas about lists,
  sums and multisets that several components need.

  Floats are exact rationals: rounding of IEEE arithmetic, infinities and NaN are not
  modelled.  A dictionary with string keys is an association list in insertion order.
  Text produced by formatting a float is a parameter of the definitions that need it.
\<close>

type_synonym pyfloat = rat
type_synonym 'v pydict = "(string \<times> 'v) list"

named_theorems acct "how an operation moves items between the places that hold them"
named_theorems frame "fields an operation leaves alone"

section \<open>Python values\<close>

subsection \<open>Exceptions\<close>

text \<open>The exceptions the engine raises, catches or lets pass, with their message where the code
  looks at it.  A function that may raise returns \<open>Inl\<close> of the exception.\<close>

datatype py_exn =
    Assertion_error
  | Attribute_error
  | Type_error
  | Value_error
  | Key_error
  | Index_error
  | Zero_division_error
  | JSON_decode_error string
  | Runtime_error string
  | Provider_transport_error string
  | Webhook_SSRF_error string
  | HTTP_error string
  | Other_error string

text \<open>Going on with the value of a call that may raise.\<close>

definition and_then :: "'e + 'a \<Rightarrow> ('a \<Rightarrow> 'e + 'b) \<Rightarrow> 'e + 'b" where
  "and_then r f = (case r of Inl e \<Rightarrow> Inl e | Inr x \<Rightarrow> f x)"

lemma and_then_simps [simp]:
  "and_then (Inl e) f = Inl e" "and_then (Inr x) f = f x"
  by (simp_all add: and_then_def)

lemma and_then_Inr: "and_then r f = Inr y \<longleftrightarrow> (\<exists>x. r = Inr x \<and> f x = Inr y)"
  by (cases r) simp_all

subsection \<open>Dictionaries\<close>

text \<open>\<open>d.get(k)\<close>, \<open>d.get(k, v)\<close> and \<open>d[k] = v\<close>: an update keeps the position of an
  existing key and appends a new one.\<close>

definition dict_get :: "'v pydict \<Rightarrow> string \<Rightarrow> 'v option" where
  "dict_get d k = map_of d k"

definition dict_get_or :: "'v pydict \<Rightarrow> string \<Rightarrow> 'v \<Rightarrow> 'v" where
  "dict_get_or d k v = (case dict_get d k of None \<Rightarrow> v | Some w \<Rightarrow> w)"

definition dict_set :: "string \<Rightarrow> 'v \<Rightarrow> 'v pydict \<Rightarrow> 'v pydict" where
  "dict_set k v d = AList.update k v d"

definition dict_ok :: "'v pydict \<Rightarrow> bool" where
  "dict_ok d \<longleftrightarrow> distinct (map fst d)"

text \<open>\<open>d[k]\<close> raises \<open>KeyError\<close>.\<close>

definition dict_item :: "'v pydict \<Rightarrow> string \<Rightarrow> py_exn + 'v" where
  "dict_item d k = (case dict_get d k of None \<Rightarrow> Inl Key_error | Some v \<Rightarrow> Inr v)"

lemma dict_ok_Nil [simp]: "dict_ok []"
  by (simp add: dict_ok_def)

lemma dict_ok_set [simp, intro]: "dict_ok d \<Longrightarrow> dict_ok (dict_set k v d)"
  by (simp add: dict_ok_def dict_set_def distinct_update)

lemma dict_get_Nil [simp]: "dict_get [] k = None"
  by (simp add: dict_get_def)

lemma dict_get_or_Nil [simp]: "dict_get_or [] k v = v"
  by (simp add: dict_get_or_def)

lemma dict_get_set [simp]: "dict_get (dict_set k v d) k' = (if k' = k then Some v else dict_get d k')"
  by (simp add: dict_get_def dict_set_def update_conv')

lemma dict_get_or_set [simp]:
  "dict_get_or (dict_set k v d) k' w = (if k' = k then v else dict_get_or d k' w)"
  by (simp add: dict_get_or_def)

lemma sum_dict_set:
  fixes d :: "int pydict"
  shows "sum_list (map snd (dict_set k (dict_get_or d k 0 + x) d)) = sum_list (map snd d) + x"
  by (induction d) (auto simp: dict_set_def dict_get_or_def dict_get_def)

lemma values_dict_set:
  "v \<in> snd ` set (dict_set k x d) \<Longrightarrow> v = x \<or> v \<in> snd ` set d"
  by (induction d) (auto simp: dict_set_def split: if_splits)

subsection \<open>Numbers\<close>

text \<open>\<open>int(x)\<close> truncates towards zero; \<open>round(x, n)\<close> rounds half to even at the n-th
  decimal; \<open>a or b\<close> on an optional integer takes \<open>b\<close> for \<open>None\<close> and for 0.\<close>

definition py_int :: "pyfloat \<Rightarrow> int" where
  "py_int x = (if 0 \<le> x then \<lfloor>x\<rfloor> else \<lceil>x\<rceil>)"

definition round_half_even :: "pyfloat \<Rightarrow> int" where
  "round_half_even x =
     (let f = \<lfloor>x\<rfloor>; d = x - of_int f in
      if d < 1 / 2 then f else if 1 / 2 < d then f + 1 else if even f then f else f + 1)"

definition py_round :: "pyfloat \<Rightarrow> nat \<Rightarrow> pyfloat" where
  "py_round x n = of_int (round_half_even (x * 10 ^ n)) / 10 ^ n"

definition py_or_int :: "int option \<Rightarrow> int \<Rightarrow> int" where
  "py_or_int o' d = (case o' of None \<Rightarrow> d | Some n \<Rightarrow> if n = 0 then d else n)"

definition py_or_nat :: "nat \<Rightarrow> nat \<Rightarrow> nat" where
  "py_or_nat n d = (if n = 0 then d else n)"

lemma round_half_even_near: "\<bar>of_int (round_half_even x) - x\<bar> \<le> 1 / 2"
proof -
  have "of_int \<lfloor>x\<rfloor> \<le> x" "x < of_int \<lfloor>x\<rfloor> + 1"
    by linarith+
  then show ?thesis
    unfolding round_half_even_def Let_def by (simp add: abs_le_iff)
qed

lemma round_half_even_mono_int:
  assumes "x \<le> of_int n"
  shows "round_half_even x \<le> n"
proof (cases "\<lfloor>x\<rfloor> = n")
  case True
  with assms have "x = of_int n" by linarith
  then show ?thesis by (simp add: round_half_even_def)
next
  case False
  with assms have "\<lfloor>x\<rfloor> + 1 \<le> n" by linarith
  then show ?thesis by (simp add: round_half_even_def Let_def)
qed

lemma round_half_even_nonneg: "0 \<le> x \<Longrightarrow> 0 \<le> round_half_even x"
proof -
  assume "0 \<le> x"
  then have "0 \<le> \<lfloor>x\<rfloor>" by simp
  then show ?thesis by (simp add: round_half_even_def Let_def)
qed

lemma py_round_nonneg: "0 \<le> x \<Longrightarrow> 0 \<le> py_round x n"
  by (simp add: py_round_def round_half_even_nonneg)

lemma py_round_le:
  assumes "x \<le> of_int k"
  shows "py_round x n \<le> of_int k"
proof -
  have "x * 10 ^ n \<le> of_int (k * 10 ^ n)"
    using assms by simp
  then have "round_half_even (x * 10 ^ n) \<le> k * 10 ^ n"
    by (rule round_half_even_mono_int)
  then have "(of_int (round_half_even (x * 10 ^ n)) :: pyfloat) \<le> of_int (k * 10 ^ n)"
    by (simp only: of_int_le_iff)
  then show ?thesis
    by (simp add: py_round_def divide_le_eq)
qed

subsection \<open>Formatting of integers\<close>

fun py_str_nat :: "nat \<Rightarrow> string" where
  "py_str_nat n =
     (if n < 10 then [char_of (48 + n)] else py_str_nat (n div 10) @ [char_of (48 + n mod 10)])"

declare py_str_nat.simps [simp del]

definition py_str_int :: "int \<Rightarrow> string" where
  "py_str_int i = (if i < 0 then CHR ''-'' # py_str_nat (nat (- i)) else py_str_nat (nat i))"

definition py_str_opt_int :: "int option \<Rightarrow> string" where
  "py_str_opt_int o' = (case o' of None \<Rightarrow> ''None'' | Some i \<Rightarrow> py_str_int i)"

text \<open>Padding on the left, as the format specification \<open>:05d\<close> does.\<close>

definition zero_pad :: "nat \<Rightarrow> string \<Rightarrow> string" where
  "zero_pad w s = replicate (w - length s) CHR ''0'' @ s"

subsection \<open>Deques with a maximal length\<close>

text \<open>\<open>deque(maxlen=m).append(x)\<close> drops from the left what no longer fits.\<close>

definition deque_append :: "nat \<Rightarrow> 'a list \<Rightarrow> 'a \<Rightarrow> 'a list" where
  "deque_append m xs x = (let ys = xs @ [x] in drop (length ys - m) ys)"

lemma length_deque_append [simp]: "length (deque_append m xs x) = min m (Suc (length xs))"
  by (simp add: deque_append_def Let_def)

lemma set_deque_append: "y \<in> set (deque_append m xs x) \<Longrightarrow> y = x \<or> y \<in> set xs"
  by (auto simp: deque_append_def Let_def dest: in_set_dropD)

section \<open>Lists that hold one entry per task\<close>

lemma sum_list_update_cancel:
  fixes f :: "'a \<Rightarrow> 'b :: comm_monoid_add"
  shows "i < length xs \<Longrightarrow>
    sum_list (map f (xs[i := y])) + f (xs ! i) = sum_list (map f xs) + f y"
proof (induction xs arbitrary: i)
  case Nil
  then show ?case by simp
next
  case (Cons x xs)
  then show ?case
    by (cases i) (simp_all add: ac_simps add.left_commute)
qed

lemma sum_list_update_int:
  fixes f :: "'a \<Rightarrow> int"
  assumes "i < length xs"
  shows "sum_list (map f (xs[i := y])) = sum_list (map f xs) + f y - f (xs ! i)"
  using sum_list_update_cancel [OF assms, of f y] by simp

lemma sum_list_update_nat:
  fixes f :: "'a \<Rightarrow> nat"
  assumes "i < length xs"
  shows "sum_list (map f (xs[i := y])) + f (xs ! i) = sum_list (map f xs) + f y"
  using assms by (rule sum_list_update_cancel)

lemma sum_list_nonneg_int:
  fixes f :: "'a \<Rightarrow> int"
  shows "(\<And>x. x \<in> set xs \<Longrightarrow> 0 \<le> f x) \<Longrightarrow> 0 \<le> sum_list (map f xs)"
  by (induction xs) auto

lemma sum_list_le_length:
  fixes f :: "'a \<Rightarrow> int"
  shows "(\<And>x. x \<in> set xs \<Longrightarrow> f x \<le> k) \<Longrightarrow> sum_list (map f xs) \<le> k * int (length xs)"
  by (induction xs) (auto simp: algebra_simps, smt (verit) distrib_left mult.commute)

lemma nth_le_sum_list:
  fixes f :: "'a \<Rightarrow> nat"
  shows "i < length xs \<Longrightarrow> f (xs ! i) \<le> sum_list (map f xs)"
  by (metis elem_le_sum_list length_map nth_map)

lemma set_update_cases: "x \<in> set (xs[i := y]) \<Longrightarrow> x = y \<or> x \<in> set xs"
  using set_update_subset_insert [of xs i y] by blast

end
