(* ===== verification/Json.thy ===== *)
theory Json
  imports Prelude
begin

text \<open>
  The values Python's \<open>json\<close> module reads and writes, as the engine handles them: rows of the
  input file, lines of the result file, the status record.  The text of a document is produced
  and read by the functions \<open>dumps\<close> and \<open>loads\<close>, parameters of the definitions that use
  them; an object is a dictionary in insertion order.
\<close>

datatype json =
    JNull
  | JBool bool
  | JInt int
  | JFloat pyfloat
  | JStr string
  | JList "json list"
  | JObj "(string \<times> json) list"

text \<open>\<open>str(v)\<close> of a value read from JSON, for the shapes the engine prints by itself; the text of
  floats and containers comes from the parameter \<open>py_repr\<close>.\<close>

fun py_str :: "(json \<Rightarrow> string) \<Rightarrow> json \<Rightarrow> string" where
  "py_str py_repr JNull = ''None''"
| "py_str py_repr (JBool b) = (if b then ''True'' else ''False'')"
| "py_str py_repr (JInt i) = py_str_int i"
| "py_str py_repr (JStr s) = s"
| "py_str py_repr v = py_repr v"

text \<open>The number a JSON value stands for where the code puts it into arithmetic.\<close>

fun json_num :: "json \<Rightarrow> pyfloat option" where
  "json_num (JInt i) = Some (of_int i)"
| "json_num (JFloat x) = Some x"
| "json_num (JBool b) = Some (if b then 1 else 0)"
| "json_num _ = None"

fun json_obj :: "json \<Rightarrow> json pydict option" where
  "json_obj (JObj d) = Some d"
| "json_obj _ = None"

lemma json_obj_Some [simp]: "json_obj v = Some d \<longleftrightarrow> v = JObj d"
  by (cases v) auto

definition json_opt_int :: "int option \<Rightarrow> json" where
  "json_opt_int o' = (case o' of None \<Rightarrow> JNull | Some i \<Rightarrow> JInt i)"

end
