(* ===== verification/Models.thy ===== *)
theory Models
  imports Json
begin

text \<open>
  The domain types of \<open>core/models.py\<close>: the failure taxonomy, the rows a job reads and writes,
  the counters and the job record.  Counters are Python integers and may in principle go
  negative, so they are \<open>int\<close>; attempts count up from 0 and are \<open>nat\<close>.
\<close>

section \<open>Failure classes and job states\<close>

datatype failure_class =
    FC_SUCCESS
  | FC_THROTTLED
  | FC_TRANSIENT
  | FC_INVALID_INPUT
  | FC_FATAL_AUTH
  | FC_FATAL_BILLING
  | FC_TRANSIENT_EXHAUSTED
  | FC_CANCELLED

fun fc_value :: "failure_class \<Rightarrow> string" where
  "fc_value FC_SUCCESS = ''success''"
| "fc_value FC_THROTTLED = ''throttled''"
| "fc_value FC_TRANSIENT = ''transient''"
| "fc_value FC_INVALID_INPUT = ''invalid_input''"
| "fc_value FC_FATAL_AUTH = ''fatal_auth''"
| "fc_value FC_FATAL_BILLING = ''fatal_billing''"
| "fc_value FC_TRANSIENT_EXHAUSTED = ''transient_exhausted''"
| "fc_value FC_CANCELLED = ''cancelled''"

definition is_fatal :: "failure_class \<Rightarrow> bool" where
  "is_fatal c \<longleftrightarrow> c \<in> {FC_FATAL_AUTH, FC_FATAL_BILLING}"

definition is_retryable :: "failure_class \<Rightarrow> bool" where
  "is_retryable c \<longleftrightarrow> c \<in> {FC_THROTTLED, FC_TRANSIENT}"

instantiation failure_class :: enum
begin

definition enum_failure_class :: "failure_class list" where
  "enum_failure_class = [FC_SUCCESS, FC_THROTTLED, FC_TRANSIENT, FC_INVALID_INPUT, FC_FATAL_AUTH,
     FC_FATAL_BILLING, FC_TRANSIENT_EXHAUSTED, FC_CANCELLED]"

definition enum_all_failure_class :: "(failure_class \<Rightarrow> bool) \<Rightarrow> bool" where
  "enum_all_failure_class P = list_all P enum_class.enum"

definition enum_ex_failure_class :: "(failure_class \<Rightarrow> bool) \<Rightarrow> bool" where
  "enum_ex_failure_class P = list_ex P enum_class.enum"

instance
proof
  show univ: "(UNIV :: failure_class set) = set enum_class.enum"
    using failure_class.exhaust by (auto simp: enum_failure_class_def)
  show "distinct (enum_class.enum :: failure_class list)"
    by (simp add: enum_failure_class_def)
  show "enum_class.enum_all P \<longleftrightarrow> Ball (UNIV :: failure_class set) P" for P
    using univ by (simp add: enum_all_failure_class_def list_all_iff)
  show "enum_class.enum_ex P \<longleftrightarrow> Bex (UNIV :: failure_class set) P" for P
    using univ by (simp add: enum_ex_failure_class_def list_ex_iff)
qed

end

lemma fc_value_inj: "fc_value c = fc_value c' \<Longrightarrow> c = c'"
  by (cases c; cases c') simp_all

datatype job_status =
    JS_QUEUED
  | JS_RUNNING
  | JS_SUCCEEDED
  | JS_PARTIAL
  | JS_FAILED
  | JS_CANCELLED

fun js_value :: "job_status \<Rightarrow> string" where
  "js_value JS_QUEUED = ''queued''"
| "js_value JS_RUNNING = ''running''"
| "js_value JS_SUCCEEDED = ''succeeded''"
| "js_value JS_PARTIAL = ''partial''"
| "js_value JS_FAILED = ''failed''"
| "js_value JS_CANCELLED = ''cancelled''"

text \<open>\<open>JobStatus(s)\<close>: the member with that value; \<open>None\<close> stands for the \<open>ValueError\<close>.\<close>

definition js_of_value :: "string \<Rightarrow> job_status option" where
  "js_of_value s = map_of (map (\<lambda>c. (js_value c, c))
     [JS_QUEUED, JS_RUNNING, JS_SUCCEEDED, JS_PARTIAL, JS_FAILED, JS_CANCELLED]) s"

lemma js_of_value_value [simp]: "js_of_value (js_value c) = Some c"
  by (cases c) (simp_all add: js_of_value_def)

section \<open>Rows\<close>

record prompt_item =
  pi_id :: string
  pi_prompt :: string
  pi_raw :: "json pydict"

record usage_delta =
  ud_input_tokens :: int
  ud_output_tokens :: int

record row_result =
  rr_item_id :: string
  rr_response_text :: string
  rr_usage :: usage_delta
  rr_latency_s :: pyfloat
  rr_attempt :: nat

record row_error =
  re_item_id :: string
  re_failure_class :: failure_class
  re_message :: string
  re_attempt :: nat
  re_http_status :: "int option"

text \<open>\<open>PromptItem | RowError\<close> is what ingestion yields; \<open>RowResult | RowError\<close> is what the sink
  accepts.\<close>

datatype parsed = P_item prompt_item | P_error row_error

datatype sink_item = S_result row_result | S_error row_error

fun parsed_id :: "parsed \<Rightarrow> string" where
  "parsed_id (P_item i) = pi_id i"
| "parsed_id (P_error e) = re_item_id e"

fun sink_item_id :: "sink_item \<Rightarrow> string" where
  "sink_item_id (S_result r) = rr_item_id r"
| "sink_item_id (S_error e) = re_item_id e"

fun sink_item_attempt :: "sink_item \<Rightarrow> nat" where
  "sink_item_attempt (S_result r) = rr_attempt r"
| "sink_item_attempt (S_error e) = re_attempt e"

fun is_success_item :: "sink_item \<Rightarrow> bool" where
  "is_success_item (S_result _) = True"
| "is_success_item (S_error _) = False"

section \<open>Jobs\<close>

record job_config =
  jc_input_path :: string
  jc_model :: string
  jc_max_tokens :: int
  jc_concurrency :: "int option"
  jc_webhook_url :: "string option"
  jc_max_job_spend_usd :: pyfloat
  jc_max_items :: "int option"

record job_counts =
  ingested :: int
  succeeded :: int
  failed :: int
  in_flight :: int
  pending :: int

definition init_counts :: job_counts where
  "init_counts = \<lparr>ingested = 0, succeeded = 0, failed = 0, in_flight = 0, pending = 0\<rparr>"

definition conserved :: "job_counts \<Rightarrow> bool" where
  "conserved c \<longleftrightarrow> succeeded c + failed c = ingested c"

record job_timing =
  jt_started_at :: pyfloat
  jt_finished_at :: "pyfloat option"

definition elapsed_s :: "pyfloat \<Rightarrow> job_timing \<Rightarrow> pyfloat" where
  "elapsed_s now t =
     (case jt_finished_at t of None \<Rightarrow> now | Some e \<Rightarrow> e) - jt_started_at t"

record usage_totals =
  ut_input_tokens :: int
  ut_output_tokens :: int
  ut_estimated_cost_usd :: pyfloat

definition init_usage :: usage_totals where
  "init_usage = \<lparr>ut_input_tokens = 0, ut_output_tokens = 0, ut_estimated_cost_usd = 0\<rparr>"

record job_record =
  jr_job_id :: string
  jr_config :: job_config
  jr_status :: job_status
  jr_submitted_at :: pyfloat
  jr_counts :: job_counts
  jr_timing :: job_timing
  jr_usage :: usage_totals
  jr_backpressure :: "json pydict"
  jr_errors_by_class :: "int pydict"
  jr_result_path :: string
  jr_abort_reason :: "string option"

text \<open>A record as \<open>JobRecord(job_id=..., config=..., status=..., result_path=...)\<close> builds it: the
  other fields take their defaults, with the clock read for the two timestamps.\<close>

definition new_job_record ::
    "string \<Rightarrow> job_config \<Rightarrow> job_status \<Rightarrow> string \<Rightarrow> pyfloat \<Rightarrow> pyfloat \<Rightarrow> job_record" where
  "new_job_record job_id config status result_path now_submitted now_started =
     \<lparr>jr_job_id = job_id, jr_config = config, jr_status = status, jr_submitted_at = now_submitted,
      jr_counts = init_counts,
      jr_timing = \<lparr>jt_started_at = now_started, jt_finished_at = None\<rparr>,
      jr_usage = init_usage, jr_backpressure = [], jr_errors_by_class = [],
      jr_result_path = result_path, jr_abort_reason = None\<rparr>"

end
