(* ===== verification/ProviderBase.thy ===== *)
theory ProviderBase
  imports Json
begin

text \<open>
  The provider abstraction of \<open>providers/base.py\<close>: the normalized response of one inference
  call, and the ways a call can end.  A provider itself is a parameter of the engine: the worker
  only sees the outcome of each call and the two prices.
\<close>

record provider_response =
  status_code :: int
  resp_text :: string
  resp_input_tokens :: int
  resp_output_tokens :: int
  malformed :: bool
  resp_headers :: "string pydict"

text \<open>The dataclass defaults.\<close>

definition provider_response_of :: "int \<Rightarrow> provider_response" where
  "provider_response_of code =
     \<lparr>status_code = code, resp_text = [], resp_input_tokens = 0, resp_output_tokens = 0,
      malformed = False, resp_headers = []\<rparr>"

text \<open>\<open>complete()\<close> returns a response, raises \<open>ProviderTransportError\<close>, is cancelled, or raises
  anything else.\<close>

datatype provider_outcome =
    Out_response provider_response
  | Out_raise py_exn
  | Out_cancelled

text \<open>The prices a provider reports, in USD per million tokens.\<close>

record provider_prices =
  cost_per_1m_input :: pyfloat
  cost_per_1m_output :: pyfloat

end
