(* ===== verification/Retry.thy ===== *)
theory Retry
  imports Models ProviderBase
begin

text \<open>
  \<open>core/retry.py\<close>: classification of provider outcomes, full-jitter backoff, the retry budget of
  a job and the circuit breaker.  Clock readings and random draws are arguments.
\<close>

section \<open>Classification\<close>

definition status_table :: "(int \<times> (failure_class \<times> nat)) list" where
  "status_table =
     [(408, (FC_TRANSIENT, 5)),
      (429, (FC_THROTTLED, 8)),
      (500, (FC_TRANSIENT, 5)),
      (502, (FC_TRANSIENT, 5)),
      (503, (FC_TRANSIENT, 5)),
      (504, (FC_TRANSIENT, 5)),
      (400, (FC_INVALID_INPUT, 1)),
      (422, (FC_INVALID_INPUT, 1)),
      (413, (FC_INVALID_INPUT, 1)),
      (401, (FC_FATAL_AUTH, 1)),
      (403, (FC_FATAL_AUTH, 1)),
      (402, (FC_FATAL_BILLING, 1))]"

definition default_max_attempts :: nat where
  "default_max_attempts = 5"

fun is_transport_error :: "py_exn \<Rightarrow> bool" where
  "is_transport_error (Provider_transport_error m) = True"
| "is_transport_error _ = False"

definition classify ::
    "provider_response option \<Rightarrow> py_exn option \<Rightarrow> py_exn + (failure_class \<times> nat)" where
  "classify response exc =
     (case exc of
        Some e \<Rightarrow>
          if is_transport_error e then Inr (FC_TRANSIENT, default_max_attempts)
          else Inl Assertion_error
      | None \<Rightarrow>
         (case response of
            None \<Rightarrow> Inl Assertion_error
          | Some r \<Rightarrow>
              if status_code r = 200 then
                (if malformed r then Inr (FC_TRANSIENT, 2) else Inr (FC_SUCCESS, 1))
              else
                (case map_of status_table (status_code r) of
                   Some entry \<Rightarrow> Inr entry
                 | None \<Rightarrow> Inr (FC_TRANSIENT, default_max_attempts))))"

text \<open>What the worker relies on: it always passes a response or a transport error.\<close>

lemma status_table_cases:
  "map_of status_table n = Some (c, k) \<Longrightarrow>
     (c = FC_TRANSIENT \<and> k = 5) \<or> (c = FC_THROTTLED \<and> k = 8 \<and> n = 429) \<or>
     (c = FC_INVALID_INPUT \<and> k = 1) \<or> (c = FC_FATAL_AUTH \<and> k = 1 \<and> n \<in> {401, 403}) \<or>
     (c = FC_FATAL_BILLING \<and> k = 1 \<and> n = 402)"
  by (auto simp: status_table_def split: if_splits)

lemma classify_cases:
  assumes "classify response exc = Inr (c, k)"
  obtains (success) r where "exc = None" "response = Some r" "c = FC_SUCCESS" "k = 1"
      "status_code r = 200" "\<not> malformed r"
    | (transient) "c = FC_TRANSIENT" "k \<in> {2, 5}"
    | (throttled) r where "response = Some r" "c = FC_THROTTLED" "k = 8" "status_code r = 429"
    | (invalid) "c = FC_INVALID_INPUT" "k = 1"
    | (fatal) r where "response = Some r" "is_fatal c" "k = 1" "status_code r \<in> {401, 402, 403}"
  using assms
  by (auto simp: classify_def default_max_attempts_def is_fatal_def
      split: option.splits if_splits py_exn.splits dest!: status_table_cases)

lemma classify_attempts: "classify response exc = Inr (c, k) \<Longrightarrow> 1 \<le> k \<and> k \<le> 8"
  by (erule classify_cases) auto

lemma classify_response_total: "\<exists>c k. classify (Some r) None = Inr (c, k)"
  by (auto simp: classify_def split: option.splits)

lemma classify_transport_total:
  "classify None (Some (Provider_transport_error m)) = Inr (FC_TRANSIENT, 5)"
  by (simp add: classify_def default_max_attempts_def)

lemma classify_success_response:
  "classify response exc = Inr (FC_SUCCESS, k) \<Longrightarrow> \<exists>r. response = Some r \<and> exc = None"
  by (erule classify_cases) (auto simp: is_fatal_def)

lemma classify_not_terminal:
  "classify response exc = Inr (c, k) \<Longrightarrow> c \<noteq> FC_TRANSIENT_EXHAUSTED \<and> c \<noteq> FC_CANCELLED"
  by (erule classify_cases) (auto simp: is_fatal_def)

section \<open>Full jitter\<close>

text \<open>\<open>rng.uniform(0, ceiling)\<close> is \<open>0 + (ceiling - 0) * u\<close> for a draw \<open>u\<close> of \<open>rng.random()\<close> in
  \<open>[0, 1)\<close>.\<close>

definition py_uniform :: "pyfloat \<Rightarrow> pyfloat \<Rightarrow> pyfloat \<Rightarrow> pyfloat" where
  "py_uniform a b u = a + (b - a) * u"

definition full_jitter_delay :: "nat \<Rightarrow> pyfloat \<Rightarrow> pyfloat \<Rightarrow> pyfloat \<Rightarrow> pyfloat" where
  "full_jitter_delay attempt base cap u =
     (let ceiling = min cap (base * 2 ^ attempt) in py_uniform 0 ceiling u)"

lemma py_uniform_bounds: "0 \<le> u \<Longrightarrow> u < 1 \<Longrightarrow> 0 \<le> b \<Longrightarrow> 0 \<le> py_uniform 0 b u \<and> py_uniform 0 b u \<le> b"
  by (simp add: py_uniform_def mult_left_le)

section \<open>Retry budget\<close>

record retry_budget =
  rb_total_items :: int
  rb_fraction :: pyfloat
  rb_used :: int

definition new_retry_budget :: "int \<Rightarrow> retry_budget" where
  "new_retry_budget n = \<lparr>rb_total_items = n, rb_fraction = 1 / 5, rb_used = 0\<rparr>"

definition rb_limit :: "retry_budget \<Rightarrow> int" where
  "rb_limit b = max 1 (py_int (of_int (rb_total_items b) * rb_fraction b))"

definition rb_remaining :: "retry_budget \<Rightarrow> int" where
  "rb_remaining b = max 0 (rb_limit b - rb_used b)"

definition rb_try_consume :: "retry_budget \<Rightarrow> bool \<times> retry_budget" where
  "rb_try_consume b =
     (if rb_limit b \<le> rb_used b then (False, b) else (True, b\<lparr>rb_used := rb_used b + 1\<rparr>))"

lemma rb_limit_fields [simp]: "rb_limit (b\<lparr>rb_used := n\<rparr>) = rb_limit b"
  by (simp add: rb_limit_def)

lemma rb_limit_pos: "1 \<le> rb_limit b"
  by (simp add: rb_limit_def)

lemma rb_limit_mono:
  assumes "rb_total_items b \<le> n" "0 \<le> rb_total_items b" "0 \<le> rb_fraction b"
  shows "rb_limit b \<le> rb_limit (b\<lparr>rb_total_items := n\<rparr>)"
proof -
  have "(of_int (rb_total_items b) :: pyfloat) * rb_fraction b \<le> of_int n * rb_fraction b"
    using assms by (simp add: mult_right_mono)
  moreover have "0 \<le> (of_int (rb_total_items b) :: pyfloat) * rb_fraction b"
    using assms by simp
  ultimately show ?thesis
    by (simp add: rb_limit_def py_int_def floor_mono max.coboundedI2)
qed

lemma rb_try_consume_True:
  "rb_try_consume b = (True, b') \<longleftrightarrow> rb_used b < rb_limit b \<and> b' = b\<lparr>rb_used := rb_used b + 1\<rparr>"
  by (auto simp: rb_try_consume_def)

lemma rb_try_consume_False:
  "rb_try_consume b = (False, b') \<longleftrightarrow> rb_limit b \<le> rb_used b \<and> b' = b"
  by (auto simp: rb_try_consume_def)

end
