(* ===== verification/Breaker.thy ===== *)
theory Breaker
  imports Retry
begin

text \<open>
  The circuit breaker of \<open>core/retry.py\<close>.  \<open>clock()\<close> is read at most once per operation; its
  reading is the argument \<open>now\<close>.  The engine builds every breaker with the default window of 100,
  so the division by an empty window that a window of 0 would cause does not arise;
  \<open>cb_wf\<close> keeps the window positive.
\<close>

datatype cb_state = Closed | Open | Half_open

fun cb_state_value :: "cb_state \<Rightarrow> string" where
  "cb_state_value Closed = ''closed''"
| "cb_state_value Open = ''open''"
| "cb_state_value Half_open = ''half_open''"

record circuit_breaker =
  cb_window :: nat
  cb_threshold :: pyfloat
  cb_cooldown_s :: pyfloat
  cb_probe_timeout_s :: pyfloat
  cb_outcomes :: "bool list"
  cb_state :: cb_state
  cb_opened_at :: pyfloat
  cb_probe_in_flight :: bool

definition new_circuit_breaker :: "pyfloat \<Rightarrow> circuit_breaker" where
  "new_circuit_breaker cooldown =
     \<lparr>cb_window = 100, cb_threshold = 1 / 2, cb_cooldown_s = cooldown, cb_probe_timeout_s = 30,
      cb_outcomes = [], cb_state = Closed, cb_opened_at = 0, cb_probe_in_flight = False\<rparr>"

definition failures :: "bool list \<Rightarrow> nat" where
  "failures xs = count_list xs True"

definition cb_record :: "pyfloat \<Rightarrow> bool \<Rightarrow> circuit_breaker \<Rightarrow> circuit_breaker" where
  "cb_record now is_failure cb =
     (let cb = cb\<lparr>cb_outcomes := deque_append (cb_window cb) (cb_outcomes cb) is_failure\<rparr> in
      if cb_state cb = Half_open then
        (let cb = cb\<lparr>cb_probe_in_flight := False\<rparr> in
         if is_failure then cb\<lparr>cb_state := Open, cb_opened_at := now\<rparr>
         else cb\<lparr>cb_state := Closed, cb_outcomes := []\<rparr>)
      else if cb_state cb = Closed \<and> min (cb_window cb) 10 \<le> length (cb_outcomes cb) then
        (let failure_rate = of_nat (failures (cb_outcomes cb)) / of_nat (length (cb_outcomes cb)) in
         if cb_threshold cb < failure_rate then cb\<lparr>cb_state := Open, cb_opened_at := now\<rparr> else cb)
      else cb)"

definition cb_allow_request :: "pyfloat \<Rightarrow> circuit_breaker \<Rightarrow> bool \<times> circuit_breaker" where
  "cb_allow_request now cb =
     (case cb_state cb of
        Open \<Rightarrow>
          if cb_cooldown_s cb \<le> now - cb_opened_at cb
          then (True, cb\<lparr>cb_state := Half_open, cb_probe_in_flight := True\<rparr>)
          else (False, cb)
      | Half_open \<Rightarrow>
          (let stale = cb_cooldown_s cb + cb_probe_timeout_s cb < now - cb_opened_at cb;
               cb = (if cb_probe_in_flight cb \<and> stale then cb\<lparr>cb_probe_in_flight := False\<rparr> else cb)
           in (\<not> cb_probe_in_flight cb, cb))
      | Closed \<Rightarrow> (True, cb))"

section \<open>Well-formedness\<close>

definition cb_wf :: "circuit_breaker \<Rightarrow> bool" where
  "cb_wf cb \<longleftrightarrow> 0 < cb_window cb \<and> length (cb_outcomes cb) \<le> cb_window cb \<and>
     (cb_probe_in_flight cb \<longrightarrow> cb_state cb = Half_open)"

lemma cb_wf_new [simp]: "cb_wf (new_circuit_breaker c)"
  by (simp add: cb_wf_def new_circuit_breaker_def)

lemma cb_wf_record: "cb_wf cb \<Longrightarrow> cb_wf (cb_record now f cb)"
  by (auto simp: cb_wf_def cb_record_def Let_def)

lemma cb_wf_allow: "cb_wf cb \<Longrightarrow> cb_wf (snd (cb_allow_request now cb))"
  by (auto simp: cb_wf_def cb_allow_request_def Let_def split: cb_state.splits)

lemma cb_record_params [frame]:
  "cb_window (cb_record now f cb) = cb_window cb"
  "cb_threshold (cb_record now f cb) = cb_threshold cb"
  "cb_cooldown_s (cb_record now f cb) = cb_cooldown_s cb"
  "cb_probe_timeout_s (cb_record now f cb) = cb_probe_timeout_s cb"
  by (auto simp: cb_record_def Let_def)

lemma cb_allow_params [frame]:
  "cb_window (snd (cb_allow_request now cb)) = cb_window cb"
  "cb_threshold (snd (cb_allow_request now cb)) = cb_threshold cb"
  "cb_cooldown_s (snd (cb_allow_request now cb)) = cb_cooldown_s cb"
  "cb_probe_timeout_s (snd (cb_allow_request now cb)) = cb_probe_timeout_s cb"
  "cb_outcomes (snd (cb_allow_request now cb)) = cb_outcomes cb"
  "cb_opened_at (snd (cb_allow_request now cb)) = cb_opened_at cb"
  by (auto simp: cb_allow_request_def Let_def split: cb_state.splits)

section \<open>Histories\<close>

datatype cb_event = Ev_allow pyfloat | Ev_record pyfloat bool

fun cb_step :: "circuit_breaker \<Rightarrow> cb_event \<Rightarrow> circuit_breaker" where
  "cb_step cb (Ev_allow t) = snd (cb_allow_request t cb)"
| "cb_step cb (Ev_record t f) = cb_record t f cb"

fun cb_run :: "circuit_breaker \<Rightarrow> cb_event list \<Rightarrow> circuit_breaker" where
  "cb_run cb [] = cb"
| "cb_run cb (e # es) = cb_run (cb_step cb e) es"

lemma cb_run_wf: "cb_wf cb \<Longrightarrow> cb_wf (cb_run cb es)"
proof (induction es arbitrary: cb)
  case Nil
  then show ?case by simp
next
  case (Cons e es)
  then show ?case
    by (cases e) (simp_all add: cb_wf_record cb_wf_allow)
qed

lemma cb_run_params [frame]:
  "cb_window (cb_run cb es) = cb_window cb"
  "cb_cooldown_s (cb_run cb es) = cb_cooldown_s cb"
  "cb_probe_timeout_s (cb_run cb es) = cb_probe_timeout_s cb"
proof (induction es arbitrary: cb)
  case (Cons e es)
  { case 1 show ?case by (cases e) (simp_all add: Cons frame) }
  { case 2 show ?case by (cases e) (simp_all add: Cons frame) }
  { case 3 show ?case by (cases e) (simp_all add: Cons frame) }
qed simp_all

text \<open>A sequence of polls with no outcome recorded in between: the answers, in order.\<close>

fun cb_polls :: "circuit_breaker \<Rightarrow> pyfloat list \<Rightarrow> bool list" where
  "cb_polls cb [] = []"
| "cb_polls cb (t # ts) =
     (let (ok, cb') = cb_allow_request t cb in ok # cb_polls cb' ts)"

lemma length_cb_polls [simp]: "length (cb_polls cb ts) = length ts"
  by (induction ts arbitrary: cb) (simp_all split: prod.splits)

lemma polls_after_lost_probe:
  "cb_state cb = Half_open \<Longrightarrow> \<not> cb_probe_in_flight cb \<Longrightarrow>
   cb_polls cb ts = replicate (length ts) True"
  by (induction ts arbitrary: cb) (auto simp: cb_allow_request_def Let_def)

lemma polls_of_probe:
  "cb_state cb = Half_open \<Longrightarrow> cb_probe_in_flight cb \<Longrightarrow>
   cb_polls cb ts =
     replicate (length (takeWhile (\<lambda>t. t - cb_opened_at cb \<le> cb_cooldown_s cb + cb_probe_timeout_s cb) ts)) False @
     replicate (length (dropWhile (\<lambda>t. t - cb_opened_at cb \<le> cb_cooldown_s cb + cb_probe_timeout_s cb) ts)) True"
proof (induction ts)
  case (Cons t ts)
  then show ?case
    by (cases "t - cb_opened_at cb \<le> cb_cooldown_s cb + cb_probe_timeout_s cb")
      (simp_all add: cb_allow_request_def Let_def polls_after_lost_probe)
qed simp

section \<open>Properties\<close>

text \<open>The breaker keeps at most \<open>window\<close> outcomes and a probe flag only while half open, whatever
  sequence of requests and outcomes it sees.\<close>

lemma breaker_window_bounded:
  "length (cb_outcomes (cb_run (new_circuit_breaker c) es)) \<le> 100 \<and>
   (cb_probe_in_flight (cb_run (new_circuit_breaker c) es) \<longrightarrow>
      cb_state (cb_run (new_circuit_breaker c) es) = Half_open)"
proof -
  have "cb_wf (cb_run (new_circuit_breaker c) es)"
    by (rule cb_run_wf) simp
  moreover have "cb_window (cb_run (new_circuit_breaker c) es) = 100"
    by (simp add: frame) (simp add: new_circuit_breaker_def)
  ultimately show ?thesis
    by (simp add: cb_wf_def)
qed

lemma breaker_window_bounded_witness:
  "length (cb_outcomes (cb_run (new_circuit_breaker 30) [Ev_record 1 True, Ev_allow 2])) \<le> 100"
  using breaker_window_bounded [of 30 "[Ev_record 1 True, Ev_allow 2]"] by simp

text \<open>A closed breaker opens exactly when the outcome just recorded fills the minimum sample of 10
  (or the window, if smaller) and more than the threshold of the last \<open>window\<close> outcomes are
  failures; it records the time it opened.\<close>

lemma breaker_trips_iff:
  assumes "cb_state cb = Closed" and "0 < cb_window cb"
  shows "cb_state (cb_record now f cb) = Open \<longleftrightarrow>
    (let xs = deque_append (cb_window cb) (cb_outcomes cb) f in
     min (cb_window cb) 10 \<le> length xs \<and>
     cb_threshold cb * of_nat (length xs) < of_nat (failures xs))"
proof -
  define xs where "xs = deque_append (cb_window cb) (cb_outcomes cb) f"
  have "0 < length xs"
    using assms(2) by (simp add: xs_def)
  then have "cb_threshold cb < of_nat (failures xs) / of_nat (length xs) \<longleftrightarrow>
      cb_threshold cb * of_nat (length xs) < of_nat (failures xs)"
    by (simp add: less_divide_eq)
  then show ?thesis
    using assms(1) by (simp add: cb_record_def Let_def flip: xs_def)
qed

lemma breaker_trips_iff_witness:
  "cb_state (cb_record 7 True ((new_circuit_breaker 30)\<lparr>cb_outcomes := replicate 9 True\<rparr>)) = Open"
  using breaker_trips_iff [of "(new_circuit_breaker 30)\<lparr>cb_outcomes := replicate 9 True\<rparr>" 7 True]
  by (simp add: new_circuit_breaker_def deque_append_def failures_def Let_def numeral_eq_Suc)

text \<open>C40. Half open lets exactly one probe through in its time: the first request that finds the cooldown
  of an open breaker over is granted, and the polls after it are refused up to the first one that comes
  more than cooldown and probe timeout after the breaker opened.  The time counts from the opening and
  not from the probe: from that poll on every request is granted until an outcome is recorded, also when
  the first probe itself came that late.\<close>

theorem breaker_single_probe:
  assumes "cb_state cb = Open" and "cb_cooldown_s cb \<le> t - cb_opened_at cb"
  shows "let early = (\<lambda>t'. t' - cb_opened_at cb \<le> cb_cooldown_s cb + cb_probe_timeout_s cb) in
    cb_polls cb (t # ts) =
      True # replicate (length (takeWhile early ts)) False @ replicate (length (dropWhile early ts)) True"
  using assms by (simp add: cb_allow_request_def polls_of_probe)

theorem breaker_single_probe_witness:
  "cb_polls ((new_circuit_breaker 30)\<lparr>cb_state := Open\<rparr>) [30, 31, 60, 61, 61] = [True, False, False, True, True]"
  using breaker_single_probe [of "(new_circuit_breaker 30)\<lparr>cb_state := Open\<rparr>" 30 "[31, 60, 61, 61]"]
  by (simp add: new_circuit_breaker_def numeral_eq_Suc)

text \<open>A breaker never blocks a job for good: once cooldown and probe timeout have passed since it
  opened, a request is granted in every state, even if a probe never reported back.\<close>

lemma breaker_never_stuck:
  assumes "0 \<le> cb_probe_timeout_s cb"
    and "cb_cooldown_s cb + cb_probe_timeout_s cb < now - cb_opened_at cb"
  shows "fst (cb_allow_request now cb)"
  using assms by (auto simp: cb_allow_request_def Let_def split: cb_state.splits)

lemma breaker_never_stuck_witness:
  "fst (cb_allow_request 61 ((new_circuit_breaker 30)\<lparr>cb_state := Half_open, cb_probe_in_flight := True\<rparr>))"
  using breaker_never_stuck
    [of "(new_circuit_breaker 30)\<lparr>cb_state := Half_open, cb_probe_in_flight := True\<rparr>" 61]
  by (simp add: new_circuit_breaker_def)

text \<open>After a probe has gone stale the half-open breaker no longer limits anything: clearing the
  flag does not mark the request it lets through as the new probe, so every further request is
  granted until an outcome is recorded.\<close>

lemma breaker_stale_probe_admits_all:
  assumes "cb_state cb = Half_open"
    and "cb_cooldown_s cb + cb_probe_timeout_s cb < t - cb_opened_at cb"
  shows "cb_polls cb (t # ts) = replicate (Suc (length ts)) True"
  using assms
  by (auto simp: cb_allow_request_def Let_def polls_after_lost_probe)

lemma breaker_stale_probe_admits_all_witness:
  "cb_polls ((new_circuit_breaker 30)\<lparr>cb_state := Half_open, cb_probe_in_flight := True\<rparr>)
     [61, 61, 61] = [True, True, True]"
  using breaker_stale_probe_admits_all
    [of "(new_circuit_breaker 30)\<lparr>cb_state := Half_open, cb_probe_in_flight := True\<rparr>" 61 "[61, 61]"]
  by (simp add: new_circuit_breaker_def numeral_eq_Suc)

end
