(* ===== verification/RateLimit.thy ===== *)
theory RateLimit
  imports Retry
begin

text \<open>
  \<open>core/ratelimit.py\<close>: the token bucket that paces requests and the AIMD controller that moves its
  rate.  Each object's clock is read at most once per operation; the readings are arguments.  The
  lock of \<open>TokenBucket.acquire\<close> guards a body without an \<open>await\<close>, so the body is one atomic step
  and the lock is never found taken.
\<close>

section \<open>Token bucket\<close>

record token_bucket =
  tb_rate :: pyfloat
  tb_capacity :: pyfloat
  tb_tokens :: pyfloat
  tb_last_refill :: pyfloat

definition new_token_bucket :: "pyfloat \<Rightarrow> pyfloat \<Rightarrow> pyfloat \<Rightarrow> token_bucket" where
  "new_token_bucket rate capacity now =
     \<lparr>tb_rate = rate, tb_capacity = capacity, tb_tokens = capacity, tb_last_refill = now\<rparr>"

definition tb_refill :: "pyfloat \<Rightarrow> token_bucket \<Rightarrow> token_bucket" where
  "tb_refill now b =
     (let elapsed = max 0 (now - tb_last_refill b) in
      b\<lparr>tb_tokens := min (tb_capacity b) (tb_tokens b + elapsed * tb_rate b),
        tb_last_refill := now\<rparr>)"

text \<open>One pass of the loop of \<open>acquire\<close>: \<open>None\<close> when a token was taken, otherwise the time to sleep
  before the next pass.\<close>

definition tb_acquire_pass :: "pyfloat \<Rightarrow> token_bucket \<Rightarrow> token_bucket \<times> pyfloat option" where
  "tb_acquire_pass now b =
     (let b = tb_refill now b in
      if 1 \<le> tb_tokens b then (b\<lparr>tb_tokens := tb_tokens b - 1\<rparr>, None)
      else
        (let deficit = 1 - tb_tokens b;
             wait_s = (if 0 < tb_rate b then deficit / tb_rate b else 1 / 20)
         in (b, Some (max wait_s (1 / 1000)))))"

text \<open>The whole of \<open>acquire\<close> when no other task uses the bucket meanwhile, over the clock readings of
  its passes: the sleeps it asks for, or \<open>None\<close> while it has not returned.\<close>

fun tb_acquire :: "token_bucket \<Rightarrow> pyfloat list \<Rightarrow> (token_bucket \<times> pyfloat list) option" where
  "tb_acquire b [] = None"
| "tb_acquire b (t # ts) =
     (case tb_acquire_pass t b of
        (b', None) \<Rightarrow> Some (b', [])
      | (b', Some w) \<Rightarrow> map_option (\<lambda>(b'', ws). (b'', w # ws)) (tb_acquire b' ts))"

definition tb_set_rate :: "pyfloat \<Rightarrow> pyfloat \<Rightarrow> token_bucket \<Rightarrow> token_bucket" where
  "tb_set_rate now rate b = (tb_refill now b)\<lparr>tb_rate := max rate (1 / 1000000)\<rparr>"

definition tb_wf :: "token_bucket \<Rightarrow> bool" where
  "tb_wf b \<longleftrightarrow>
     0 < tb_rate b \<and> 1 \<le> tb_capacity b \<and> 0 \<le> tb_tokens b \<and> tb_tokens b \<le> tb_capacity b"

lemma tb_wf_refill: "tb_wf b \<Longrightarrow> tb_wf (tb_refill now b)"
  by (auto simp: tb_wf_def tb_refill_def Let_def)

lemma tb_wf_pass: "tb_wf b \<Longrightarrow> tb_wf (fst (tb_acquire_pass now b))"
  using tb_wf_refill [of b now] by (auto simp: tb_acquire_pass_def Let_def tb_wf_def)

lemma tb_wf_set_rate: "tb_wf b \<Longrightarrow> tb_wf (tb_set_rate now r b)"
  using tb_wf_refill [of b now] by (auto simp: tb_set_rate_def tb_wf_def)

lemma tb_refill_frame [frame]:
  "tb_rate (tb_refill now b) = tb_rate b"
  "tb_capacity (tb_refill now b) = tb_capacity b"
  "tb_last_refill (tb_refill now b) = now"
  by (simp_all add: tb_refill_def Let_def)

lemma tb_pass_frame [frame]:
  "tb_rate (fst (tb_acquire_pass now b)) = tb_rate b"
  "tb_capacity (fst (tb_acquire_pass now b)) = tb_capacity b"
  "tb_last_refill (fst (tb_acquire_pass now b)) = now"
  by (simp_all add: tb_acquire_pass_def Let_def frame)

lemma tb_set_rate_frame [frame]:
  "tb_rate (tb_set_rate now r b) = max r (1 / 1000000)"
  "tb_capacity (tb_set_rate now r b) = tb_capacity b"
  "tb_last_refill (tb_set_rate now r b) = now"
  by (simp_all add: tb_set_rate_def frame)

lemma tb_refill_enough:
  assumes "1 \<le> tb_capacity b" "tb_last_refill b \<le> t"
    and "1 - tb_tokens b \<le> (t - tb_last_refill b) * tb_rate b"
  shows "1 \<le> tb_tokens (tb_refill t b)"
  using assms by (simp add: tb_refill_def)

subsection \<open>Pacing\<close>

datatype tb_op = Tb_acquire pyfloat | Tb_set_rate pyfloat pyfloat

fun op_time :: "tb_op \<Rightarrow> pyfloat" where
  "op_time (Tb_acquire t) = t"
| "op_time (Tb_set_rate t r) = t"

fun op_rate_le :: "pyfloat \<Rightarrow> tb_op \<Rightarrow> bool" where
  "op_rate_le R (Tb_acquire t) = True"
| "op_rate_le R (Tb_set_rate t r) = (r \<le> R)"

text \<open>The number of tokens a sequence of passes and rate changes hands out.\<close>

fun tb_grants :: "token_bucket \<Rightarrow> tb_op list \<Rightarrow> nat" where
  "tb_grants b [] = 0"
| "tb_grants b (Tb_acquire t # ops) =
     (case tb_acquire_pass t b of
        (b', None) \<Rightarrow> Suc (tb_grants b' ops)
      | (b', Some w) \<Rightarrow> tb_grants b' ops)"
| "tb_grants b (Tb_set_rate t r # ops) = tb_grants (tb_set_rate t r b) ops"

lemma tb_refill_tokens:
  assumes "tb_rate b \<le> R" "tb_last_refill b \<le> t"
  shows "tb_tokens (tb_refill t b) \<le> tb_tokens b + R * (t - tb_last_refill b)"
proof -
  have "(t - tb_last_refill b) * tb_rate b \<le> R * (t - tb_last_refill b)"
    using assms by (simp add: mult.commute mult_right_mono)
  then show ?thesis
    using assms(2) by (simp add: tb_refill_def)
qed

lemma tb_grants_potential:
  assumes "tb_wf b" "tb_rate b \<le> R" "1 / 1000000 \<le> R"
    and "sorted (tb_last_refill b # map op_time ops)" "\<forall>p \<in> set ops. op_rate_le R p"
  shows "of_nat (tb_grants b ops)
     \<le> tb_tokens b + R * (last (tb_last_refill b # map op_time ops) - tb_last_refill b)"
  using assms
proof (induction b ops rule: tb_grants.induct)
  case (1 b)
  then show ?case by (simp add: tb_wf_def)
next
  case (2 b t ops)
  obtain b' w where pass: "tb_acquire_pass t b = (b', w)"
    by fastforce
  have b': "tb_wf b'" "tb_rate b' = tb_rate b" "tb_last_refill b' = t"
    using tb_wf_pass [of b t] tb_pass_frame [of t b] 2(3) by (simp_all add: pass)
  have tok: "tb_tokens b' + (if w = None then 1 else 0) \<le> tb_tokens b + R * (t - tb_last_refill b)"
    using tb_refill_tokens [of b R t] 2(4,6) pass
    by (auto simp: tb_acquire_pass_def Let_def split: if_splits)
  have IH: "of_nat (tb_grants b' ops) \<le> tb_tokens b' + R * (last (t # map op_time ops) - t)"
    using 2 b' by (cases w) (simp_all add: pass)
  have "of_nat (tb_grants b (Tb_acquire t # ops)) =
      (of_nat (tb_grants b' ops) :: pyfloat) + (if w = None then 1 else 0)"
    by (cases w) (simp_all add: pass)
  also have "\<dots> \<le> tb_tokens b + R * (t - tb_last_refill b) + R * (last (t # map op_time ops) - t)"
    using IH tok by linarith
  also have "\<dots> = tb_tokens b + R * (last (t # map op_time ops) - tb_last_refill b)"
    by (simp add: algebra_simps)
  finally show ?case by simp
next
  case (3 b t r ops)
  let ?b = "tb_set_rate t r b"
  have tok: "tb_tokens ?b \<le> tb_tokens b + R * (t - tb_last_refill b)"
    using tb_refill_tokens [of b R t] 3 by (simp add: tb_set_rate_def)
  have IH: "of_nat (tb_grants ?b ops) \<le> tb_tokens ?b + R * (last (t # map op_time ops) - t)"
    using 3 by (simp add: tb_wf_set_rate frame)
  have "of_nat (tb_grants b (Tb_set_rate t r # ops))
      \<le> tb_tokens b + R * (t - tb_last_refill b) + R * (last (t # map op_time ops) - t)"
    using IH tok by simp
  also have "\<dots> = tb_tokens b + R * (last (t # map op_time ops) - tb_last_refill b)"
    by (simp add: algebra_simps)
  finally show ?case by simp
qed

text \<open>Refilling first at the time of the next operation changes nothing: the bucket then holds at most
  its capacity, which is what bounds a window that starts long after the last refill.\<close>

lemma tb_refill_refill:
  "tb_wf b \<Longrightarrow> tb_refill t (tb_refill t b) = tb_refill t b"
  by (simp add: tb_refill_def tb_wf_def)

lemma tb_grants_refill:
  assumes "tb_wf b" "ops \<noteq> []"
  shows "tb_grants (tb_refill (op_time (hd ops)) b) ops = tb_grants b ops"
proof (cases ops)
  case Nil
  with assms show ?thesis by simp
next
  case (Cons p ps)
  then show ?thesis
    by (cases p)
      (simp_all add: tb_acquire_pass_def tb_set_rate_def tb_refill_refill [OF assms(1)])
qed

section \<open>AIMD controller\<close>

record adaptive_controller =
  ac_bucket :: token_bucket
  ac_min_rate :: pyfloat
  ac_max_rate :: pyfloat
  ac_decrease_factor :: pyfloat
  ac_increase_step :: pyfloat
  ac_success_streak_for_increase :: nat
  ac_cooldown_s :: pyfloat
  ac_consecutive_successes :: nat
  ac_last_decrease_at :: "pyfloat option"
  ac_throttle_events_429 :: int
  ac_retries_issued :: int
  ac_latencies :: "pyfloat list"

text \<open>\<open>_last_decrease_at\<close> starts as minus infinity: \<open>None\<close>.\<close>

definition new_controller :: "token_bucket \<Rightarrow> pyfloat \<Rightarrow> pyfloat \<Rightarrow> adaptive_controller" where
  "new_controller b min_rate max_rate =
     \<lparr>ac_bucket = b, ac_min_rate = min_rate, ac_max_rate = max_rate, ac_decrease_factor = 3 / 4,
      ac_increase_step = 1 / 2, ac_success_streak_for_increase = 50, ac_cooldown_s = 5,
      ac_consecutive_successes = 0, ac_last_decrease_at = None, ac_throttle_events_429 = 0,
      ac_retries_issued = 0, ac_latencies = []\<rparr>"

definition ac_record_success ::
    "pyfloat \<Rightarrow> pyfloat \<Rightarrow> adaptive_controller \<Rightarrow> adaptive_controller" where
  "ac_record_success bucket_now latency_s c =
     (let c = c\<lparr>ac_latencies := deque_append 200 (ac_latencies c) latency_s,
                ac_consecutive_successes := Suc (ac_consecutive_successes c)\<rparr> in
      if ac_success_streak_for_increase c \<le> ac_consecutive_successes c
      then c\<lparr>ac_bucket := tb_set_rate bucket_now
                (min (ac_max_rate c) (tb_rate (ac_bucket c) + ac_increase_step c)) (ac_bucket c),
             ac_consecutive_successes := 0\<rparr>
      else c)"

definition ac_record_throttle ::
    "pyfloat \<Rightarrow> pyfloat \<Rightarrow> adaptive_controller \<Rightarrow> adaptive_controller" where
  "ac_record_throttle now bucket_now c =
     (let c = c\<lparr>ac_throttle_events_429 := ac_throttle_events_429 c + 1,
                ac_consecutive_successes := 0\<rparr> in
      if (case ac_last_decrease_at c of None \<Rightarrow> True | Some t \<Rightarrow> ac_cooldown_s c \<le> now - t)
      then c\<lparr>ac_bucket := tb_set_rate bucket_now
                (max (ac_min_rate c) (tb_rate (ac_bucket c) * ac_decrease_factor c)) (ac_bucket c),
             ac_last_decrease_at := Some now\<rparr>
      else c)"

definition ac_record_retry_issued :: "adaptive_controller \<Rightarrow> adaptive_controller" where
  "ac_record_retry_issued c = c\<lparr>ac_retries_issued := ac_retries_issued c + 1\<rparr>"

text \<open>The sleeps of \<open>honor_reset_header\<close>, for the wall-clock reading and the jitter draw it makes.\<close>

definition ac_reset_sleeps :: "pyfloat \<Rightarrow> pyfloat \<Rightarrow> pyfloat \<Rightarrow> pyfloat list" where
  "ac_reset_sleeps reset_epoch now u =
     (if reset_epoch \<le> 0 then []
      else
        (let wait_s = max 0 (reset_epoch - now) in
         (if 0 < wait_s then [wait_s] else []) @ [py_uniform 0 (1 / 4) u]))"

definition ac_mean_latency :: "adaptive_controller \<Rightarrow> pyfloat" where
  "ac_mean_latency c =
     (if ac_latencies c = [] then 0
      else sum_list (ac_latencies c) / of_nat (length (ac_latencies c)))"

definition ac_littles_law_optimal_concurrency :: "adaptive_controller \<Rightarrow> int" where
  "ac_littles_law_optimal_concurrency c =
     (let mean_lat = ac_mean_latency c in
      if mean_lat \<le> 0 then 1 else max 1 \<lceil>tb_rate (ac_bucket c) * mean_lat\<rceil>)"

record backpressure_snapshot =
  bs_current_rate_limit_rps :: pyfloat
  bs_configured_max_rps :: pyfloat
  bs_throttle_events_429 :: int
  bs_retries_issued :: int
  bs_circuit_state :: string
  bs_observed_mean_latency_s :: pyfloat
  bs_littles_law_optimal_concurrency :: int

definition ac_snapshot :: "adaptive_controller \<Rightarrow> string \<Rightarrow> backpressure_snapshot" where
  "ac_snapshot c circuit_state =
     \<lparr>bs_current_rate_limit_rps = py_round (tb_rate (ac_bucket c)) 4,
      bs_configured_max_rps = ac_max_rate c,
      bs_throttle_events_429 = ac_throttle_events_429 c,
      bs_retries_issued = ac_retries_issued c,
      bs_circuit_state = circuit_state,
      bs_observed_mean_latency_s = py_round (ac_mean_latency c) 4,
      bs_littles_law_optimal_concurrency = ac_littles_law_optimal_concurrency c\<rparr>"

text \<open>\<open>dataclasses.asdict\<close> of a snapshot.\<close>

definition snapshot_asdict :: "backpressure_snapshot \<Rightarrow> json pydict" where
  "snapshot_asdict s =
     [(''current_rate_limit_rps'', JFloat (bs_current_rate_limit_rps s)),
      (''configured_max_rps'', JFloat (bs_configured_max_rps s)),
      (''throttle_events_429'', JInt (bs_throttle_events_429 s)),
      (''retries_issued'', JInt (bs_retries_issued s)),
      (''circuit_state'', JStr (bs_circuit_state s)),
      (''observed_mean_latency_s'', JFloat (bs_observed_mean_latency_s s)),
      (''littles_law_optimal_concurrency'', JInt (bs_littles_law_optimal_concurrency s))]"

subsection \<open>The rate stays in its range\<close>

datatype ac_event =
    Ac_success pyfloat pyfloat
  | Ac_throttle pyfloat pyfloat
  | Ac_retry

fun ac_step :: "adaptive_controller \<Rightarrow> ac_event \<Rightarrow> adaptive_controller" where
  "ac_step c (Ac_success bn lat) = ac_record_success bn lat c"
| "ac_step c (Ac_throttle now bn) = ac_record_throttle now bn c"
| "ac_step c Ac_retry = ac_record_retry_issued c"

fun ac_run :: "adaptive_controller \<Rightarrow> ac_event list \<Rightarrow> adaptive_controller" where
  "ac_run c [] = c"
| "ac_run c (e # es) = ac_run (ac_step c e) es"

definition ac_params_ok :: "adaptive_controller \<Rightarrow> bool" where
  "ac_params_ok c \<longleftrightarrow> 1 / 1000000 \<le> ac_min_rate c \<and> ac_min_rate c \<le> ac_max_rate c \<and>
     0 < ac_decrease_factor c \<and> ac_decrease_factor c \<le> 1 \<and> 0 \<le> ac_increase_step c"

definition ac_rate_in_range :: "adaptive_controller \<Rightarrow> bool" where
  "ac_rate_in_range c \<longleftrightarrow>
     ac_min_rate c \<le> tb_rate (ac_bucket c) \<and> tb_rate (ac_bucket c) \<le> ac_max_rate c"

lemma ac_step_params [frame]:
  "ac_min_rate (ac_step c e) = ac_min_rate c"
  "ac_max_rate (ac_step c e) = ac_max_rate c"
  "ac_decrease_factor (ac_step c e) = ac_decrease_factor c"
  "ac_increase_step (ac_step c e) = ac_increase_step c"
  "ac_cooldown_s (ac_step c e) = ac_cooldown_s c"
  "ac_success_streak_for_increase (ac_step c e) = ac_success_streak_for_increase c"
  by (cases e; simp add: ac_record_success_def ac_record_throttle_def ac_record_retry_issued_def Let_def)+

lemma ac_step_capacity [frame]:
  "tb_capacity (ac_bucket (ac_step c e)) = tb_capacity (ac_bucket c)"
  by (cases e)
    (simp_all add: ac_record_success_def ac_record_throttle_def ac_record_retry_issued_def Let_def frame)

lemma ac_step_wf_bucket: "tb_wf (ac_bucket c) \<Longrightarrow> tb_wf (ac_bucket (ac_step c e))"
  by (cases e)
    (auto simp: ac_record_success_def ac_record_throttle_def ac_record_retry_issued_def Let_def
      intro: tb_wf_set_rate)

lemma ac_step_params_ok: "ac_params_ok c \<Longrightarrow> ac_params_ok (ac_step c e)"
  by (simp add: ac_params_ok_def frame)

lemma ac_decrease_le:
  fixes r f m :: pyfloat
  assumes "0 < f" "f \<le> 1" "0 < m" "m \<le> r" "r \<le> M"
  shows "r * f \<le> M"
proof -
  have "r * f \<le> r * 1"
    using assms by (intro mult_left_mono) linarith+
  then show ?thesis using assms by linarith
qed

lemma ac_step_in_range:
  assumes "ac_params_ok c" "ac_rate_in_range c"
  shows "ac_rate_in_range (ac_step c e)"
  using assms
proof (cases e)
  case (Ac_success bn lat)
  then show ?thesis
    using assms
    by (auto simp: ac_params_ok_def ac_rate_in_range_def ac_record_success_def Let_def frame)
next
  case (Ac_throttle now bn)
  have "tb_rate (ac_bucket c) * ac_decrease_factor c \<le> ac_max_rate c"
    using assms by (intro ac_decrease_le [of _ "ac_min_rate c"])
      (auto simp: ac_params_ok_def ac_rate_in_range_def)
  then show ?thesis
    using assms Ac_throttle
    by (auto simp: ac_params_ok_def ac_rate_in_range_def ac_record_throttle_def Let_def frame)
next
  case Ac_retry
  then show ?thesis
    using assms by (simp add: ac_rate_in_range_def ac_record_retry_issued_def)
qed

lemma ac_run_in_range:
  "ac_params_ok c \<Longrightarrow> ac_rate_in_range c \<Longrightarrow> ac_rate_in_range (ac_run c es)"
  by (induction es arbitrary: c) (simp_all add: ac_step_in_range ac_step_params_ok)

lemma throttle_in_cooldown:
  assumes "ac_last_decrease_at c = Some t0" "t - t0 < ac_cooldown_s c"
  shows "ac_bucket (ac_record_throttle t bn c) = ac_bucket c"
    and "ac_last_decrease_at (ac_record_throttle t bn c) = Some t0"
    and "ac_cooldown_s (ac_record_throttle t bn c) = ac_cooldown_s c"
  using assms by (simp_all add: ac_record_throttle_def)

lemma throttles_in_cooldown:
  assumes "ac_last_decrease_at c = Some t0"
    and "\<forall>(t, bn) \<in> set ts. t - t0 < ac_cooldown_s c"
  shows "ac_bucket (ac_run c (map (\<lambda>(t, bn). Ac_throttle t bn) ts)) = ac_bucket c"
  using assms
proof (induction ts arbitrary: c)
  case Nil
  then show ?case by simp
next
  case (Cons p ts)
  obtain t bn where p: "p = (t, bn)" by fastforce
  with Cons.prems have "t - t0 < ac_cooldown_s c" by simp
  note here = throttle_in_cooldown [OF Cons.prems(1) this]
  show ?case
    using Cons.IH [of "ac_record_throttle t bn c"] Cons.prems(2) here
    by (simp add: p case_prod_beta)
qed

section \<open>Properties\<close>

text \<open>C28. Pacing: over any stretch of operations on the bucket that lasts at most \<open>W\<close> seconds, however
  the calls are spaced and however the controller moves the rate below \<open>R\<close>, at most
  \<open>capacity + R * W\<close> requests are let through.\<close>

theorem token_bucket_pacing:
  assumes "tb_wf b" "tb_rate b \<le> R" "1 / 1000000 \<le> R"
    and "ops \<noteq> []" "sorted (map op_time ops)" "\<forall>p \<in> set ops. op_rate_le R p"
    and "op_time (last ops) - op_time (hd ops) \<le> W"
  shows "of_nat (tb_grants b ops) \<le> tb_capacity b + R * W"
proof -
  define b' where "b' = tb_refill (op_time (hd ops)) b"
  have wf: "tb_wf b'" and le: "tb_tokens b' \<le> tb_capacity b"
    using tb_wf_refill [OF assms(1)] by (auto simp: b'_def tb_wf_def frame)
  have sorted: "sorted (tb_last_refill b' # map op_time ops)"
    using assms(4,5) by (cases ops) (auto simp: b'_def frame)
  have "of_nat (tb_grants b' ops)
      \<le> tb_tokens b' + R * (last (tb_last_refill b' # map op_time ops) - tb_last_refill b')"
    using wf assms(2,3,6) sorted by (intro tb_grants_potential) (simp_all add: b'_def frame)
  also have "\<dots> = tb_tokens b' + R * (op_time (last ops) - op_time (hd ops))"
    using assms(4) by (simp add: b'_def frame last_map)
  also have "\<dots> \<le> tb_capacity b + R * W"
    using le assms(3,7) by (intro add_mono mult_left_mono) auto
  finally show ?thesis
    using tb_grants_refill [OF assms(1,4)] by (simp add: b'_def)
qed

theorem token_bucket_pacing_witness:
  "tb_grants (new_token_bucket 2 2 0)
     [Tb_acquire 0, Tb_acquire 0, Tb_acquire 0, Tb_acquire (1 / 2)] = 3 \<and>
   of_nat (tb_grants (new_token_bucket 2 2 0)
     [Tb_acquire 0, Tb_acquire 0, Tb_acquire 0, Tb_acquire (1 / 2)]) \<le> (2 + 2 * (1 / 2) :: pyfloat)"
  using token_bucket_pacing [of "new_token_bucket 2 2 0" 2
      "[Tb_acquire 0, Tb_acquire 0, Tb_acquire 0, Tb_acquire (1 / 2)]" "1 / 2"]
  by (simp add: new_token_bucket_def tb_wf_def tb_acquire_pass_def tb_refill_def)

text \<open>\<open>acquire\<close> returns: when no other task takes the tokens meanwhile, a request that had to wait
  is granted on its second pass, as soon as the clock has advanced by the sleep it asked for.\<close>

lemma acquire_returns_after_sleep:
  assumes "tb_wf b" "tb_acquire_pass t b = (b', Some w)" "t + w \<le> t'"
  shows "\<exists>b''. tb_acquire b [t, t'] = Some (b'', [w])"
proof -
  have r: "0 < tb_rate b" "tb_rate (tb_refill t b) = tb_rate b"
    using assms(1) by (simp_all add: tb_wf_def frame)
  have b': "b' = tb_refill t b" "tb_tokens b' < 1"
    and w: "(1 - tb_tokens b') / tb_rate b \<le> w" "0 \<le> w"
    using assms(2) r by (auto simp: tb_acquire_pass_def Let_def split: if_splits)
  have "1 - tb_tokens b' \<le> w * tb_rate b"
    using w(1) r(1) by (simp add: pos_divide_le_eq)
  also have "\<dots> \<le> (t' - t) * tb_rate b"
    using assms(3) r(1) by (intro mult_right_mono) auto
  finally have "1 \<le> tb_tokens (tb_refill t' b')"
    using assms(1,3) w(2) r(2) b'(1) by (intro tb_refill_enough) (simp_all add: frame tb_wf_def)
  then show ?thesis
    using assms(2) by (simp add: tb_acquire_pass_def [of t' b'] Let_def)
qed

lemma acquire_returns_after_sleep_witness:
  "\<exists>b''. tb_acquire ((new_token_bucket 2 2 0)\<lparr>tb_tokens := 0\<rparr>) [0, 1] = Some (b'', [1 / 2])"
  by (rule acquire_returns_after_sleep [of _ _ "(new_token_bucket 2 2 0)\<lparr>tb_tokens := 0\<rparr>"])
    (simp_all add: new_token_bucket_def tb_wf_def tb_acquire_pass_def tb_refill_def)

lemma throttle_events_count:
  "ac_throttle_events_429 (ac_run c (map (\<lambda>(t, bn). Ac_throttle t bn) ts)) =
     ac_throttle_events_429 c + int (length ts)"
  by (induction ts arbitrary: c) (auto simp: ac_record_throttle_def Let_def)

text \<open>A burst of 429s is one signal: any number of throttles within one cooldown of the first, which
  itself comes after the previous cooldown, lowers the rate by the decrease factor exactly once, and
  every one of them is counted.\<close>

lemma throttle_burst_decreases_once:
  assumes "\<forall>t. ac_last_decrease_at c = Some t \<longrightarrow> ac_cooldown_s c \<le> t0 - t"
    and "\<forall>(t, bn) \<in> set ts. t - t0 < ac_cooldown_s c"
  shows "tb_rate (ac_bucket (ac_run c (map (\<lambda>(t, bn). Ac_throttle t bn) ((t0, bn0) # ts)))) =
      max (max (ac_min_rate c) (tb_rate (ac_bucket c) * ac_decrease_factor c)) (1 / 1000000) \<and>
    ac_throttle_events_429 (ac_run c (map (\<lambda>(t, bn). Ac_throttle t bn) ((t0, bn0) # ts))) =
      ac_throttle_events_429 c + 1 + int (length ts)"
proof -
  define c1 where "c1 = ac_record_throttle t0 bn0 c"
  have c1: "ac_last_decrease_at c1 = Some t0" "ac_cooldown_s c1 = ac_cooldown_s c"
    "ac_throttle_events_429 c1 = ac_throttle_events_429 c + 1"
    "tb_rate (ac_bucket c1) =
      max (max (ac_min_rate c) (tb_rate (ac_bucket c) * ac_decrease_factor c)) (1 / 1000000)"
    using assms(1)
    by (cases "ac_last_decrease_at c"; simp add: c1_def ac_record_throttle_def Let_def frame)+
  show ?thesis
    using throttles_in_cooldown [OF c1(1), of ts] assms(2) c1(2,4)
    by (simp add: throttle_events_count c1(3) flip: c1_def)
qed

lemma throttle_burst_decreases_once_witness:
  "tb_rate (ac_bucket (ac_run (new_controller (new_token_bucket 10 10 0) 1 15)
     (map (\<lambda>(t, bn). Ac_throttle t bn) [(1, 1), (2, 2), (3, 3)]))) = 15 / 2"
  using throttle_burst_decreases_once
    [of "new_controller (new_token_bucket 10 10 0) 1 15" 1 "[(2, 2), (3, 3)]" 1]
  by (simp add: new_controller_def new_token_bucket_def)

text \<open>Little's law: with observed latencies the reported concurrency is the least integer at least
  rate times mean latency, and never below one.\<close>

lemma littles_law_least:
  assumes "0 < ac_mean_latency c"
  shows "ac_littles_law_optimal_concurrency c =
    (LEAST n :: int. 1 \<le> n \<and> tb_rate (ac_bucket c) * ac_mean_latency c \<le> of_int n)"
proof (rule Least_equality [symmetric])
  show "1 \<le> ac_littles_law_optimal_concurrency c \<and>
      tb_rate (ac_bucket c) * ac_mean_latency c \<le> of_int (ac_littles_law_optimal_concurrency c)"
    using assms by (simp add: ac_littles_law_optimal_concurrency_def Let_def) linarith
next
  fix n :: int
  assume "1 \<le> n \<and> tb_rate (ac_bucket c) * ac_mean_latency c \<le> of_int n"
  then show "ac_littles_law_optimal_concurrency c \<le> n"
    using assms by (simp add: ac_littles_law_optimal_concurrency_def Let_def ceiling_le_iff)
qed

lemma littles_law_least_witness:
  "ac_littles_law_optimal_concurrency
     ((new_controller (new_token_bucket 2 2 0) 1 3)\<lparr>ac_latencies := [1, 2]\<rparr>) = 3 \<and>
   (LEAST n :: int. 1 \<le> n \<and> tb_rate (ac_bucket ((new_controller (new_token_bucket 2 2 0) 1 3)
        \<lparr>ac_latencies := [1, 2]\<rparr>)) * ac_mean_latency ((new_controller (new_token_bucket 2 2 0) 1 3)
        \<lparr>ac_latencies := [1, 2]\<rparr>) \<le> of_int n) = 3"
  using littles_law_least [of "(new_controller (new_token_bucket 2 2 0) 1 3)\<lparr>ac_latencies := [1, 2]\<rparr>"]
  by (simp add: new_controller_def new_token_bucket_def ac_mean_latency_def
      ac_littles_law_optimal_concurrency_def)

end
