(* ===== verification/PyQueue.thy ===== *)
theory PyQueue
  imports Prelude
begin

text \<open>
  \<open>asyncio.Queue\<close>, the only channel between the tasks of a job: the work queue of
  \<open>core/scheduler.py\<close> (bounded), the bridge of \<open>core/ingest.py\<close> (bounded by 64) and the sink
  queue of \<open>core/sink.py\<close> (unbounded).  An operation that would suspend the calling task is
  \<open>None\<close>; the caller then stays where it is.  The interface is the locale \<open>fifo_buffer\<close>.
\<close>

section \<open>The interface\<close>

datatype 'a buffer_op = Op_put 'a | Op_get

locale fifo_buffer =
  fixes put :: "'a \<Rightarrow> 'q \<Rightarrow> 'q option"
    and get :: "'q \<Rightarrow> ('a \<times> 'q) option"
    and contents :: "'q \<Rightarrow> 'a list"
    and capacity :: "'q \<Rightarrow> nat"
  assumes put_contents: "put x q = Some q' \<Longrightarrow> contents q' = contents q @ [x]"
    and put_capacity: "put x q = Some q' \<Longrightarrow> capacity q' = capacity q"
    and put_blocks: "put x q = None \<longleftrightarrow> 0 < capacity q \<and> capacity q \<le> length (contents q)"
    and get_contents: "get q = Some (x, q') \<Longrightarrow> contents q = x # contents q'"
    and get_capacity: "get q = Some (x, q') \<Longrightarrow> capacity q' = capacity q"
    and get_blocks: "get q = None \<longleftrightarrow> contents q = []"
begin

definition in_bounds :: "'q \<Rightarrow> bool" where
  "in_bounds q \<longleftrightarrow> capacity q = 0 \<or> length (contents q) \<le> capacity q"

lemma put_in_bounds: "put x q = Some q' \<Longrightarrow> in_bounds q \<Longrightarrow> in_bounds q'"
  using put_blocks [of x q] by (auto simp: in_bounds_def put_contents put_capacity)

lemma get_in_bounds: "get q = Some (x, q') \<Longrightarrow> in_bounds q \<Longrightarrow> in_bounds q'"
  by (auto simp: in_bounds_def get_capacity dest: get_contents)

text \<open>A run of operations: one that would suspend has no effect.  The results are the elements
  taken out, in order.\<close>

fun run_ops :: "'a buffer_op list \<Rightarrow> 'q \<Rightarrow> 'a list \<times> 'a list \<times> 'q" where
  "run_ops [] q = ([], [], q)"
| "run_ops (Op_put x # ops) q =
     (case put x q of None \<Rightarrow> run_ops ops q
      | Some q' \<Rightarrow> (let (ins, outs, r) = run_ops ops q' in (x # ins, outs, r)))"
| "run_ops (Op_get # ops) q =
     (case get q of None \<Rightarrow> run_ops ops q
      | Some (x, q') \<Rightarrow> (let (ins, outs, r) = run_ops ops q' in (ins, x # outs, r)))"

lemma run_ops_fifo:
  "run_ops ops q = (ins, outs, r) \<Longrightarrow> outs @ contents r = contents q @ ins"
proof (induction ops q arbitrary: ins outs r rule: run_ops.induct)
  case (1 q)
  then show ?case by simp
next
  case (2 x ops q)
  then show ?case
    by (fastforce simp: put_contents split: option.splits prod.splits)
next
  case (3 ops q)
  then show ?case
    by (fastforce split: option.splits prod.splits dest: get_contents)
qed

lemma run_ops_in_bounds: "run_ops ops q = (ins, outs, r) \<Longrightarrow> in_bounds q \<Longrightarrow> in_bounds r"
proof (induction ops q arbitrary: ins outs r rule: run_ops.induct)
  case (1 q)
  then show ?case by simp
next
  case (2 x ops q)
  then show ?case
    by (fastforce split: option.splits prod.splits dest: put_in_bounds)
next
  case (3 ops q)
  then show ?case
    by (fastforce split: option.splits prod.splits dest: get_in_bounds)
qed

end

section \<open>asyncio.Queue\<close>

record 'a pyqueue =
  q_items :: "'a list"
  q_maxsize :: nat
  q_unfinished :: nat

definition new_queue :: "nat \<Rightarrow> 'a pyqueue" where
  "new_queue m = \<lparr>q_items = [], q_maxsize = m, q_unfinished = 0\<rparr>"

definition q_full :: "'a pyqueue \<Rightarrow> bool" where
  "q_full q \<longleftrightarrow> 0 < q_maxsize q \<and> q_maxsize q \<le> length (q_items q)"

definition q_put :: "'a \<Rightarrow> 'a pyqueue \<Rightarrow> 'a pyqueue option" where
  "q_put x q =
     (if q_full q then None
      else Some (q\<lparr>q_items := q_items q @ [x], q_unfinished := Suc (q_unfinished q)\<rparr>))"

definition q_get :: "'a pyqueue \<Rightarrow> ('a \<times> 'a pyqueue) option" where
  "q_get q = (case q_items q of [] \<Rightarrow> None | x # xs \<Rightarrow> Some (x, q\<lparr>q_items := xs\<rparr>))"

text \<open>\<open>task_done()\<close> raises \<open>ValueError\<close> when called more often than items were put: \<open>None\<close>.\<close>

definition q_task_done :: "'a pyqueue \<Rightarrow> 'a pyqueue option" where
  "q_task_done q =
     (if q_unfinished q = 0 then None else Some (q\<lparr>q_unfinished := q_unfinished q - 1\<rparr>))"

interpretation aq: fifo_buffer q_put q_get q_items q_maxsize
  by unfold_locales
    (auto simp: q_put_def q_get_def q_full_def split: if_splits list.splits)

lemma q_put_Some:
  "q_put x q = Some q' \<longleftrightarrow> \<not> q_full q \<and>
     q' = q\<lparr>q_items := q_items q @ [x], q_unfinished := Suc (q_unfinished q)\<rparr>"
  by (auto simp: q_put_def)

lemma q_get_Some:
  "q_get q = Some (x, q') \<longleftrightarrow> q_items q = x # q_items q' \<and> q' = q\<lparr>q_items := q_items q'\<rparr>"
  by (auto simp: q_get_def split: list.splits)

end
