(* ===== verification/TextIO.thy ===== *)
theory TextIO
  imports Prelude
begin

text \<open>
  Text files as Python reads them line by line: universal newlines, iteration over lines that keep
  their newline, \<open>str.strip\<close> and \<open>str.rstrip\<close>.  Characters are code points below 256.
\<close>

abbreviation newline :: char where "newline \<equiv> CHR 0x0A"
abbreviation carriage :: char where "carriage \<equiv> CHR 0x0D"

definition py_isspace :: "char \<Rightarrow> bool" where
  "py_isspace c \<longleftrightarrow> (let n = of_char c :: nat in
     (9 \<le> n \<and> n \<le> 13) \<or> (28 \<le> n \<and> n \<le> 32) \<or> n = 133 \<or> n = 160)"

definition py_lstrip :: "string \<Rightarrow> string" where
  "py_lstrip s = dropWhile py_isspace s"

definition py_rstrip :: "string \<Rightarrow> string" where
  "py_rstrip s = rev (dropWhile py_isspace (rev s))"

definition py_strip :: "string \<Rightarrow> string" where
  "py_strip s = py_rstrip (py_lstrip s)"

text \<open>\<open>s.rstrip(chars)\<close> for one character, as in \<open>raw_line.rstrip(\<dots>)\<close>.\<close>

definition py_rstrip_char :: "char \<Rightarrow> string \<Rightarrow> string" where
  "py_rstrip_char c s = rev (dropWhile ((=) c) (rev s))"

fun universal_newlines :: "string \<Rightarrow> string" where
  "universal_newlines [] = []"
| "universal_newlines [c] = [if c = carriage then newline else c]"
| "universal_newlines (c # d # s) =
     (if c = carriage \<and> d = newline then newline # universal_newlines s
      else (if c = carriage then newline else c) # universal_newlines (d # s))"

text \<open>Iteration over a text file: each line with its newline, the last one possibly without.\<close>

fun split_lines :: "string \<Rightarrow> string \<Rightarrow> string list" where
  "split_lines acc [] = (if acc = [] then [] else [rev acc])"
| "split_lines acc (c # s) =
     (if c = newline then rev (c # acc) # split_lines [] s else split_lines (c # acc) s)"

definition file_lines :: "string \<Rightarrow> string list" where
  "file_lines s = split_lines [] (universal_newlines s)"

section \<open>Lines of a file written line by line\<close>

definition line_text :: "string \<Rightarrow> bool" where
  "line_text l \<longleftrightarrow> newline \<notin> set l \<and> carriage \<notin> set l"

definition lines_file :: "string list \<Rightarrow> string" where
  "lines_file ls = concat (map (\<lambda>l. l @ [newline]) ls)"

lemma universal_newlines_id: "carriage \<notin> set s \<Longrightarrow> universal_newlines s = s"
  by (induction s rule: universal_newlines.induct) auto

lemma split_lines_acc:
  "newline \<notin> set l \<Longrightarrow>
   split_lines acc (l @ newline # s) = (rev acc @ l @ [newline]) # split_lines [] s"
  by (induction l arbitrary: acc) auto

lemma split_lines_last:
  "newline \<notin> set l \<Longrightarrow> split_lines acc l = (if acc = [] \<and> l = [] then [] else [rev acc @ l])"
  by (induction l arbitrary: acc) auto

lemma split_lines_file:
  assumes "\<forall>l \<in> set ls. newline \<notin> set l" "newline \<notin> set t"
  shows "split_lines [] (lines_file ls @ t) =
    map (\<lambda>l. l @ [newline]) ls @ (if t = [] then [] else [t])"
  using assms
proof (induction ls)
  case Nil
  then show ?case by (simp add: lines_file_def split_lines_last)
next
  case (Cons l ls)
  then show ?case
    using split_lines_acc [of l "[]" "lines_file ls @ t"] by (simp add: lines_file_def)
qed

lemma carriage_lines_file:
  "\<forall>l \<in> set ls. line_text l \<Longrightarrow> carriage \<notin> set (lines_file ls)"
  by (induction ls) (auto simp: lines_file_def line_text_def)

lemma file_lines_written:
  assumes "\<forall>l \<in> set ls. line_text l" "line_text t"
  shows "file_lines (lines_file ls @ t) =
    map (\<lambda>l. l @ [newline]) ls @ (if t = [] then [] else [t])"
proof -
  have "carriage \<notin> set (lines_file ls @ t)"
    using assms carriage_lines_file by (auto simp: line_text_def)
  then show ?thesis
    using assms by (simp add: file_lines_def universal_newlines_id line_text_def split_lines_file
        del: set_append)
qed

lemma lines_file_append: "lines_file (ls @ ms) = lines_file ls @ lines_file ms"
  by (simp add: lines_file_def)

lemma strip_braced:
  assumes "s = CHR 0x7B # m @ [CHR 0x7D]"
  shows "py_strip (s @ [newline]) = s" "py_strip s = s"
  using assms
  by (simp_all add: py_strip_def py_lstrip_def py_rstrip_def py_isspace_def)

lemma strip_Nil [simp]: "py_strip [] = []"
  by (simp add: py_strip_def py_lstrip_def py_rstrip_def)

lemma dropWhile_notin: "c \<notin> set l \<Longrightarrow> dropWhile ((=) c) l = l"
  by (cases l) auto

lemma rstrip_newline:
  "newline \<notin> set l \<Longrightarrow> py_rstrip_char newline (l @ [newline]) = l"
  by (simp add: py_rstrip_char_def dropWhile_notin)

end
