(* ===== verification/PyJson.thy ===== *)
theory PyJson
  imports Json TextIO "HOL-Library.Countable"
begin

text \<open>
  \<open>json.dumps\<close> and \<open>json.loads\<close> with their default options, as the engine calls them: separators
  with a space, \<open>ensure_ascii\<close>, strict strings; the last of several equal keys wins.  The text of a
  float (\<open>float.__repr__\<close>) and \<open>float(str)\<close> are parameters: \<open>repr_faithful\<close> states what is documented of
  the first.  Characters are code points below 256, so an escape of a larger one is refused;
  recursion and digit limits are not modelled.

  What \<open>dumps\<close> writes is one line of printable ASCII, and \<open>loads\<close> reads it back as the value it was.
\<close>

section \<open>The encoder\<close>

abbreviation quote :: char where "quote \<equiv> CHR 0x22"
abbreviation backslash :: char where "backslash \<equiv> CHR 0x5C"

definition hex_digit :: "nat \<Rightarrow> char" where
  "hex_digit n = char_of (if n < 10 then 48 + n else 87 + n)"

definition json_escape :: "char \<Rightarrow> string" where
  "json_escape c =
     (let n = of_char c :: nat in
      if c = quote then [backslash, quote]
      else if c = backslash then [backslash, backslash]
      else if n = 10 then [backslash, CHR ''n'']
      else if n = 13 then [backslash, CHR ''r'']
      else if n = 9 then [backslash, CHR ''t'']
      else if n = 12 then [backslash, CHR ''f'']
      else if n = 8 then [backslash, CHR ''b'']
      else if 32 \<le> n \<and> n \<le> 126 then [c]
      else [backslash, CHR ''u'', CHR ''0'', CHR ''0'', hex_digit (n div 16), hex_digit (n mod 16)])"

definition json_quote :: "string \<Rightarrow> string" where
  "json_quote s = quote # concat (map json_escape s) @ [quote]"

fun sep_by :: "string \<Rightarrow> string list \<Rightarrow> string" where
  "sep_by sep [] = []"
| "sep_by sep [x] = x"
| "sep_by sep (x # y # ys) = x @ sep @ sep_by sep (y # ys)"

fun json_dumps :: "(pyfloat \<Rightarrow> string) \<Rightarrow> json \<Rightarrow> string" where
  "json_dumps repr JNull = ''null''"
| "json_dumps repr (JBool b) = (if b then ''true'' else ''false'')"
| "json_dumps repr (JInt i) = py_str_int i"
| "json_dumps repr (JFloat x) = repr x"
| "json_dumps repr (JStr s) = json_quote s"
| "json_dumps repr (JList vs) = CHR ''['' # sep_by '', '' (map (json_dumps repr) vs) @ '']''"
| "json_dumps repr (JObj d) =
     CHR ''{'' # sep_by '', '' (map (\<lambda>(k, v). json_quote k @ '': '' @ json_dumps repr v) d) @ ''}''"

section \<open>The decoder\<close>

type_synonym 'a scanner = "string \<Rightarrow> ('a \<times> string) option"

definition json_space :: "char \<Rightarrow> bool" where
  "json_space c \<longleftrightarrow> c \<in> {CHR '' '', CHR 0x09, newline, carriage}"

definition skip_space :: "string \<Rightarrow> string" where
  "skip_space s = dropWhile json_space s"

definition is_digit :: "char \<Rightarrow> bool" where
  "is_digit c \<longleftrightarrow> (let n = of_char c :: nat in 48 \<le> n \<and> n \<le> 57)"

subsection \<open>Strings\<close>

definition hex_value :: "char \<Rightarrow> nat option" where
  "hex_value c =
     (let n = of_char c :: nat in
      if 48 \<le> n \<and> n \<le> 57 then Some (n - 48)
      else if 97 \<le> n \<and> n \<le> 102 then Some (n - 87)
      else if 65 \<le> n \<and> n \<le> 70 then Some (n - 55)
      else None)"

text \<open>The code point of four hexadecimal digits, when it is below 256.\<close>

definition code_point :: "char \<Rightarrow> char \<Rightarrow> char \<Rightarrow> char \<Rightarrow> char option" where
  "code_point a b c d =
     (case (hex_value a, hex_value b, hex_value c, hex_value d) of
        (Some 0, Some 0, Some h, Some l) \<Rightarrow> Some (char_of (16 * h + l))
      | _ \<Rightarrow> None)"

definition simple_escape :: "char \<Rightarrow> char option" where
  "simple_escape c =
     (if c \<in> {quote, backslash, CHR ''/''} then Some c
      else if c = CHR ''n'' then Some newline
      else if c = CHR ''r'' then Some carriage
      else if c = CHR ''t'' then Some (CHR 0x09)
      else if c = CHR ''f'' then Some (CHR 0x0C)
      else if c = CHR ''b'' then Some (CHR 0x08)
      else None)"

text \<open>What follows the opening quote; a control character is not allowed.\<close>

fun scan_string :: "string scanner" where
  "scan_string [] = None"
| "scan_string (c # s) =
     (if c = quote then Some ([], s)
      else if c = backslash then
        (case s of
           [] \<Rightarrow> None
         | e # s' \<Rightarrow>
             if e = CHR ''u'' then
               (case s' of
                  h1 # h2 # h3 # h4 # s'' \<Rightarrow>
                    (case code_point h1 h2 h3 h4 of
                       None \<Rightarrow> None
                     | Some x \<Rightarrow> map_option (apfst ((#) x)) (scan_string s''))
                | _ \<Rightarrow> None)
             else
               (case simple_escape e of
                  None \<Rightarrow> None
                | Some x \<Rightarrow> map_option (apfst ((#) x)) (scan_string s')))
      else if of_char c < (32 :: nat) then None
      else map_option (apfst ((#) c)) (scan_string s))"

subsection \<open>Numbers\<close>

text \<open>The three groups of the scanner's pattern: integer, fraction and exponent.\<close>

definition scan_nat :: "string scanner" where
  "scan_nat s =
     (case s of
        [] \<Rightarrow> None
      | c # r \<Rightarrow>
          if c = CHR ''0'' then Some ([c], r)
          else if is_digit c then Some (takeWhile is_digit s, dropWhile is_digit s)
          else None)"

definition scan_int :: "string scanner" where
  "scan_int s =
     (case s of
        [] \<Rightarrow> None
      | c # r \<Rightarrow> if c = CHR ''-'' then map_option (apfst ((#) c)) (scan_nat r) else scan_nat s)"

definition scan_frac :: "string \<Rightarrow> string \<times> string" where
  "scan_frac s =
     (case s of
        [] \<Rightarrow> ([], s)
      | c # r \<Rightarrow>
          if c = CHR ''.'' \<and> takeWhile is_digit r \<noteq> []
          then (c # takeWhile is_digit r, dropWhile is_digit r)
          else ([], s))"

definition scan_exp :: "string \<Rightarrow> string \<times> string" where
  "scan_exp s =
     (case s of
        [] \<Rightarrow> ([], s)
      | c # r \<Rightarrow>
          if c \<in> {CHR ''e'', CHR ''E''} then
            (let (sign, r') = (case r of x # r' \<Rightarrow> if x \<in> {CHR ''+'', CHR ''-''} then ([x], r') else ([], r)
                               | [] \<Rightarrow> ([], r)) in
             if takeWhile is_digit r' = [] then ([], s)
             else (c # sign @ takeWhile is_digit r', dropWhile is_digit r'))
          else ([], s))"

definition scan_number :: "(string \<times> string) scanner" where
  "scan_number s =
     (case scan_int s of
        None \<Rightarrow> None
      | Some (i, r) \<Rightarrow>
          (let (f, r1) = scan_frac r; (e, r2) = scan_exp r1 in Some ((i, f @ e), r2)))"

definition digits_value :: "string \<Rightarrow> nat" where
  "digits_value s = foldl (\<lambda>n c. 10 * n + (of_char c - 48)) 0 s"

definition int_value :: "string \<Rightarrow> int" where
  "int_value s =
     (case s of
        [] \<Rightarrow> 0
      | c # r \<Rightarrow> if c = CHR ''-'' then - int (digits_value r) else int (digits_value s))"

definition number_value :: "(string \<Rightarrow> pyfloat option) \<Rightarrow> string \<times> string \<Rightarrow> json option" where
  "number_value parse_float p =
     (case p of (i, fe) \<Rightarrow>
        if fe = [] then Some (JInt (int_value i)) else map_option JFloat (parse_float (i @ fe)))"

subsection \<open>Values\<close>

definition literal :: "string \<Rightarrow> 'a \<Rightarrow> 'a scanner" where
  "literal t x s = (if take (length t) s = t then Some (x, drop (length t) s) else None)"

text \<open>A constant, a number, or one of the names the module takes for a float.\<close>

definition scan_atom :: "(string \<Rightarrow> pyfloat option) \<Rightarrow> json scanner" where
  "scan_atom parse_float s =
     (let name = (\<lambda>t. case parse_float t of None \<Rightarrow> None | Some x \<Rightarrow> literal t (JFloat x) s) in
      case s of
        [] \<Rightarrow> None
      | c # r \<Rightarrow>
          if c = CHR ''n'' then literal ''null'' JNull s
          else if c = CHR ''t'' then literal ''true'' (JBool True) s
          else if c = CHR ''f'' then literal ''false'' (JBool False) s
          else case scan_number s of
              Some (p, r) \<Rightarrow> map_option (\<lambda>v. (v, r)) (number_value parse_float p)
            | None \<Rightarrow>
                if c = CHR ''N'' then name ''NaN''
                else if c = CHR ''I'' then name ''Infinity''
                else name ''-Infinity'')"

text \<open>A key of an object with its colon.\<close>

definition scan_key :: "string scanner" where
  "scan_key s =
     (case s of
        [] \<Rightarrow> None
      | c # s' \<Rightarrow>
          if c \<noteq> quote then None
          else case scan_string s' of
              None \<Rightarrow> None
            | Some (k, r) \<Rightarrow>
                (case skip_space r of
                   [] \<Rightarrow> None
                 | c' # r' \<Rightarrow> if c' = CHR '':'' then Some (k, skip_space r') else None))"

text \<open>The recursion is bounded by \<open>n\<close>; two for each character of the text are enough.\<close>

fun scan_value :: "(string \<Rightarrow> pyfloat option) \<Rightarrow> nat \<Rightarrow> json scanner"
  and scan_items :: "(string \<Rightarrow> pyfloat option) \<Rightarrow> nat \<Rightarrow> json list scanner"
  and scan_members :: "(string \<Rightarrow> pyfloat option) \<Rightarrow> nat \<Rightarrow> json pydict \<Rightarrow> json pydict scanner"
where
  "scan_value pf 0 s = None"
| "scan_value pf (Suc n) s =
     (case s of
        [] \<Rightarrow> None
      | c # r \<Rightarrow>
          if c = quote then map_option (apfst JStr) (scan_string r)
          else if c = CHR ''{'' then
            (case skip_space r of
               [] \<Rightarrow> None
             | c' # r' \<Rightarrow>
                 if c' = CHR ''}'' then Some (JObj [], r')
                 else map_option (apfst JObj) (scan_members pf n [] (c' # r')))
          else if c = CHR ''['' then
            (case skip_space r of
               [] \<Rightarrow> None
             | c' # r' \<Rightarrow>
                 if c' = CHR '']'' then Some (JList [], r')
                 else map_option (apfst JList) (scan_items pf n (c' # r')))
          else scan_atom pf s)"
| "scan_items pf 0 s = None"
| "scan_items pf (Suc n) s =
     (case scan_value pf n s of
        None \<Rightarrow> None
      | Some (v, r) \<Rightarrow>
          (case skip_space r of
             [] \<Rightarrow> None
           | c # r' \<Rightarrow>
               if c = CHR '']'' then Some ([v], r')
               else if c = CHR '','' then map_option (apfst ((#) v)) (scan_items pf n (skip_space r'))
               else None))"
| "scan_members pf 0 d s = None"
| "scan_members pf (Suc n) d s =
     (case scan_key s of
        None \<Rightarrow> None
      | Some (k, r) \<Rightarrow>
          (case scan_value pf n r of
             None \<Rightarrow> None
           | Some (v, r') \<Rightarrow>
               (case skip_space r' of
                  [] \<Rightarrow> None
                | c # r'' \<Rightarrow>
                    if c = CHR ''}'' then Some (dict_set k v d, r'')
                    else if c = CHR '','' then scan_members pf n (dict_set k v d) (skip_space r'')
                    else None)))"

definition json_loads :: "(string \<Rightarrow> pyfloat option) \<Rightarrow> string \<Rightarrow> json option" where
  "json_loads parse_float s =
     (case scan_value parse_float (Suc (2 * length s)) (skip_space s) of
        None \<Rightarrow> None
      | Some (v, r) \<Rightarrow> if skip_space r = [] then Some v else None)"

section \<open>Strings read back\<close>

lemma hex_value_digit: "n < 16 \<Longrightarrow> hex_value (hex_digit n) = Some n"
  by (auto simp: hex_value_def hex_digit_def Let_def)

lemma of_char_div_16: "(of_char c :: nat) div 16 < 16"
proof -
  have "(of_char c :: nat) < 256" by (cases c) (simp add: of_char_def)
  then show ?thesis by (simp add: div_less_iff_less_mult)
qed

lemma code_point_escape:
  "code_point (CHR ''0'') (CHR ''0'') (hex_digit (of_char c div 16)) (hex_digit (of_char c mod 16)) = Some c"
  by (simp add: code_point_def hex_value_digit of_char_div_16) (simp add: hex_value_def)

text \<open>A character is known by its code.\<close>

lemma char_eq_of_char: "c = d \<longleftrightarrow> (of_char c :: nat) = of_char d"
  by simp

lemma scan_string_escape:
  "scan_string (json_escape c @ t) = map_option (apfst ((#) c)) (scan_string t)"
proof -
  let ?n = "of_char c :: nat"
  have ctrl: "?n = 10 \<longleftrightarrow> c = newline" "?n = 13 \<longleftrightarrow> c = carriage" "?n = 9 \<longleftrightarrow> c = CHR 0x09"
    "?n = 12 \<longleftrightarrow> c = CHR 0x0C" "?n = 8 \<longleftrightarrow> c = CHR 0x08"
    unfolding char_eq_of_char [of c] by simp_all
  show ?thesis
    by (auto simp: json_escape_def Let_def ctrl simple_escape_def code_point_escape)
qed

lemma scan_string_quoted: "scan_string (concat (map json_escape s) @ quote # t) = Some (s, t)"
  by (induction s) (simp_all add: scan_string_escape)

section \<open>Integers read back\<close>

lemma is_digit_char: "(n :: nat) < 10 \<Longrightarrow> is_digit (char_of (48 + n))"
  by (simp add: is_digit_def Let_def)

lemma py_str_nat_digits: "list_all is_digit (py_str_nat n) \<and> py_str_nat n \<noteq> []"
proof (induction n rule: py_str_nat.induct)
  case (1 n)
  then show ?case
    by (subst (1 2) py_str_nat.simps) (simp add: is_digit_char)
qed

lemma digits_value_snoc: "digits_value (s @ [c]) = 10 * digits_value s + (of_char c - 48)"
  by (simp add: digits_value_def)

lemma digits_value_str: "digits_value (py_str_nat n) = n"
proof (induction n rule: py_str_nat.induct)
  case (1 n)
  show ?case
  proof (cases "n < 10")
    case True
    then show ?thesis
      by (subst py_str_nat.simps) (simp add: digits_value_def)
  next
    case False
    then show ?thesis
      using 1 by (subst py_str_nat.simps) (simp add: digits_value_snoc)
  qed
qed

text \<open>No leading zero.\<close>

lemma hd_py_str_nat: "0 < n \<Longrightarrow> hd (py_str_nat n) \<noteq> CHR ''0''"
proof (induction n rule: py_str_nat.induct)
  case (1 n)
  show ?case
  proof (cases "n < 10")
    case True
    have "char_of (48 + n) \<noteq> CHR ''0''"
    proof
      assume "char_of (48 + n) = CHR ''0''"
      then have "(of_char (char_of (48 + n) :: char) :: nat) = of_char (CHR ''0'')" by simp
      then show False using True 1(2) by simp
    qed
    then show ?thesis
      using True by (subst py_str_nat.simps) simp
  next
    case False
    then have "hd (py_str_nat (n div 10)) \<noteq> CHR ''0''"
      using 1 by simp
    then show ?thesis
      using False py_str_nat_digits [of "n div 10"] by (subst py_str_nat.simps) simp
  qed
qed

text \<open>What may follow a number: nothing a longer number could go on with.\<close>

definition number_ends :: "string \<Rightarrow> bool" where
  "number_ends r \<longleftrightarrow> (case r of [] \<Rightarrow> True | c # r' \<Rightarrow> \<not> is_digit c \<and> c \<notin> {CHR ''.'', CHR ''e'', CHR ''E''})"

lemma number_ends_digit: "number_ends r \<Longrightarrow> takeWhile is_digit r = [] \<and> dropWhile is_digit r = r"
  by (cases r) (simp_all add: number_ends_def)

lemma take_digits:
  assumes "list_all is_digit ds" "takeWhile is_digit r = []"
  shows "takeWhile is_digit (ds @ r) = ds" "dropWhile is_digit (ds @ r) = r"
  using assms by (induction ds) (simp_all, cases r, auto split: if_splits)

lemma scan_frac_ends [simp]: "number_ends r \<Longrightarrow> scan_frac r = ([], r)"
  by (auto simp: number_ends_def scan_frac_def split: list.split char.split bool.split)

lemma scan_exp_ends [simp]: "number_ends r \<Longrightarrow> scan_exp r = ([], r)"
  by (auto simp: number_ends_def scan_exp_def split: list.split)

lemma digit_not: "is_digit c \<Longrightarrow> c \<notin> set ''-.eE+ntfNI''"
  by (auto simp: is_digit_def)

lemma py_str_nat_Cons:
  obtains c ds where "py_str_nat n = c # ds" "is_digit c" "list_all is_digit ds" "c \<noteq> CHR ''-''"
    "c \<noteq> CHR ''0'' \<or> ds = []"
proof -
  obtain c ds where cs: "py_str_nat n = c # ds" "is_digit c" "list_all is_digit ds"
    using py_str_nat_digits [of n] by (cases "py_str_nat n") auto
  have "c \<noteq> CHR ''-''" using digit_not [OF cs(2)] by auto
  moreover have "c \<noteq> CHR ''0'' \<or> ds = []"
  proof (cases "n = 0")
    case True
    then show ?thesis using cs(1) py_str_nat.simps [of 0] by simp
  next
    case False
    then show ?thesis using hd_py_str_nat [of n] cs(1) by simp
  qed
  ultimately show ?thesis using that cs by blast
qed

lemma scan_nat_str:
  assumes "number_ends r"
  shows "scan_nat (py_str_nat n @ r) = Some (py_str_nat n, r)"
proof -
  obtain c ds where cs: "py_str_nat n = c # ds" "is_digit c" "list_all is_digit ds" "c \<noteq> CHR ''-''"
    "c \<noteq> CHR ''0'' \<or> ds = []"
    by (rule py_str_nat_Cons [of n])
  show ?thesis
    using take_digits [of "c # ds" r] cs number_ends_digit [OF assms] by (auto simp: scan_nat_def)
qed

lemma scan_int_str:
  assumes "number_ends r"
  shows "scan_int (py_str_int i @ r) = Some (py_str_int i, r)"
proof -
  obtain c ds where cs: "py_str_nat (nat i) = c # ds" "c \<noteq> CHR ''-''"
    by (rule py_str_nat_Cons [of "nat i"])
  show ?thesis
    using scan_nat_str [OF assms, of "nat i"] scan_nat_str [OF assms, of "nat (- i)"] cs
    by (simp add: scan_int_def py_str_int_def)
qed

lemma int_value_str: "int_value (py_str_int i) = i"
proof -
  obtain c ds where cs: "py_str_nat (nat i) = c # ds" "c \<noteq> CHR ''-''"
    by (rule py_str_nat_Cons [of "nat i"])
  then show ?thesis
    using digits_value_str [of "nat i"] digits_value_str [of "nat (- i)"]
    by (simp add: int_value_def py_str_int_def)
qed

lemma scan_number_int:
  "number_ends r \<Longrightarrow> scan_number (py_str_int i @ r) = Some ((py_str_int i, []), r)"
  by (simp add: scan_number_def scan_int_str)

section \<open>Floats read back\<close>

text \<open>What Python documents of \<open>repr\<close> of a float: \<open>float\<close> reads the same number back, and the text is a
  number with a fraction or an exponent.\<close>

definition repr_faithful :: "(pyfloat \<Rightarrow> string) \<Rightarrow> (string \<Rightarrow> pyfloat option) \<Rightarrow> bool" where
  "repr_faithful repr parse_float \<longleftrightarrow>
     (\<forall>x. parse_float (repr x) = Some x \<and>
        (case scan_number (repr x) of Some ((i, fe), r) \<Rightarrow> fe \<noteq> [] \<and> r = [] | None \<Rightarrow> False))"

lemma digits_append:
  assumes "takeWhile is_digit r = []"
  shows "takeWhile is_digit (t @ r) = takeWhile is_digit t"
    and "dropWhile is_digit (t @ r) = dropWhile is_digit t @ r"
  using assms by (induction t) (simp_all, cases r, auto split: if_splits)

lemma takeWhile_all: "dropWhile P xs = [] \<Longrightarrow> takeWhile P xs = xs"
  by (induction xs) (auto split: if_splits)

lemma number_ends_takeWhile [simp]: "number_ends r \<Longrightarrow> takeWhile is_digit r = []"
  by (simp add: number_ends_digit)

lemma scan_nat_append:
  "scan_nat t = Some (i, t') \<Longrightarrow> number_ends r \<Longrightarrow> scan_nat (t @ r) = Some (i, t' @ r) \<and> t = i @ t'"
  by (auto simp: scan_nat_def digits_append split: list.splits if_splits)

lemma scan_int_append:
  "scan_int t = Some (i, t') \<Longrightarrow> number_ends r \<Longrightarrow> scan_int (t @ r) = Some (i, t' @ r) \<and> t = i @ t'"
  using scan_nat_append [of t i t' r] scan_nat_append [of "tl t" "tl i" t' r]
  by (cases t) (auto simp: scan_int_def split: if_splits)

lemma scan_frac_append:
  "scan_frac t = (f, t') \<Longrightarrow> number_ends r \<Longrightarrow> scan_frac (t @ r) = (f, t' @ r) \<and> t = f @ t'"
proof (cases t)
  case Nil
  then show "scan_frac t = (f, t') \<Longrightarrow> number_ends r \<Longrightarrow> ?thesis"
    by (simp add: scan_frac_def [of "[]"])
next
  case (Cons c s)
  then show "scan_frac t = (f, t') \<Longrightarrow> number_ends r \<Longrightarrow> ?thesis"
    by (auto simp: scan_frac_def digits_append split: if_splits)
qed

lemma scan_exp_append:
  "scan_exp t = (e, []) \<Longrightarrow> number_ends r \<Longrightarrow> scan_exp (t @ r) = (e, r) \<and> t = e"
proof (cases t)
  case Nil
  then show "scan_exp t = (e, []) \<Longrightarrow> number_ends r \<Longrightarrow> ?thesis"
    by (simp add: scan_exp_def [of "[]"])
next
  case (Cons c s)
  then show "scan_exp t = (e, []) \<Longrightarrow> number_ends r \<Longrightarrow> ?thesis"
    by (cases s) (auto simp: scan_exp_def digits_append Let_def takeWhile_all
        simp del: dropWhile_eq_Nil_conv split: if_splits)
qed

lemma scan_number_append:
  assumes "scan_number t = Some ((i, fe), [])" "number_ends r"
  shows "scan_number (t @ r) = Some ((i, fe), r)" "i @ fe = t"
proof -
  obtain t1 f t2 e where
    "scan_int t = Some (i, t1)" "scan_frac t1 = (f, t2)" "scan_exp t2 = (e, [])" "fe = f @ e"
    using assms(1) by (auto simp: scan_number_def split: option.splits prod.splits)
  then show "scan_number (t @ r) = Some ((i, fe), r)" "i @ fe = t"
    using scan_int_append [of t i t1 r] scan_frac_append [of t1 f t2 r] scan_exp_append [of t2 e r] assms(2)
    by (auto simp: scan_number_def)
qed

text \<open>How the text of a number begins.\<close>

definition number_head :: "char \<Rightarrow> bool" where
  "number_head c \<longleftrightarrow> c = CHR ''-'' \<or> is_digit c"

lemma scan_number_head:
  assumes "scan_number t = Some p"
  obtains c t' where "t = c # t'" "number_head c"
proof -
  have "is_digit (CHR ''0'')" by (simp add: is_digit_def)
  then have "\<exists>c t'. t = c # t' \<and> number_head c"
    using assms
    by (auto simp: scan_number_def scan_int_def scan_nat_def number_head_def
        split: option.splits list.splits if_splits)
  then show ?thesis using that by blast
qed

lemma number_head_not: "number_head c \<Longrightarrow> c \<notin> set ''ntf{}[], :'' \<union> {quote, newline, carriage, CHR 0x09}"
  by (auto simp: number_head_def is_digit_def)

lemma scan_value_number:
  assumes "scan_number s = Some (p, r)" "number_value pf p = Some v"
  shows "scan_value pf (Suc n) s = Some (v, r)"
proof -
  obtain c s' where s: "s = c # s'" "number_head c"
    using assms(1) by (rule scan_number_head)
  then show ?thesis
    using assms number_head_not [of c] by (simp add: scan_atom_def)
qed

lemma scan_value_int:
  "number_ends r \<Longrightarrow> scan_value pf (Suc n) (py_str_int i @ r) = Some (JInt i, r)"
  using scan_number_int by (rule scan_value_number) (simp_all add: number_value_def int_value_str)

lemma repr_faithfulD:
  assumes "repr_faithful repr pf"
  obtains i fe where "scan_number (repr x) = Some ((i, fe), [])" "fe \<noteq> []" "pf (repr x) = Some x"
  using assms by (fastforce simp: repr_faithful_def split: option.splits prod.splits)

lemma scan_value_float:
  assumes "repr_faithful repr pf" "number_ends r"
  shows "scan_value pf (Suc n) (repr x @ r) = Some (JFloat x, r)"
proof -
  obtain i fe where x: "scan_number (repr x) = Some ((i, fe), [])" "fe \<noteq> []" "pf (repr x) = Some x"
    using assms(1) by (rule repr_faithfulD)
  then show ?thesis
    using scan_number_append [OF x(1) assms(2)]
      scan_value_number [of "repr x @ r" "(i, fe)" r pf "JFloat x"] by (simp add: number_value_def)
qed

section \<open>Every value reads back\<close>

text \<open>The keys of a Python dictionary are distinct, at every level.\<close>

fun json_ok :: "json \<Rightarrow> bool" where
  "json_ok (JList vs) = list_all json_ok vs"
| "json_ok (JObj d) = (dict_ok d \<and> list_all (\<lambda>(k, v). json_ok v) d)"
| "json_ok v = True"

lemma skip_space_id: "\<not> json_space c \<Longrightarrow> skip_space (c # s) = c # s"
  by (simp add: skip_space_def)

lemma skip_space_blank [simp]: "skip_space (CHR '' '' # s) = skip_space s"
  by (simp add: skip_space_def json_space_def)

lemma dumps_head:
  assumes "repr_faithful repr pf"
  obtains c t where "json_dumps repr v = c # t" "\<not> json_space c" "c \<notin> {CHR '']'', CHR ''}''}"
proof -
  have "\<exists>c t. json_dumps repr v = c # t \<and> \<not> json_space c \<and> c \<notin> {CHR '']'', CHR ''}''}"
  proof (cases v)
    case (JInt i)
    have "scan_number (py_str_int i) = Some ((py_str_int i, []), [])"
      using scan_number_int [of "[]" i] by (simp add: number_ends_def)
    then obtain c t where "py_str_int i = c # t" "number_head c"
      by (rule scan_number_head)
    then show ?thesis
      using number_head_not [of c] JInt by (auto simp: json_space_def)
  next
    case (JFloat x)
    obtain i fe where "scan_number (repr x) = Some ((i, fe), [])"
      using assms by (rule repr_faithfulD)
    then obtain c t where "repr x = c # t" "number_head c"
      by (rule scan_number_head)
    then show ?thesis
      using number_head_not [of c] JFloat by (auto simp: json_space_def)
  qed (simp_all add: json_space_def json_quote_def)
  then show ?thesis using that by blast
qed

lemma skip_space_dumps: "repr_faithful repr pf \<Longrightarrow> skip_space (json_dumps repr v @ s) = json_dumps repr v @ s"
  using dumps_head [of repr pf v] by (metis append_Cons skip_space_id)

lemma number_ends_after [simp]:
  "number_ends (CHR '','' # s)" "number_ends (CHR '']'' # s)" "number_ends (CHR ''}'' # s)" "number_ends []"
  by (simp_all add: number_ends_def is_digit_def)

lemma sep_by_Cons: "sep_by sep (x # xs) = x @ (if xs = [] then [] else sep @ sep_by sep xs)"
  by (cases xs) simp_all

text \<open>What it takes for a value to be read back at a given depth.\<close>

definition reads_back :: "(pyfloat \<Rightarrow> string) \<Rightarrow> (string \<Rightarrow> pyfloat option) \<Rightarrow> json \<Rightarrow> bool" where
  "reads_back repr pf v \<longleftrightarrow>
     (\<forall>n r. number_ends r \<longrightarrow> 2 * length (json_dumps repr v @ r) < n \<longrightarrow>
        scan_value pf n (json_dumps repr v @ r) = Some (v, r))"

lemma reads_backI:
  assumes "\<And>m r. number_ends r \<Longrightarrow> scan_value pf (Suc m) (json_dumps repr v @ r) = Some (v, r)"
  shows "reads_back repr pf v"
  unfolding reads_back_def
proof (intro allI impI)
  fix n r
  assume "number_ends r" "2 * length (json_dumps repr v @ r) < n"
  then show "scan_value pf n (json_dumps repr v @ r) = Some (v, r)"
    using assms [of r "n - 1"] by simp
qed

lemma reads_backD:
  "reads_back repr pf v \<Longrightarrow> number_ends r \<Longrightarrow> 2 * (length (json_dumps repr v) + length r) < n \<Longrightarrow>
   scan_value pf n (json_dumps repr v @ r) = Some (v, r)"
  by (simp add: reads_back_def)

lemma scan_items_back:
  assumes "repr_faithful repr pf" "list_all (reads_back repr pf) (v # vs)"
    and "Suc (2 * length (sep_by '', '' (map (json_dumps repr) (v # vs)) @ CHR '']'' # r)) < n"
  shows "scan_items pf n (sep_by '', '' (map (json_dumps repr) (v # vs)) @ CHR '']'' # r) = Some (v # vs, r)"
  using assms(2,3)
proof (induction vs arbitrary: v n)
  case Nil
  then obtain m where n: "n = Suc m" by (cases n) auto
  have "scan_value pf m (json_dumps repr v @ CHR '']'' # r) = Some (v, CHR '']'' # r)"
    using Nil by (intro reads_backD) (simp_all add: n)
  then show ?case by (simp add: n skip_space_def json_space_def)
next
  case (Cons w ws)
  then obtain m where n: "n = Suc m" by (cases n) auto
  let ?rest = "sep_by '', '' (map (json_dumps repr) (w # ws)) @ CHR '']'' # r"
  have "scan_value pf m (json_dumps repr v @ CHR '','' # CHR '' '' # ?rest) =
      Some (v, CHR '','' # CHR '' '' # ?rest)"
    using Cons.prems by (intro reads_backD) (simp_all add: n sep_by_Cons)
  moreover have "skip_space ?rest = ?rest"
    using skip_space_dumps [OF assms(1)] by (simp add: sep_by_Cons)
  moreover have "scan_items pf m ?rest = Some (w # ws, r)"
    using Cons.prems by (intro Cons.IH) (simp_all add: n)
  ultimately show ?case by (simp add: n skip_space_def json_space_def sep_by_Cons)
qed

abbreviation member_text :: "(pyfloat \<Rightarrow> string) \<Rightarrow> string \<times> json \<Rightarrow> string" where
  "member_text repr \<equiv> \<lambda>(k, v). json_quote k @ '': '' @ json_dumps repr v"

lemma scan_key_member:
  "repr_faithful repr pf \<Longrightarrow> scan_key (member_text repr (k, v) @ s) = Some (k, json_dumps repr v @ s)"
  by (simp add: scan_key_def json_quote_def scan_string_quoted skip_space_dumps skip_space_id json_space_def)

lemma dict_set_new: "k \<notin> fst ` set d \<Longrightarrow> dict_set k v d = d @ [(k, v)]"
  by (induction d) (auto simp: dict_set_def)

lemma scan_members_back:
  assumes "repr_faithful repr pf" "list_all (\<lambda>(k, v). reads_back repr pf v) (kv # d)"
    and "dict_ok (d0 @ kv # d)"
    and "Suc (2 * length (sep_by '', '' (map (member_text repr) (kv # d)) @ CHR ''}'' # r)) < n"
  shows "scan_members pf n d0 (sep_by '', '' (map (member_text repr) (kv # d)) @ CHR ''}'' # r) =
    Some (d0 @ kv # d, r)"
  using assms(2-4)
proof (induction d arbitrary: kv d0 n)
  case Nil
  obtain k v where kv: "kv = (k, v)" by fastforce
  obtain m where n: "n = Suc m" using Nil by (cases n) auto
  have "scan_value pf m (json_dumps repr v @ CHR ''}'' # r) = Some (v, CHR ''}'' # r)"
    using Nil by (intro reads_backD) (simp_all add: n kv)
  then show ?case
    using scan_key_member [OF assms(1), of k v "CHR ''}'' # r"] Nil.prems(2)
    by (simp add: n kv skip_space_id json_space_def dict_set_new dict_ok_def)
next
  case (Cons lw d)
  obtain k v where kv: "kv = (k, v)" by fastforce
  obtain l w where lw: "lw = (l, w)" by fastforce
  obtain m where n: "n = Suc m" using Cons by (cases n) auto
  let ?rest = "sep_by '', '' (map (member_text repr) (lw # d)) @ CHR ''}'' # r"
  have "scan_value pf m (json_dumps repr v @ CHR '','' # CHR '' '' # ?rest) =
      Some (v, CHR '','' # CHR '' '' # ?rest)"
    using Cons.prems by (intro reads_backD) (simp_all add: n kv lw sep_by_Cons)
  moreover have "skip_space ?rest = ?rest"
    by (simp add: sep_by_Cons lw json_quote_def skip_space_id json_space_def)
  moreover have "scan_members pf m (d0 @ [kv]) ?rest = Some ((d0 @ [kv]) @ lw # d, r)"
    using Cons.prems by (intro Cons.IH) (simp_all add: n)
  ultimately show ?case
    using scan_key_member [OF assms(1), of k v "CHR '','' # CHR '' '' # ?rest"] Cons.prems(2)
    by (simp add: n kv skip_space_id json_space_def dict_set_new dict_ok_def sep_by_Cons)
qed

lemma scan_value_back:
  assumes "repr_faithful repr pf"
  shows "json_ok v \<Longrightarrow> reads_back repr pf v"
proof (induction v)
  case (JList vs)
  show ?case
    unfolding reads_back_def
  proof (intro allI impI)
    fix n r
    assume len: "2 * length (json_dumps repr (JList vs) @ r) < n"
    obtain m where n: "n = Suc m" using len by (cases n) auto
    show "scan_value pf n (json_dumps repr (JList vs) @ r) = Some (JList vs, r)"
    proof (cases vs)
      case Nil
      then show ?thesis by (simp add: n skip_space_id json_space_def)
    next
      case (Cons v ws)
      let ?t = "sep_by '', '' (map (json_dumps repr) vs) @ CHR '']'' # r"
      have "scan_items pf m ?t = Some (vs, r)"
        using scan_items_back [OF assms, of v ws r m] JList len
        by (simp add: n Cons list_all_iff)
      moreover obtain c t where c: "json_dumps repr v = c # t" "\<not> json_space c" "c \<noteq> CHR '']''"
        by (rule dumps_head [OF assms, of v]) auto
      moreover obtain ts where "?t = c # ts"
        using c(1) by (simp add: Cons sep_by_Cons)
      ultimately show ?thesis using c by (simp add: n skip_space_id)
    qed
  qed
next
  case (JObj d)
  show ?case
    unfolding reads_back_def
  proof (intro allI impI)
    fix n r
    assume len: "2 * length (json_dumps repr (JObj d) @ r) < n"
    obtain m where n: "n = Suc m" using len by (cases n) auto
    show "scan_value pf n (json_dumps repr (JObj d) @ r) = Some (JObj d, r)"
    proof (cases d)
      case Nil
      then show ?thesis by (simp add: n skip_space_id json_space_def)
    next
      case (Cons kv d')
      let ?t = "sep_by '', '' (map (member_text repr) d) @ CHR ''}'' # r"
      have "list_all (\<lambda>(k, v). reads_back repr pf v) d"
        using JObj by (fastforce simp: list_all_iff)
      then have "scan_members pf m [] ?t = Some (d, r)"
        using scan_members_back [OF assms, of kv d' "[]" r m] JObj len
        by (simp add: n Cons)
      moreover obtain ts where "?t = quote # ts"
        by (cases kv) (simp add: Cons sep_by_Cons json_quote_def)
      ultimately show ?thesis by (simp add: n skip_space_id json_space_def)
    qed
  qed
next
  case (JStr s)
  show ?case
    by (rule reads_backI) (simp add: json_quote_def scan_string_quoted)
next
  case (JInt i)
  show ?case
    by (rule reads_backI) (simp add: scan_value_int del: scan_value.simps)
next
  case (JFloat x)
  show ?case
    by (rule reads_backI) (simp add: scan_value_float [OF assms] del: scan_value.simps)
next
  case JNull
  show ?case
    by (rule reads_backI) (simp add: scan_atom_def literal_def)
next
  case (JBool b)
  show ?case
    by (rule reads_backI) (simp add: scan_atom_def literal_def)
qed

text \<open>The round trip: \<open>loads (dumps v) = v\<close>.\<close>

lemma loads_dumps:
  assumes "repr_faithful repr pf" "json_ok v"
  shows "json_loads pf (json_dumps repr v) = Some v"
proof -
  have "scan_value pf (Suc (2 * length (json_dumps repr v))) (json_dumps repr v @ []) = Some (v, [])"
    using scan_value_back [OF assms] by (rule reads_backD) simp_all
  moreover have "skip_space (json_dumps repr v) = json_dumps repr v"
    using skip_space_dumps [OF assms(1), of v "[]"] by simp
  ultimately show ?thesis by (simp add: json_loads_def skip_space_def del: scan_value.simps)
qed

section \<open>What is written is one line of printable text\<close>

definition printable :: "char \<Rightarrow> bool" where
  "printable c \<longleftrightarrow> (let n = of_char c :: nat in 32 \<le> n \<and> n \<le> 126)"

lemma printable_hex: "n < 16 \<Longrightarrow> printable (hex_digit n)"
  by (simp add: printable_def hex_digit_def)

lemma printable_escape: "list_all printable (json_escape c)"
  using printable_hex [OF of_char_div_16, of c] printable_hex [of "of_char c mod 16"]
  by (simp add: json_escape_def Let_def) (simp add: printable_def)

lemma printable_quote: "list_all printable (json_quote s)"
  using printable_escape by (simp add: json_quote_def list_all_iff) (simp add: printable_def)

lemma printable_digit: "is_digit c \<Longrightarrow> printable c"
  by (simp add: printable_def is_digit_def Let_def)

lemma printable_takeWhile: "c \<in> set (takeWhile is_digit s) \<Longrightarrow> printable c"
  by (auto dest: set_takeWhileD printable_digit)

lemma printable_number:
  assumes "scan_number t = Some ((i, fe), [])"
  shows "list_all printable t"
proof -
  obtain t1 f t2 e where
    parts: "scan_int t = Some (i, t1)" "scan_frac t1 = (f, t2)" "scan_exp t2 = (e, [])" "fe = f @ e"
    using assms by (auto simp: scan_number_def split: option.splits prod.splits)
  have "list_all printable s" if "scan_nat t = Some (s, r)" for t s r
    using that by (auto simp: scan_nat_def list_all_iff printable_takeWhile printable_digit
        split: list.splits if_splits dest: set_takeWhileD) (auto simp: printable_def)
  then have "list_all printable i"
    using parts(1) by (auto simp: scan_int_def split: list.splits if_splits) (auto simp: printable_def)
  moreover have "list_all printable f"
    using parts(2) by (auto simp: scan_frac_def list_all_iff printable_takeWhile split: list.splits if_splits)
      (auto simp: printable_def)
  moreover have "list_all printable e"
    using parts(3) by (auto simp: scan_exp_def list_all_iff printable_takeWhile Let_def
        split: list.splits if_splits) (auto simp: printable_def is_digit_def Let_def)
  moreover have "i @ fe = t"
    by (rule scan_number_append(2) [OF assms number_ends_after(4)])
  ultimately show ?thesis using parts(4) by (metis list_all_append)
qed

lemma printable_sep_by: "list_all (list_all printable) xs \<Longrightarrow> list_all printable (sep_by '', '' xs)"
  by (induction xs) (simp_all add: sep_by_Cons, simp add: printable_def)

lemma printable_dumps:
  assumes "repr_faithful repr pf"
  shows "list_all printable (json_dumps repr v)"
proof (induction v)
  case (JInt i)
  show ?case
    using printable_number [of "py_str_int i" "py_str_int i" "[]"] scan_number_int [of "[]" i] by simp
next
  case (JFloat x)
  then show ?case
    using assms by (auto elim: repr_faithfulD [of repr pf x] intro: printable_number)
next
  case (JList vs)
  then have "list_all printable (sep_by '', '' (map (json_dumps repr) vs))"
    by (intro printable_sep_by) (simp add: list_all_iff)
  then show ?case by simp (simp add: printable_def)
next
  case (JObj d)
  have "list_all printable (member_text repr (k, v))" if "(k, v) \<in> set d" for k v
    using JObj that printable_quote [of k] by (fastforce simp: printable_def)
  then have "list_all printable (sep_by '', '' (map (member_text repr) d))"
    by (intro printable_sep_by) (auto simp: list_all_iff)
  then show ?case by simp (simp add: printable_def)
qed (simp_all add: printable_quote, simp_all add: printable_def)

lemma dumps_line: "repr_faithful repr pf \<Longrightarrow> line_text (json_dumps repr v)"
  using printable_dumps [of repr pf v] by (fastforce simp: line_text_def list_all_iff printable_def)

section \<open>The bound on the recursion is enough\<close>

lemma scan_string_shorter: "scan_string s = Some (t, r) \<Longrightarrow> length r < length s"
  by (induction s arbitrary: t rule: scan_string.induct)
    (fastforce split: if_splits list.splits option.splits)+

lemma skip_space_shorter: "length (skip_space s) \<le> length s"
  by (simp add: skip_space_def length_dropWhile_le)

lemma scan_nat_shorter: "scan_nat s = Some (i, r) \<Longrightarrow> length r < length s"
  by (auto simp: scan_nat_def le_imp_less_Suc length_dropWhile_le split: list.splits if_splits)

lemma scan_number_shorter:
  assumes "scan_number s = Some (p, r)"
  shows "length r < length s"
proof -
  obtain i r1 f r2 e where parts: "scan_int s = Some (i, r1)" "scan_frac r1 = (f, r2)" "scan_exp r2 = (e, r)"
    using assms by (auto simp: scan_number_def split: option.splits prod.splits)
  have "length r1 < length s"
    using parts(1) by (auto simp: scan_int_def dest!: scan_nat_shorter split: list.splits if_splits)
  moreover have "length r2 \<le> length r1"
    using parts(2) by (auto simp: scan_frac_def le_SucI length_dropWhile_le split: list.splits if_splits)
  moreover have "length r \<le> length r2"
    using parts(3) by (auto simp: scan_exp_def Let_def le_SucI length_dropWhile_le split: list.splits if_splits)
  ultimately show ?thesis by simp
qed

lemma literal_shorter: "literal t x s = Some (v, r) \<Longrightarrow> t \<noteq> [] \<Longrightarrow> length r < length s"
  by (cases s) (auto simp: literal_def split: if_splits)

lemma scan_atom_shorter: "scan_atom pf s = Some (v, r) \<Longrightarrow> length r < length s"
  by (auto simp: scan_atom_def Let_def dest!: literal_shorter scan_number_shorter
      split: list.splits if_splits option.splits)

lemma skip_space_rest: "skip_space s = c # r \<Longrightarrow> length r < length s"
  using skip_space_shorter [of s] by simp

lemma scan_key_shorter: "scan_key s = Some (k, r) \<Longrightarrow> length r < length s"
  by (auto simp: scan_key_def dest!: scan_string_shorter skip_space_rest
      split: list.splits if_splits option.splits intro!: le_less_trans [OF skip_space_shorter])

lemma scan_shorter:
  "scan_value pf n s = Some (v, r) \<Longrightarrow> length r < length s"
  "scan_items pf n s = Some (vs, r) \<Longrightarrow> length r < length s"
  "scan_members pf n d s = Some (d', r) \<Longrightarrow> length r < length s"
proof (induction pf n s and pf n s and pf n d s arbitrary: v r and vs r and d' r
    rule: scan_value_scan_items_scan_members.induct)
  case (2 pf n s)
  show ?case
    using 2 by (auto split: list.splits if_splits dest!: scan_string_shorter skip_space_rest scan_atom_shorter)
      fastforce+
next
  case (4 pf n s)
  obtain v q where v: "scan_value pf n s = Some (v, q)"
    using 4 by (auto split: option.splits)
  then have q: "length q < length s" using 4 by blast
  obtain c q' where c: "skip_space q = c # q'" "length q' < length q"
    using 4 v skip_space_rest [of q] by (auto split: list.splits)
  have "length r < length (skip_space q')" if "scan_items pf n (skip_space q') = Some (ws, r)" "c = CHR '',''" for ws
    using 4 v c that by force
  then show ?case
    using 4 v c q skip_space_shorter [of q'] by (fastforce split: if_splits)
next
  case (6 pf n d s)
  obtain k p v q where v: "scan_key s = Some (k, p)" "scan_value pf n p = Some (v, q)"
    using 6 by (auto split: option.splits)
  then have q: "length q < length s" using 6 scan_key_shorter [of s k p] by fastforce
  obtain c q' where c: "skip_space q = c # q'" "length q' < length q"
    using 6 v skip_space_rest [of q] by (auto split: list.splits)
  have "length r < length (skip_space q')"
    if "scan_members pf n (dict_set k v d) (skip_space q') = Some (d', r)" "c = CHR '',''"
    using 6 v c that by force
  then show ?case
    using 6 v c q skip_space_shorter [of q'] by (fastforce split: if_splits)
qed simp_all

lemma scan_enough:
  "2 * length s < n \<Longrightarrow> scan_value pf (Suc n) s = scan_value pf n s"
  "Suc (2 * length s) < n \<Longrightarrow> scan_items pf (Suc n) s = scan_items pf n s"
  "Suc (2 * length s) < n \<Longrightarrow> scan_members pf (Suc n) d s = scan_members pf n d s"
proof (induction pf n s and pf n s and pf n d s rule: scan_value_scan_items_scan_members.induct)
  case (2 pf n s)
  show ?case
  proof (cases s)
    case (Cons c r)
    have short: "Suc (2 * length (c' # r')) < n" if "skip_space r = c' # r'" for c' r'
      using 2 Cons that skip_space_shorter [of r] by simp
    have "scan_members pf (Suc n) [] (c' # r') = scan_members pf n [] (c' # r')"
      if "skip_space r = c' # r'" "c = CHR ''{''" "c' \<noteq> CHR ''}''" for c' r'
      by (rule "2.IH"(1) [OF Cons _ that(2,1,3) short]) (use that in simp_all)
    moreover have "scan_items pf (Suc n) (c' # r') = scan_items pf n (c' # r')"
      if "skip_space r = c' # r'" "c = CHR ''[''" "c' \<noteq> CHR '']''" for c' r'
      by (rule "2.IH"(2) [OF Cons _ _ that(2,1,3) short]) (use that in simp_all)
    ultimately show ?thesis
      unfolding scan_value.simps(2) [of pf "Suc n" s] scan_value.simps(2) [of pf n s] Cons
      by (cases "skip_space r") (simp_all del: scan_items.simps scan_members.simps)
  qed simp
next
  case (4 pf n s)
  have v: "scan_value pf (Suc n) s = scan_value pf n s" using 4 by simp
  have "scan_items pf (Suc n) (skip_space r') = scan_items pf n (skip_space r')"
    if "scan_value pf n s = Some (v, r)" "skip_space r = CHR '','' # r'" for v r r'
    using that 4 scan_shorter(1) [OF that(1)] skip_space_rest [OF that(2)] skip_space_shorter [of r'] by force
  note items = this
  show ?case
  proof (cases "scan_value pf n s")
    case (Some p)
    obtain w r where p: "p = (w, r)" by fastforce
    show ?thesis
    proof (cases "skip_space r")
      case (Cons c r')
      then show ?thesis
        unfolding scan_items.simps(2) [of pf "Suc n" s] scan_items.simps(2) [of pf n s] v Some p
        using items [of w r r'] Some p by (simp del: scan_items.simps)
    qed (simp add: Some p v del: scan_value.simps)
  qed (simp add: v del: scan_value.simps)
next
  case (6 pf n d s)
  have v: "scan_value pf (Suc n) r = scan_value pf n r" if "scan_key s = Some (k, r)" for k r
    using that 6 scan_key_shorter [OF that] by force
  have "scan_members pf (Suc n) (dict_set k v d) (skip_space r') = scan_members pf n (dict_set k v d) (skip_space r')"
    if "scan_key s = Some (k, p)" "scan_value pf n p = Some (v, r)" "skip_space r = CHR '','' # r'" for k p v r r'
    using that 6 scan_key_shorter [OF that(1)] scan_shorter(1) [OF that(2)] skip_space_rest [OF that(3)]
      skip_space_shorter [of r'] by force
  note members = this
  show ?case
  proof (cases "scan_key s")
    case (Some kp)
    obtain k p where kp: "kp = (k, p)" by fastforce
    have v: "scan_value pf (Suc n) p = scan_value pf n p" using v Some kp by blast
    show ?thesis
    proof (cases "scan_value pf n p")
      case res: (Some wr)
      obtain w r where wr: "wr = (w, r)" by fastforce
      show ?thesis
      proof (cases "skip_space r")
        case (Cons c r')
        then show ?thesis
          unfolding scan_members.simps(2) [of pf "Suc n" d s] scan_members.simps(2) [of pf n d s] Some kp
          using members [of k p w r r'] Some kp res wr v
          by (simp del: scan_members.simps scan_value.simps)
      qed (simp add: Some kp v res wr del: scan_value.simps)
    qed (simp add: Some kp v del: scan_value.simps)
  qed simp
qed simp_all

text \<open>So a larger bound gives the same answer: a refusal is never for lack of recursion.\<close>

lemma scan_value_enough:
  assumes "2 * length s < n"
  shows "scan_value pf (n + k) s = scan_value pf n s"
  using assms by (induction k) (simp_all add: scan_enough(1) del: scan_value.simps)

section \<open>What is read is a Python value\<close>

lemma literal_value: "literal t x s = Some (v, r) \<Longrightarrow> v = x"
  by (auto simp: literal_def split: if_splits)

lemma scan_atom_ok: "scan_atom pf s = Some (v, r) \<Longrightarrow> json_ok v"
  by (auto simp: scan_atom_def Let_def number_value_def dest!: literal_value
      split: list.splits if_splits option.splits)

lemma members_set: "list_all P d \<Longrightarrow> P (k, v) \<Longrightarrow> list_all P (dict_set k v d)"
  by (induction d) (auto simp: dict_set_def)

lemma scan_ok:
  "scan_value pf n s = Some (v, r) \<Longrightarrow> json_ok v"
  "scan_items pf n s = Some (vs, r) \<Longrightarrow> list_all json_ok vs"
  "scan_members pf n d s = Some (d', r) \<Longrightarrow> json_ok (JObj d) \<Longrightarrow> json_ok (JObj d')"
proof (induction pf n s and pf n s and pf n d s arbitrary: v r and vs r and d' r
    rule: scan_value_scan_items_scan_members.induct)
  case (2 pf n s)
  then show ?case
    by (auto split: list.splits if_splits dest: scan_atom_ok)
next
  case (4 pf n s)
  then show ?case
    by (auto split: option.splits list.splits if_splits)
next
  case (6 pf n d s)
  obtain k p v q where v: "scan_key s = Some (k, p)" "scan_value pf n p = Some (v, q)"
    using 6 by (auto split: option.splits)
  then have "json_ok (JObj (dict_set k v d))"
    using 6 by (auto intro!: members_set)
  then show ?case
    using 6 v by (auto split: list.splits if_splits)
qed simp_all

lemma loads_ok: "json_loads pf s = Some v \<Longrightarrow> json_ok v"
  by (auto simp: json_loads_def simp del: scan_value.simps dest: scan_ok(1) split: option.splits if_splits)

text \<open>The text of a container is only opened where it is scanned.\<close>

lemma dumps_braced: "\<exists>m. json_dumps repr (JObj d) = CHR ''{'' # m @ ''}''"
  by simp

declare json_dumps.simps(6,7) [simp del]
declare scan_value.simps(2) [simp del] scan_items.simps(2) [simp del] scan_members.simps(2) [simp del]

section \<open>Texts of floats, for examples\<close>

text \<open>A number is written as its place in an enumeration, with a fraction.\<close>

definition demo_repr :: "pyfloat \<Rightarrow> string" where
  "demo_repr x = py_str_nat (to_nat x) @ ''.0''"

definition demo_float :: "string \<Rightarrow> pyfloat option" where
  "demo_float s = Some (from_nat (digits_value (takeWhile is_digit s)))"

lemma demo_repr_faithful: "repr_faithful demo_repr demo_float"
  unfolding repr_faithful_def
proof
  fix x :: pyfloat
  obtain c t where c: "py_str_nat (to_nat x) = c # t" "is_digit c" "list_all is_digit t" "c \<noteq> CHR ''-''"
    "c \<noteq> CHR ''0'' \<or> t = []"
    by (rule py_str_nat_Cons [of "to_nat x"])
  have ds: "takeWhile is_digit (py_str_nat (to_nat x) @ ''.0'') = py_str_nat (to_nat x)"
    "dropWhile is_digit (py_str_nat (to_nat x) @ ''.0'') = ''.0''"
    using py_str_nat_digits [of "to_nat x"] by (simp_all add: take_digits is_digit_def)
  have "scan_nat (py_str_nat (to_nat x) @ ''.0'') = Some (py_str_nat (to_nat x), ''.0'')"
    using ds c by (auto simp: scan_nat_def)
  moreover note c
  ultimately have "scan_int (demo_repr x) = Some (py_str_nat (to_nat x), ''.0'')"
    by (simp add: scan_int_def demo_repr_def)
  moreover have "scan_frac ''.0'' = (''.0'', [])"
    by (simp add: scan_frac_def is_digit_def)
  ultimately have "scan_number (demo_repr x) = Some ((py_str_nat (to_nat x), ''.0''), [])"
    by (simp add: scan_number_def scan_exp_def)
  moreover have "demo_float (demo_repr x) = Some x"
    using ds by (simp add: demo_float_def demo_repr_def digits_value_str)
  ultimately show "demo_float (demo_repr x) = Some x \<and>
      (case scan_number (demo_repr x) of Some ((i, fe), r) \<Rightarrow> fe \<noteq> [] \<and> r = [] | None \<Rightarrow> False)"
    by simp
qed

abbreviation demo_dumps :: "json \<Rightarrow> string" where "demo_dumps \<equiv> json_dumps demo_repr"
abbreviation demo_loads :: "string \<Rightarrow> json option" where "demo_loads \<equiv> json_loads demo_float"

end
