(* ===== verification/Sink.thy ===== *)
theory Sink
  imports Models PyQueue PyJson
begin

text \<open>
  \<open>core/sink.py\<close>: the single writer of the result file, and \<open>replay\<close>, which rebuilds the counts
  from that file.  Workers call \<open>submit\<close>, which puts into an unbounded queue and never suspends;
  one background task takes items out, writes one line each and syncs the file every 100 rows or
  2 seconds.  \<open>dumps\<close> is \<open>json.dumps\<close>, \<open>loads\<close> is \<open>json.loads\<close> (\<open>None\<close> for a
  \<open>JSONDecodeError\<close>), \<open>py_repr\<close> is the text of floats and containers.
\<close>

definition flush_every_rows :: nat where "flush_every_rows = 100"
definition flush_every_seconds :: pyfloat where "flush_every_seconds = 2"

definition result_line :: "row_result \<Rightarrow> json" where
  "result_line r =
     JObj [(''item_id'', JStr (rr_item_id r)),
           (''status'', JStr ''success''),
           (''response_text'', JStr (rr_response_text r)),
           (''input_tokens'', JInt (ud_input_tokens (rr_usage r))),
           (''output_tokens'', JInt (ud_output_tokens (rr_usage r))),
           (''latency_s'', JFloat (rr_latency_s r)),
           (''attempt'', JInt (int (rr_attempt r)))]"

definition error_line :: "row_error \<Rightarrow> json" where
  "error_line e =
     JObj [(''item_id'', JStr (re_item_id e)),
           (''status'', JStr ''error''),
           (''failure_class'', JStr (fc_value (re_failure_class e))),
           (''message'', JStr (re_message e)),
           (''attempt'', JInt (int (re_attempt e))),
           (''http_status'', json_opt_int (re_http_status e))]"

fun item_line :: "sink_item \<Rightarrow> json" where
  "item_line (S_result r) = result_line r"
| "item_line (S_error e) = error_line e"

section \<open>The writer\<close>

text \<open>\<open>sk_prior\<close> is what the file held when it was opened for appending, \<open>sk_lines\<close> the lines written
  since, \<open>sk_durable\<close> how many of them have been flushed and synced.\<close>

record result_sink =
  sk_queue :: "sink_item option pyqueue"
  sk_task_alive :: bool
  sk_open :: bool
  sk_prior :: string
  sk_lines :: "string list"
  sk_durable :: nat
  sk_unflushed :: nat
  sk_last_flush :: pyfloat

definition sink_start :: "string \<Rightarrow> pyfloat \<Rightarrow> result_sink" where
  "sink_start prior now =
     \<lparr>sk_queue = new_queue 0, sk_task_alive = True, sk_open = True, sk_prior = prior,
      sk_lines = [], sk_durable = 0, sk_unflushed = 0, sk_last_flush = now\<rparr>"

definition sink_put :: "sink_item option \<Rightarrow> result_sink \<Rightarrow> result_sink" where
  "sink_put x s = (case q_put x (sk_queue s) of None \<Rightarrow> s | Some q \<Rightarrow> s\<lparr>sk_queue := q\<rparr>)"

definition sink_submit :: "sink_item \<Rightarrow> result_sink \<Rightarrow> result_sink" where
  "sink_submit x s = sink_put (Some x) s"

definition sink_flush :: "result_sink \<Rightarrow> result_sink" where
  "sink_flush s = s\<lparr>sk_durable := length (sk_lines s)\<rparr>"

definition sink_flush_if_due :: "pyfloat \<Rightarrow> result_sink \<Rightarrow> result_sink" where
  "sink_flush_if_due now s =
     (if flush_every_rows \<le> sk_unflushed s \<or>
         (0 < sk_unflushed s \<and> flush_every_seconds \<le> now - sk_last_flush s)
      then (sink_flush s)\<lparr>sk_unflushed := 0, sk_last_flush := now\<rparr>
      else s)"

text \<open>One turn of the writer's loop, when the queue has an item (\<open>sink_turn\<close>) and when the wait for
  one times out (\<open>sink_timeout\<close>); \<open>None\<close> when that turn cannot happen.\<close>

definition sink_turn :: "(json \<Rightarrow> string) \<Rightarrow> pyfloat \<Rightarrow> result_sink \<Rightarrow> result_sink option" where
  "sink_turn dumps now s =
     (if \<not> sk_task_alive s then None
      else case q_get (sk_queue s) of
        None \<Rightarrow> None
      | Some (None, q) \<Rightarrow> Some ((sink_flush s)\<lparr>sk_queue := q, sk_task_alive := False\<rparr>)
      | Some (Some x, q) \<Rightarrow>
          Some (sink_flush_if_due now
            (s\<lparr>sk_queue := q, sk_lines := sk_lines s @ [dumps (item_line x)],
               sk_unflushed := Suc (sk_unflushed s)\<rparr>)))"

definition sink_timeout :: "pyfloat \<Rightarrow> result_sink \<Rightarrow> result_sink option" where
  "sink_timeout now s =
     (if sk_task_alive s \<and> q_get (sk_queue s) = None then Some (sink_flush_if_due now s) else None)"

text \<open>\<open>close\<close> puts the sentinel, waits for the task and then syncs and closes the file.\<close>

definition sink_close_begin :: "result_sink \<Rightarrow> result_sink" where
  "sink_close_begin s = sink_put None s"

definition sink_close_end :: "result_sink \<Rightarrow> result_sink option" where
  "sink_close_end s =
     (if sk_task_alive s then None else Some ((sink_flush s)\<lparr>sk_open := False\<rparr>))"

definition sink_file :: "result_sink \<Rightarrow> string" where
  "sink_file s = sk_prior s @ lines_file (sk_lines s)"

text \<open>Everything submitted so far that has not been written yet.\<close>

definition sink_waiting :: "result_sink \<Rightarrow> sink_item list" where
  "sink_waiting s = List.map_filter id (q_items (sk_queue s))"

section \<open>Replay\<close>

record replay_state =
  rs_succeeded :: int
  rs_failed :: int
  rs_seen_item_ids :: "string set"

definition init_replay :: replay_state where
  "init_replay = \<lparr>rs_succeeded = 0, rs_failed = 0, rs_seen_item_ids = {}\<rparr>"

definition replay_row :: "(json \<Rightarrow> string) \<Rightarrow> json pydict \<Rightarrow> replay_state \<Rightarrow> replay_state" where
  "replay_row py_repr row st =
     (let st = st\<lparr>rs_seen_item_ids :=
                insert (py_str py_repr (dict_get_or row ''item_id'' JNull)) (rs_seen_item_ids st)\<rparr> in
      if dict_get row ''status'' = Some (JStr ''success'')
      then st\<lparr>rs_succeeded := rs_succeeded st + 1\<rparr>
      else st\<lparr>rs_failed := rs_failed st + 1\<rparr>)"

fun replay_lines ::
    "(json \<Rightarrow> string) \<Rightarrow> (string \<Rightarrow> json option) \<Rightarrow> string list \<Rightarrow> replay_state
      \<Rightarrow> py_exn + replay_state" where
  "replay_lines py_repr loads [] st = Inr st"
| "replay_lines py_repr loads (raw # lines) st =
     (let line = py_strip raw in
      if line = [] then replay_lines py_repr loads lines st
      else case loads line of
        None \<Rightarrow> replay_lines py_repr loads lines st
      | Some (JObj row) \<Rightarrow> replay_lines py_repr loads lines (replay_row py_repr row st)
      | Some _ \<Rightarrow> Inl Attribute_error)"

definition replay ::
    "(json \<Rightarrow> string) \<Rightarrow> (string \<Rightarrow> json option) \<Rightarrow> string option \<Rightarrow> py_exn + replay_state" where
  "replay py_repr loads file =
     (case file of None \<Rightarrow> Inr init_replay
      | Some text \<Rightarrow> replay_lines py_repr loads (file_lines text) init_replay)"

section \<open>Histories of the sink\<close>

datatype sink_event = Sk_submit sink_item | Sk_close | Sk_turn pyfloat | Sk_timeout pyfloat

fun sink_step :: "(json \<Rightarrow> string) \<Rightarrow> result_sink \<Rightarrow> sink_event \<Rightarrow> result_sink" where
  "sink_step dumps s (Sk_submit x) = sink_submit x s"
| "sink_step dumps s Sk_close = sink_close_begin s"
| "sink_step dumps s (Sk_turn now) = (case sink_turn dumps now s of None \<Rightarrow> s | Some s' \<Rightarrow> s')"
| "sink_step dumps s (Sk_timeout now) = (case sink_timeout now s of None \<Rightarrow> s | Some s' \<Rightarrow> s')"

fun sink_run :: "(json \<Rightarrow> string) \<Rightarrow> result_sink \<Rightarrow> sink_event list \<Rightarrow> result_sink" where
  "sink_run dumps s [] = s"
| "sink_run dumps s (e # es) = sink_run dumps (sink_step dumps s e) es"

fun sink_submits :: "sink_event list \<Rightarrow> sink_item list" where
  "sink_submits [] = []"
| "sink_submits (Sk_submit x # es) = x # sink_submits es"
| "sink_submits (_ # es) = sink_submits es"

definition sink_inv :: "result_sink \<Rightarrow> bool" where
  "sink_inv s \<longleftrightarrow> q_maxsize (sk_queue s) = 0 \<and> sk_unflushed s < flush_every_rows \<and>
     sk_durable s \<le> length (sk_lines s) \<and>
     (sk_task_alive s \<longrightarrow> sk_durable s + sk_unflushed s = length (sk_lines s)) \<and>
     (\<not> sk_task_alive s \<longrightarrow> sk_durable s = length (sk_lines s))"

lemma sink_inv_start [simp]: "sink_inv (sink_start prior now)"
  by (simp add: sink_inv_def sink_start_def new_queue_def flush_every_rows_def)

lemma sink_put_unbounded:
  "q_maxsize (sk_queue s) = 0 \<Longrightarrow> sink_put x s = s\<lparr>sk_queue := (sk_queue s)
     \<lparr>q_items := q_items (sk_queue s) @ [x], q_unfinished := Suc (q_unfinished (sk_queue s))\<rparr>\<rparr>"
  by (simp add: sink_put_def q_put_def q_full_def)

lemma sink_put_frame [frame]:
  "sk_lines (sink_put x s) = sk_lines s" "sk_durable (sink_put x s) = sk_durable s"
  "sk_unflushed (sink_put x s) = sk_unflushed s" "sk_prior (sink_put x s) = sk_prior s"
  "sk_task_alive (sink_put x s) = sk_task_alive s"
  "sk_last_flush (sink_put x s) = sk_last_flush s"
  "q_maxsize (sk_queue (sink_put x s)) = q_maxsize (sk_queue s)"
  by (auto simp: sink_put_def aq.put_capacity split: option.splits)

lemma sink_put_inv [simp]: "sink_inv (sink_put x s) = sink_inv s"
  by (simp add: sink_inv_def frame)

lemma sink_flush_if_due_frame [frame]:
  "sk_lines (sink_flush_if_due now s) = sk_lines s"
  "sk_queue (sink_flush_if_due now s) = sk_queue s"
  "sk_prior (sink_flush_if_due now s) = sk_prior s"
  "sk_task_alive (sink_flush_if_due now s) = sk_task_alive s"
  by (simp_all add: sink_flush_if_due_def sink_flush_def)

lemma sink_turn_inv: "sink_turn dumps now s = Some s' \<Longrightarrow> sink_inv s \<Longrightarrow> sink_inv s'"
  by (auto simp: sink_turn_def sink_inv_def sink_flush_if_due_def sink_flush_def flush_every_rows_def
      aq.get_capacity split: if_splits option.splits)

lemma sink_timeout_inv: "sink_timeout now s = Some s' \<Longrightarrow> sink_inv s \<Longrightarrow> sink_inv s'"
  by (auto simp: sink_timeout_def sink_inv_def sink_flush_if_due_def sink_flush_def
      flush_every_rows_def split: if_splits)

lemma sink_step_inv: "sink_inv s \<Longrightarrow> sink_inv (sink_step dumps s e)"
  by (cases e) (auto simp: sink_submit_def sink_close_begin_def
      dest: sink_turn_inv sink_timeout_inv split: option.splits)

lemma sink_run_inv: "sink_inv s \<Longrightarrow> sink_inv (sink_run dumps s es)"
  by (induction es arbitrary: s) (simp_all add: sink_step_inv)

text \<open>Every submitted item is either written, in order, or still waiting.\<close>

lemma map_filter_id_append: "List.map_filter id (xs @ ys) = List.map_filter id xs @ List.map_filter id ys"
  by (simp add: List.map_filter_def)

lemma sink_step_order:
  assumes "q_maxsize (sk_queue s) = 0"
  shows "\<exists>w. sk_lines (sink_step dumps s e) = sk_lines s @ map (\<lambda>x. dumps (item_line x)) w \<and>
     sink_waiting s @ sink_submits [e] = w @ sink_waiting (sink_step dumps s e)"
proof (cases e)
  case (Sk_submit x)
  then show ?thesis
    using assms
    by (intro exI [of _ "[]"])
      (simp add: sink_submit_def sink_put_unbounded sink_waiting_def map_filter_id_append
        List.map_filter_def)
next
  case Sk_close
  then show ?thesis
    using assms
    by (intro exI [of _ "[]"])
      (simp add: sink_close_begin_def sink_put_unbounded sink_waiting_def map_filter_id_append
        List.map_filter_def)
next
  case (Sk_turn now)
  show ?thesis
  proof (cases "sink_turn dumps now s")
    case None
    then show ?thesis by (simp add: Sk_turn)
  next
    case (Some s')
    from Some show ?thesis
      by (intro exI [of _ "case q_items (sk_queue s) of Some x # _ \<Rightarrow> [x] | _ \<Rightarrow> []"])
        (auto simp: Sk_turn sink_turn_def sink_waiting_def List.map_filter_def sink_flush_def frame
          q_get_def split: if_splits option.splits list.splits)
  qed
next
  case (Sk_timeout now)
  then show ?thesis
    by (intro exI [of _ "[]"])
      (auto simp: sink_timeout_def sink_waiting_def frame split: option.splits if_splits)
qed

lemma sink_step_maxsize [frame]:
  "q_maxsize (sk_queue (sink_step dumps s e)) = q_maxsize (sk_queue s)"
  by (cases e)
    (auto simp: sink_submit_def sink_close_begin_def sink_turn_def sink_timeout_def frame
      sink_flush_def aq.get_capacity split: option.splits if_splits)

lemma sink_submits_Cons: "sink_submits (e # es) = sink_submits [e] @ sink_submits es"
  by (cases e) simp_all

lemma sink_run_order:
  assumes "q_maxsize (sk_queue s) = 0"
  shows "\<exists>w. sk_lines (sink_run dumps s es) = sk_lines s @ map (\<lambda>x. dumps (item_line x)) w \<and>
     sink_waiting s @ sink_submits es = w @ sink_waiting (sink_run dumps s es)"
  using assms
proof (induction es arbitrary: s)
  case Nil
  then show ?case by simp
next
  case (Cons e es)
  obtain w1 where w1:
    "sk_lines (sink_step dumps s e) = sk_lines s @ map (\<lambda>x. dumps (item_line x)) w1"
    "sink_waiting s @ sink_submits [e] = w1 @ sink_waiting (sink_step dumps s e)"
    using sink_step_order [OF Cons.prems] by blast
  obtain w2 where w2:
    "sk_lines (sink_run dumps (sink_step dumps s e) es) =
       sk_lines (sink_step dumps s e) @ map (\<lambda>x. dumps (item_line x)) w2"
    "sink_waiting (sink_step dumps s e) @ sink_submits es =
       w2 @ sink_waiting (sink_run dumps (sink_step dumps s e) es)"
    using Cons.IH [of "sink_step dumps s e"] Cons.prems by (auto simp: frame)
  have "sink_waiting s @ sink_submits (e # es) = w1 @ sink_waiting (sink_step dumps s e) @ sink_submits es"
    using w1(2) by (metis append.assoc sink_submits_Cons)
  then show ?case
    using w1(1) w2 by (intro exI [of _ "w1 @ w2"]) simp
qed

section \<open>Replaying what was written\<close>

text \<open>What the documented behaviour of the \<open>json\<close> module gives for one document: it reads back as
  itself, and an object's text is one line between braces.\<close>

definition json_text_ok :: "(json \<Rightarrow> string) \<Rightarrow> (string \<Rightarrow> json option) \<Rightarrow> json \<Rightarrow> bool" where
  "json_text_ok dumps loads v \<longleftrightarrow> loads (dumps v) = Some v \<and> line_text (dumps v) \<and>
     (\<exists>m. dumps v = CHR 0x7B # m @ [CHR 0x7D])"

definition count_items :: "sink_item list \<Rightarrow> replay_state" where
  "count_items xs =
     \<lparr>rs_succeeded = int (length (filter is_success_item xs)),
      rs_failed = int (length (filter (\<lambda>x. \<not> is_success_item x) xs)),
      rs_seen_item_ids = set (map sink_item_id xs)\<rparr>"

lemma item_line_obj:
  obtains row where "item_line x = JObj row" "dict_get row ''item_id'' = Some (JStr (sink_item_id x))"
    "dict_get row ''status'' = Some (JStr ''success'') \<longleftrightarrow> is_success_item x"
  by (cases x) (auto simp: result_line_def error_line_def dict_get_def)

lemma replay_lines_items:
  assumes "\<forall>x \<in> set xs. json_text_ok dumps loads (item_line x)"
  shows "replay_lines py_repr loads (map (\<lambda>x. dumps (item_line x) @ [newline]) xs @ rest) st =
    replay_lines py_repr loads rest
      \<lparr>rs_succeeded = rs_succeeded st + rs_succeeded (count_items xs),
       rs_failed = rs_failed st + rs_failed (count_items xs),
       rs_seen_item_ids = rs_seen_item_ids st \<union> rs_seen_item_ids (count_items xs)\<rparr>"
  using assms
proof (induction xs arbitrary: st)
  case Nil
  then show ?case by (cases st) (simp add: count_items_def)
next
  case (Cons x xs)
  obtain row where row: "item_line x = JObj row" "dict_get row ''item_id'' = Some (JStr (sink_item_id x))"
    "dict_get row ''status'' = Some (JStr ''success'') \<longleftrightarrow> is_success_item x"
    by (rule item_line_obj)
  have ok: "loads (dumps (item_line x)) = Some (JObj row)"
    and strip: "py_strip (dumps (item_line x) @ [newline]) = dumps (item_line x)"
    and ne: "dumps (item_line x) \<noteq> []"
    using Cons.prems row(1) by (auto simp: json_text_ok_def intro: strip_braced)
  have "replay_lines py_repr loads (map (\<lambda>x. dumps (item_line x) @ [newline]) (x # xs) @ rest) st =
      replay_lines py_repr loads (map (\<lambda>x. dumps (item_line x) @ [newline]) xs @ rest)
        (replay_row py_repr row st)"
    using ok strip ne by (simp add: Let_def)
  also have "\<dots> = replay_lines py_repr loads rest
      \<lparr>rs_succeeded = rs_succeeded (replay_row py_repr row st) + rs_succeeded (count_items xs),
       rs_failed = rs_failed (replay_row py_repr row st) + rs_failed (count_items xs),
       rs_seen_item_ids = rs_seen_item_ids (replay_row py_repr row st)
         \<union> rs_seen_item_ids (count_items xs)\<rparr>"
    using Cons by simp
  finally show ?case
    using row by (cases "is_success_item x")
      (simp_all add: replay_row_def Let_def dict_get_or_def count_items_def algebra_simps)
qed

lemma replay_written:
  assumes "\<forall>x \<in> set xs. json_text_ok dumps loads (item_line x)"
    and "line_text t" "py_strip t = [] \<or> loads (py_strip t) = None"
  shows "replay py_repr loads (Some (lines_file (map (\<lambda>x. dumps (item_line x)) xs) @ t)) =
    Inr (count_items xs)"
proof -
  have "file_lines (lines_file (map (\<lambda>x. dumps (item_line x)) xs) @ t) =
      map (\<lambda>x. dumps (item_line x) @ [newline]) xs @ (if t = [] then [] else [t])"
    using assms(1,2) file_lines_written [of "map (\<lambda>x. dumps (item_line x)) xs" t]
    by (auto simp: json_text_ok_def)
  then show ?thesis
    using assms(3) replay_lines_items [OF assms(1), of py_repr "if t = [] then [] else [t]" init_replay]
    by (auto simp: replay_def init_replay_def count_items_def Let_def)
qed

text \<open>A row for the examples below.\<close>

definition demo_error :: sink_item where
  "demo_error = S_error \<lparr>re_item_id = ''a'', re_failure_class = FC_INVALID_INPUT, re_message = [],
     re_attempt = 1, re_http_status = Some 400\<rparr>"

section \<open>Closing\<close>

lemma sink_drain:
  assumes "sk_task_alive s" "q_items (sk_queue s) = map Some ws @ [None]"
    and "length ts = Suc (length ws)"
  shows "\<not> sk_task_alive (sink_run dumps s (map Sk_turn ts)) \<and>
    sk_prior (sink_run dumps s (map Sk_turn ts)) = sk_prior s \<and>
    sk_lines (sink_run dumps s (map Sk_turn ts)) = sk_lines s @ map (\<lambda>x. dumps (item_line x)) ws \<and>
    sk_durable (sink_run dumps s (map Sk_turn ts)) = length (sk_lines s) + length ws"
  using assms
proof (induction ws arbitrary: s ts)
  case Nil
  then obtain t where "ts = [t]" by (cases ts) auto
  with Nil show ?case by (simp add: sink_turn_def q_get_def sink_flush_def)
next
  case (Cons w ws)
  then obtain t ts' where ts: "ts = t # ts'" "length ts' = Suc (length ws)" by (cases ts) auto
  define s1 where "s1 = sink_step dumps s (Sk_turn t)"
  have s1: "sk_task_alive s1" "q_items (sk_queue s1) = map Some ws @ [None]"
    "sk_lines s1 = sk_lines s @ [dumps (item_line w)]" "sk_prior s1 = sk_prior s"
    using Cons.prems by (simp_all add: s1_def sink_turn_def q_get_def frame)
  show ?case
    using Cons.IH [OF s1(1,2) ts(2)] s1(3,4)
    by (simp add: ts s1_def [symmetric] del: sink_step.simps)
qed

definition sink_accepting :: "result_sink \<Rightarrow> bool" where
  "sink_accepting s \<longleftrightarrow> sk_task_alive s \<and> q_maxsize (sk_queue s) = 0 \<and> None \<notin> set (q_items (sk_queue s))"

lemma sink_step_accepting:
  "sink_accepting s \<Longrightarrow> e \<noteq> Sk_close \<Longrightarrow> sink_accepting (sink_step dumps s e)"
  by (cases e)
    (auto simp: sink_accepting_def sink_submit_def sink_put_unbounded sink_turn_def sink_timeout_def
      q_get_def frame sink_flush_def split: option.splits list.splits if_splits)

lemma sink_run_accepting:
  "sink_accepting s \<Longrightarrow> Sk_close \<notin> set es \<Longrightarrow> sink_accepting (sink_run dumps s es)"
  by (induction es arbitrary: s) (auto simp: sink_step_accepting)

lemma sink_run_append: "sink_run dumps s (es @ fs) = sink_run dumps (sink_run dumps s es) fs"
  by (induction es arbitrary: s) simp_all

lemma map_Some_waiting: "None \<notin> set xs \<Longrightarrow> map Some (List.map_filter id xs) = xs"
proof (induction xs)
  case (Cons x xs)
  then show ?case by (cases x) (auto simp: List.map_filter_def)
qed (simp add: List.map_filter_def)

lemma sink_history:
  obtains w where "sk_lines (sink_run dumps (sink_start prior t0) es) = map (\<lambda>x. dumps (item_line x)) w"
    "sink_submits es = w @ sink_waiting (sink_run dumps (sink_start prior t0) es)"
    "sk_prior (sink_run dumps (sink_start prior t0) es) = prior"
proof -
  have "q_maxsize (sk_queue (sink_start prior t0)) = 0" "sk_lines (sink_start prior t0) = []"
    "sink_waiting (sink_start prior t0) = []"
    by (simp_all add: sink_start_def new_queue_def sink_waiting_def List.map_filter_def)
  moreover have "sk_prior (sink_run dumps s es) = sk_prior s" for s
  proof (induction es arbitrary: s)
    case (Cons e es)
    then show ?case
      by (cases e) (auto simp: sink_submit_def sink_close_begin_def sink_turn_def sink_timeout_def
          frame sink_flush_def split: option.splits if_splits)
  qed simp
  ultimately show ?thesis
    using that sink_run_order [of "sink_start prior t0" dumps es] by (auto simp: sink_start_def)
qed

section \<open>Properties\<close>

text \<open>Single writer, in order: whatever mix of submissions, writer turns and timeouts happens, the
  lines written are the submitted items in submission order, each once, followed by the items
  still waiting in the queue.\<close>

lemma sink_writes_in_order:
  "\<exists>written. sink_submits es = written @ sink_waiting (sink_run dumps (sink_start prior t0) es) \<and>
     sink_file (sink_run dumps (sink_start prior t0) es) =
       prior @ lines_file (map (\<lambda>x. dumps (item_line x)) written)"
  by (rule sink_history [of dumps prior t0 es]) (auto simp: sink_file_def)

text \<open>C29. Bounded loss: at every point of every history fewer than 100 written rows are not yet synced
  to disk.\<close>

theorem sink_bounded_loss:
  "length (sk_lines (sink_run dumps (sink_start prior t0) es))
     - sk_durable (sink_run dumps (sink_start prior t0) es) < 100"
proof -
  have "sink_inv (sink_run dumps (sink_start prior t0) es)"
    by (simp add: sink_run_inv)
  then show ?thesis
    by (auto simp: sink_inv_def flush_every_rows_def)
qed

text \<open>Time bound on the loss: right after any turn of the live writer at time \<open>now\<close>, rows that are not
  synced imply that less than 2 seconds have passed since the last sync.\<close>

lemma sink_flush_interval:
  assumes "sink_inv s" "sink_turn dumps now s = Some s'"
    and "sk_durable s' < length (sk_lines s')"
  shows "now - sk_last_flush s' < 2"
  using assms
  by (auto simp: sink_turn_def sink_inv_def sink_flush_if_due_def sink_flush_def
      flush_every_seconds_def split: if_splits option.splits)

lemma sink_flush_interval_witness:
  "(1 :: pyfloat) - sk_last_flush (the (sink_turn (\<lambda>_. ''{}'') 1 (sink_submit
     (S_error \<lparr>re_item_id = ''a'', re_failure_class = FC_CANCELLED, re_message = [], re_attempt = 1,
        re_http_status = None\<rparr>) (sink_start [] 0)))) < 2"
  by (rule sink_flush_interval [where dumps = "\<lambda>_. ''{}''" and s = "sink_submit
     (S_error \<lparr>re_item_id = ''a'', re_failure_class = FC_CANCELLED, re_message = [], re_attempt = 1,
        re_http_status = None\<rparr>) (sink_start [] 0)"])
    (simp_all add: sink_inv_def sink_submit_def sink_put_def sink_start_def new_queue_def q_put_def
      q_full_def sink_turn_def q_get_def sink_flush_if_due_def flush_every_rows_def
      flush_every_seconds_def)

text \<open>Closing loses nothing: after any history of submissions and writer turns, once the sentinel is
  put and the writer has had a turn for every waiting item and the sentinel, \<open>close\<close> returns and
  the file holds every submitted row, in order and synced.\<close>

lemma sink_close_complete:
  assumes "Sk_close \<notin> set es"
    and "length ts = Suc (length (sink_waiting (sink_run dumps (sink_start prior t0) es)))"
  shows "\<exists>s'. sink_close_end
        (sink_run dumps (sink_start prior t0) (es @ Sk_close # map Sk_turn ts)) = Some s' \<and>
      sink_file s' = prior @ lines_file (map (\<lambda>x. dumps (item_line x)) (sink_submits es)) \<and>
      sk_durable s' = length (sink_submits es) \<and> \<not> sk_open s'"
proof -
  let ?s = "sink_run dumps (sink_start prior t0) es"
  have acc: "sink_accepting ?s"
    using assms(1)
    by (intro sink_run_accepting)
      (simp_all add: sink_accepting_def sink_start_def new_queue_def)
  obtain w where lines: "sk_lines ?s = map (\<lambda>x. dumps (item_line x)) w" "sk_prior ?s = prior"
    and w: "sink_submits es = w @ sink_waiting ?s"
    using sink_history [of dumps prior t0 es] by metis
  define s1 where "s1 = sink_close_begin ?s"
  have s1: "sk_task_alive s1" "q_items (sk_queue s1) = map Some (sink_waiting ?s) @ [None]"
    "sk_lines s1 = sk_lines ?s" "sk_prior s1 = prior"
    using acc lines
    by (simp_all add: s1_def sink_close_begin_def sink_accepting_def sink_put_unbounded
        sink_waiting_def map_Some_waiting)
  show ?thesis
    using sink_drain [OF s1(1,2) assms(2), of dumps] w lines(1) s1(3,4)
    by (simp add: sink_run_append sink_close_end_def sink_file_def sink_flush_def flip: s1_def)
qed

lemma sink_close_complete_witness:
  "\<exists>s'. sink_close_end (sink_run (\<lambda>_. ''{}'') (sink_start [] 0)
        ([Sk_submit demo_error] @ Sk_close # map Sk_turn [1, 2])) = Some s' \<and>
      sink_file s' = ''{}'' @ [newline] \<and> sk_durable s' = 1 \<and> \<not> sk_open s'"
  using sink_close_complete [of "[Sk_submit demo_error]" "[1, 2]" "\<lambda>_. ''{}''" "[]" 0]
  by (simp add: sink_waiting_def sink_submit_def sink_put_def sink_start_def new_queue_def
      q_put_def q_full_def List.map_filter_def lines_file_def)

text \<open>Python's own \<open>json\<close> module does it.\<close>

lemma item_line_json_ok: "json_ok (item_line x)"
  by (cases x) (simp_all add: result_line_def error_line_def dict_ok_def json_opt_int_def split: option.split)

lemma item_text_ok:
  assumes "repr_faithful repr pf"
  shows "json_text_ok (json_dumps repr) (json_loads pf) (item_line x)"
proof -
  obtain row where "item_line x = JObj row" by (rule item_line_obj)
  then show ?thesis
    using loads_dumps [OF assms item_line_json_ok, of x] dumps_line [OF assms, of "item_line x"]
      dumps_braced [of repr row] by (simp add: json_text_ok_def)
qed

end
