(* ===== verification/Worker.thy ===== *)
theory Worker
  imports Breaker RateLimit Sink
begin

text \<open>
  The worker loop of \<open>core/worker.py\<close>.  A worker is a task of the event loop: it runs without
  interruption from one suspension point to the next.  Its control state \<open>wpc\<close> names the
  suspension point it is at; the functions below are the stretches of \<open>process_item\<close> and
  \<open>worker_loop\<close> between two of them, and \<open>worker_step\<close> is what happens when the event loop
  resumes the task.  An \<open>await\<close> that may return at once (a get from a queue with items, a put
  into a queue with room) is a suspension point too, so the model has every interleaving of the
  program and possibly more.

  The objects of \<open>WorkerContext\<close> that all workers of a job share are one record.  Two fields are
  history: \<open>wc_emitted\<close>, the rows submitted to the sink, and \<open>wc_calls\<close>, the calls made to
  \<open>provider.complete\<close>, which is outside the model.  Logging is left out.
\<close>

section \<open>State\<close>

datatype qitem = Q_shutdown | Q_parsed parsed

record wctx =
  wc_job_id :: string
  wc_queue :: "qitem pyqueue"
  wc_controller :: adaptive_controller
  wc_breaker :: circuit_breaker
  wc_budget :: retry_budget
  wc_sink :: result_sink
  wc_counts :: job_counts
  wc_usage :: usage_totals
  wc_errors_by_class :: "int pydict"
  wc_config :: job_config
  wc_abort_event :: bool
  wc_cancel_event :: bool
  wc_retry_base_s :: pyfloat
  wc_retry_cap_s :: pyfloat
  wc_abort_reason :: "string list"
  wc_abort_class :: "failure_class list"
  wc_emitted :: "sink_item list"
  wc_calls :: "(prompt_item \<times> nat) list"

text \<open>What a stretch of code reads from outside: the clocks of the objects it uses (each is read at
  most once between two suspension points), the wall clock and a random draw.\<close>

record readings =
  ck_ctx :: pyfloat
  ck_breaker :: pyfloat
  ck_controller :: pyfloat
  ck_bucket :: pyfloat
  ck_wall :: pyfloat
  rnd :: pyfloat

datatype wpc =
    W_get
  | W_breaker_sleep prompt_item nat
  | W_acquire_sleep prompt_item nat pyfloat
  | W_call prompt_item nat pyfloat
  | W_reset prompt_item nat failure_class nat "int option" "pyfloat list"
  | W_backoff prompt_item nat pyfloat
  | W_done
  | W_cancelled "prompt_item option"
  | W_crashed py_exn

section \<open>Emitting rows\<close>

definition bump_error_class :: "failure_class \<Rightarrow> wctx \<Rightarrow> wctx" where
  "bump_error_class c ctx =
     ctx\<lparr>wc_errors_by_class :=
       dict_set (fc_value c) (dict_get_or (wc_errors_by_class ctx) (fc_value c) 0 + 1)
         (wc_errors_by_class ctx)\<rparr>"

definition submit_row :: "sink_item \<Rightarrow> wctx \<Rightarrow> wctx" where
  "submit_row x ctx =
     ctx\<lparr>wc_sink := sink_submit x (wc_sink ctx), wc_emitted := wc_emitted ctx @ [x]\<rparr>"

text \<open>A terminal error row: what \<open>worker_loop\<close> does with a row that ingestion already rejected, and
  the second half of \<open>_emit_error\<close>.\<close>

definition resolve_error :: "row_error \<Rightarrow> wctx \<Rightarrow> wctx" where
  "resolve_error e ctx =
     (let ctx = submit_row (S_error e) ctx;
          ctx = ctx\<lparr>wc_counts := (wc_counts ctx)
                  \<lparr>failed := failed (wc_counts ctx) + 1, pending := pending (wc_counts ctx) - 1\<rparr>\<rparr>
      in bump_error_class (re_failure_class e) ctx)"

definition emit_error ::
    "string \<Rightarrow> failure_class \<Rightarrow> string \<Rightarrow> nat \<Rightarrow> int option \<Rightarrow> wctx \<Rightarrow> wctx" where
  "emit_error item_id c message attempt http_status ctx =
     resolve_error \<lparr>re_item_id = item_id, re_failure_class = c, re_message = message,
       re_attempt = attempt, re_http_status = http_status\<rparr> ctx"

text \<open>The end of an item in \<open>worker_loop\<close>: \<open>task_done\<close> in the \<open>finally\<close>, then back to \<open>get\<close>.\<close>

definition item_finished :: "wpc \<Rightarrow> wctx \<Rightarrow> wctx \<times> wpc" where
  "item_finished next ctx =
     (case q_task_done (wc_queue ctx) of
        None \<Rightarrow> (ctx, W_crashed Value_error)
      | Some q \<Rightarrow> (ctx\<lparr>wc_queue := q\<rparr>, next))"

text \<open>The safety net of \<open>worker_loop\<close>: an exception that escaped \<open>process_item\<close>.\<close>

definition item_escaped :: "prompt_item \<Rightarrow> wctx \<Rightarrow> wctx \<times> wpc" where
  "item_escaped it ctx =
     item_finished W_get
       (emit_error (pi_id it) FC_TRANSIENT_EXHAUSTED
         ''unexpected exception escaped process_item'' 1 None ctx)"

section \<open>One attempt\<close>

text \<open>From the granted token to the provider call.\<close>

definition start_call :: "readings \<Rightarrow> wctx \<Rightarrow> prompt_item \<Rightarrow> nat \<Rightarrow> wctx \<times> wpc" where
  "start_call env ctx it attempt =
     (ctx\<lparr>wc_counts := (wc_counts ctx)\<lparr>in_flight := in_flight (wc_counts ctx) + 1\<rparr>,
          wc_calls := wc_calls ctx @ [(it, attempt)]\<rparr>,
      W_call it attempt (ck_ctx env))"

text \<open>A pass of \<open>bucket.acquire\<close>.\<close>

definition acquire_pass :: "readings \<Rightarrow> wctx \<Rightarrow> prompt_item \<Rightarrow> nat \<Rightarrow> wctx \<times> wpc" where
  "acquire_pass env ctx it attempt =
     (let (b, wait) = tb_acquire_pass (ck_bucket env) (ac_bucket (wc_controller ctx));
          ctx = ctx\<lparr>wc_controller := (wc_controller ctx)\<lparr>ac_bucket := b\<rparr>\<rparr>
      in case wait of
           None \<Rightarrow> start_call env ctx it attempt
         | Some w \<Rightarrow> (ctx, W_acquire_sleep it attempt w))"

text \<open>The top of the loop: cancellation, abort, circuit breaker, then the bucket.\<close>

definition item_top :: "readings \<Rightarrow> wctx \<Rightarrow> prompt_item \<Rightarrow> nat \<Rightarrow> wctx \<times> wpc" where
  "item_top env ctx it attempt =
     (if wc_cancel_event ctx then
        item_finished W_get
          (emit_error (pi_id it) FC_CANCELLED ''job cancelled before dispatch''
            (py_or_nat attempt 1) None ctx)
      else if wc_abort_event ctx then
        (let reason = (case wc_abort_reason ctx of r # _ \<Rightarrow> r | [] \<Rightarrow> ''job aborted'');
             klass = (case wc_abort_class ctx of c # _ \<Rightarrow> c | [] \<Rightarrow> FC_FATAL_AUTH)
         in item_finished W_get
              (emit_error (pi_id it) klass reason (py_or_nat attempt 1) None ctx))
      else
        (let (ok, cb) = cb_allow_request (ck_breaker env) (wc_breaker ctx);
             ctx = ctx\<lparr>wc_breaker := cb\<rparr>
         in if ok then acquire_pass env ctx it (Suc attempt)
            else (ctx, W_breaker_sleep it attempt)))"

text \<open>The end of a failed attempt: exhausted, out of budget, or another try after a backoff.\<close>

definition retry_or_exhaust ::
    "readings \<Rightarrow> wctx \<Rightarrow> prompt_item \<Rightarrow> nat \<Rightarrow> failure_class \<Rightarrow> nat \<Rightarrow> int option \<Rightarrow> wctx \<times> wpc"
  where
  "retry_or_exhaust env ctx it attempt c max_attempts http_status =
     (if max_attempts \<le> attempt then
        (let final_class = (if c \<in> {FC_THROTTLED, FC_TRANSIENT} then FC_TRANSIENT_EXHAUSTED else c)
         in item_finished W_get
              (emit_error (pi_id it) final_class ''max attempts exhausted'' attempt http_status ctx))
      else
        (let (ok, budget) = rb_try_consume (wc_budget ctx); ctx = ctx\<lparr>wc_budget := budget\<rparr>
         in if ok then
              (ctx\<lparr>wc_controller := ac_record_retry_issued (wc_controller ctx)\<rparr>,
               W_backoff it attempt
                 (full_jitter_delay attempt (wc_retry_base_s ctx) (wc_retry_cap_s ctx) (rnd env)))
            else
              item_finished W_get
                (emit_error (pi_id it) FC_TRANSIENT_EXHAUSTED ''retry budget exhausted'' attempt
                  http_status ctx)))"

section \<open>After the provider call\<close>

text \<open>The \<open>except\<close> clauses: anything but a transport error is wrapped as one.\<close>

definition wrap_exception :: "(py_exn \<Rightarrow> string) \<Rightarrow> py_exn \<Rightarrow> py_exn" where
  "wrap_exception exn_repr e =
     (if is_transport_error e then e
      else Provider_transport_error (''unexpected error: '' @ exn_repr e))"

definition breaker_failure :: "failure_class \<Rightarrow> bool" where
  "breaker_failure c \<longleftrightarrow> c \<in> {FC_TRANSIENT, FC_FATAL_AUTH, FC_FATAL_BILLING}"

definition item_succeeded ::
    "(wctx \<Rightarrow> wctx) \<Rightarrow> readings \<Rightarrow> wctx \<Rightarrow> prompt_item \<Rightarrow> nat \<Rightarrow> pyfloat \<Rightarrow> provider_response
      \<Rightarrow> wctx \<times> wpc" where
  "item_succeeded on_spend_check env ctx it attempt latency response =
     (let usage = \<lparr>ud_input_tokens = resp_input_tokens response,
                   ud_output_tokens = resp_output_tokens response\<rparr>;
          ctx = ctx\<lparr>wc_controller :=
                  ac_record_success (ck_bucket env) latency (wc_controller ctx)\<rparr>;
          ctx = ctx\<lparr>wc_usage := (wc_usage ctx)
                  \<lparr>ut_input_tokens := ut_input_tokens (wc_usage ctx) + ud_input_tokens usage,
                   ut_output_tokens := ut_output_tokens (wc_usage ctx) + ud_output_tokens usage\<rparr>\<rparr>;
          ctx = submit_row (S_result
                  \<lparr>rr_item_id = pi_id it, rr_response_text = resp_text response, rr_usage = usage,
                   rr_latency_s = latency, rr_attempt = attempt\<rparr>) ctx;
          ctx = ctx\<lparr>wc_counts := (wc_counts ctx)
                  \<lparr>succeeded := succeeded (wc_counts ctx) + 1,
                   pending := pending (wc_counts ctx) - 1\<rparr>\<rparr>
      in item_finished W_get (on_spend_check ctx))"

definition item_fatal ::
    "wctx \<Rightarrow> prompt_item \<Rightarrow> nat \<Rightarrow> failure_class \<Rightarrow> int option \<Rightarrow> wctx \<times> wpc" where
  "item_fatal ctx it attempt c http_status =
     (let ctx = ctx\<lparr>wc_abort_reason := wc_abort_reason ctx @
                      [fc_value c @ '' (HTTP '' @ py_str_opt_int http_status @ '')''],
                    wc_abort_class := wc_abort_class ctx @ [c],
                    wc_abort_event := True\<rparr>
      in item_finished W_get
           (emit_error (pi_id it) c (''fatal: HTTP '' @ py_str_opt_int http_status) attempt
             http_status ctx))"

text \<open>A throttled attempt: the controller slows down, and a reset header makes the worker pause before
  it goes on.  \<open>parse_float\<close> is \<open>float(str)\<close>, \<open>None\<close> for \<open>ValueError\<close>.\<close>

definition reset_sleeps ::
    "(string \<Rightarrow> pyfloat option) \<Rightarrow> readings \<Rightarrow> provider_response option \<Rightarrow> pyfloat list" where
  "reset_sleeps parse_float env response =
     (case response of
        None \<Rightarrow> []
      | Some r \<Rightarrow>
          (case dict_get (resp_headers r) ''x-ratelimit-reset-requests'' of
             None \<Rightarrow> []
           | Some h \<Rightarrow>
               if h = [] then []
               else
                 (let reset_epoch = (case parse_float h of None \<Rightarrow> 0 | Some x \<Rightarrow> x)
                  in if 0 < reset_epoch then ac_reset_sleeps reset_epoch (ck_wall env) (rnd env)
                     else [])))"

definition after_call ::
    "(py_exn \<Rightarrow> string) \<Rightarrow> (string \<Rightarrow> pyfloat option) \<Rightarrow> (wctx \<Rightarrow> wctx) \<Rightarrow> readings \<Rightarrow> wctx
      \<Rightarrow> prompt_item \<Rightarrow> nat \<Rightarrow> pyfloat \<Rightarrow> provider_response option \<Rightarrow> py_exn option \<Rightarrow> wctx \<times> wpc" where
  "after_call exn_repr parse_float on_spend_check env ctx it attempt start response exc =
     (let latency = ck_ctx env - start in
      case classify response exc of
        Inl e \<Rightarrow> item_escaped it ctx
      | Inr (c, max_attempts) \<Rightarrow>
          (let http_status = map_option status_code response;
               ctx = ctx\<lparr>wc_breaker :=
                       cb_record (ck_breaker env) (breaker_failure c) (wc_breaker ctx)\<rparr>
           in if c = FC_SUCCESS then
                (case response of
                   None \<Rightarrow> item_escaped it ctx
                 | Some r \<Rightarrow> item_succeeded on_spend_check env ctx it attempt latency r)
              else if is_fatal c then item_fatal ctx it attempt c http_status
              else if c = FC_THROTTLED then
                (let ctx = ctx\<lparr>wc_controller :=
                             ac_record_throttle (ck_controller env) (ck_bucket env)
                               (wc_controller ctx)\<rparr>;
                     sleeps = reset_sleeps parse_float env response
                 in if sleeps = [] then retry_or_exhaust env ctx it attempt c max_attempts http_status
                    else (ctx, W_reset it attempt c max_attempts http_status sleeps))
              else retry_or_exhaust env ctx it attempt c max_attempts http_status))"

definition call_finished :: "wctx \<Rightarrow> wctx" where
  "call_finished ctx =
     ctx\<lparr>wc_counts := (wc_counts ctx)\<lparr>in_flight := in_flight (wc_counts ctx) - 1\<rparr>\<rparr>"

section \<open>The task\<close>

text \<open>What the event loop can do to a suspended worker: let it go on, deliver the outcome of its
  provider call, raise an exception from the sleep it is in, or cancel it.\<close>

datatype wevent =
    E_resume readings
  | E_outcome readings provider_outcome
  | E_raise py_exn
  | E_cancel

definition worker_get :: "readings \<Rightarrow> wctx \<Rightarrow> (wctx \<times> wpc) option" where
  "worker_get env ctx =
     (case q_get (wc_queue ctx) of
        None \<Rightarrow> None
      | Some (x, q) \<Rightarrow>
          (let ctx = ctx\<lparr>wc_queue := q\<rparr> in
           case x of
             Q_shutdown \<Rightarrow> Some (item_finished W_done ctx)
           | Q_parsed (P_error e) \<Rightarrow> Some (item_finished W_get (resolve_error e ctx))
           | Q_parsed (P_item it) \<Rightarrow> Some (item_top env ctx it 0)))"

fun worker_step ::
    "(py_exn \<Rightarrow> string) \<Rightarrow> (string \<Rightarrow> pyfloat option) \<Rightarrow> (wctx \<Rightarrow> wctx) \<Rightarrow> wevent \<Rightarrow> wctx \<Rightarrow> wpc
      \<Rightarrow> (wctx \<times> wpc) option" where
  "worker_step xr pf osc (E_resume env) ctx W_get = worker_get env ctx"
| "worker_step xr pf osc (E_resume env) ctx (W_breaker_sleep it a) = Some (item_top env ctx it a)"
| "worker_step xr pf osc (E_resume env) ctx (W_acquire_sleep it a w) =
     Some (acquire_pass env ctx it a)"
| "worker_step xr pf osc (E_outcome env oc) ctx (W_call it a start) =
     (let ctx = call_finished ctx in
      case oc of
        Out_response r \<Rightarrow> Some (after_call xr pf osc env ctx it a start (Some r) None)
      | Out_raise e \<Rightarrow>
          Some (after_call xr pf osc env ctx it a start None (Some (wrap_exception xr e)))
      | Out_cancelled \<Rightarrow> Some (item_finished (W_cancelled (Some it)) ctx))"
| "worker_step xr pf osc (E_resume env) ctx (W_reset it a c k http sleeps) =
     (if length sleeps \<le> 1 then Some (retry_or_exhaust env ctx it a c k http)
      else Some (ctx, W_reset it a c k http (tl sleeps)))"
| "worker_step xr pf osc (E_resume env) ctx (W_backoff it a d) = Some (item_top env ctx it a)"
| "worker_step xr pf osc (E_raise e) ctx (W_breaker_sleep it a) = Some (item_escaped it ctx)"
| "worker_step xr pf osc (E_raise e) ctx (W_acquire_sleep it a w) = Some (item_escaped it ctx)"
| "worker_step xr pf osc (E_raise e) ctx (W_reset it a c k http sleeps) = Some (item_escaped it ctx)"
| "worker_step xr pf osc (E_raise e) ctx (W_backoff it a d) = Some (item_escaped it ctx)"
| "worker_step xr pf osc E_cancel ctx W_get = Some (ctx, W_cancelled None)"
| "worker_step xr pf osc E_cancel ctx (W_breaker_sleep it a) =
     Some (item_finished (W_cancelled (Some it)) ctx)"
| "worker_step xr pf osc E_cancel ctx (W_acquire_sleep it a w) =
     Some (item_finished (W_cancelled (Some it)) ctx)"
| "worker_step xr pf osc E_cancel ctx (W_call it a start) =
     Some (item_finished (W_cancelled (Some it)) (call_finished ctx))"
| "worker_step xr pf osc E_cancel ctx (W_reset it a c k http sleeps) =
     Some (item_finished (W_cancelled (Some it)) ctx)"
| "worker_step xr pf osc E_cancel ctx (W_backoff it a d) =
     Some (item_finished (W_cancelled (Some it)) ctx)"
| "worker_step xr pf osc _ ctx _ = None"

end
