(* ===== verification/WorkerInv.thy ===== *)
theory WorkerInv
  imports Worker
begin

text \<open>
  What one resumption of a worker does to the books of the job: the item it holds either stays in
  its hands or turns into exactly one row, and the counters, the error histogram, the token totals
  and the call log move accordingly.  The spend check a worker calls after a success is the only
  operation a worker takes from its client; \<open>worker_pool\<close> states what it may touch.
\<close>

section \<open>What a suspended worker holds\<close>

fun in_hand :: "wpc \<Rightarrow> prompt_item list" where
  "in_hand (W_breaker_sleep it a) = [it]"
| "in_hand (W_acquire_sleep it a w) = [it]"
| "in_hand (W_call it a s) = [it]"
| "in_hand (W_reset it a c k h ss) = [it]"
| "in_hand (W_backoff it a d) = [it]"
| "in_hand _ = []"

text \<open>An item whose worker was cancelled is resolved by nobody.\<close>

fun lost :: "wpc \<Rightarrow> prompt_item list" where
  "lost (W_cancelled (Some it)) = [it]"
| "lost _ = []"

fun carried :: "wpc \<Rightarrow> prompt_item list" where
  "carried (W_cancelled (Some it)) = [it]"
| "carried pc = in_hand pc"

lemma carried_eq: "carried pc = in_hand pc @ lost pc"
  by (cases pc rule: carried.cases) simp_all

fun flying :: "wpc \<Rightarrow> int" where
  "flying (W_call it a s) = 1"
| "flying _ = 0"

text \<open>Calls the worker is still entitled to make without consuming more of the retry budget.\<close>

fun owed :: "wpc \<Rightarrow> int" where
  "owed (W_breaker_sleep it a) = 1"
| "owed (W_acquire_sleep it a w) = 1"
| "owed (W_backoff it a d) = 1"
| "owed _ = 0"

fun pc_ok :: "wpc \<Rightarrow> bool" where
  "pc_ok (W_breaker_sleep it a) = (a \<le> 7)"
| "pc_ok (W_acquire_sleep it a w) = (1 \<le> a \<and> a \<le> 8)"
| "pc_ok (W_call it a s) = (1 \<le> a \<and> a \<le> 8)"
| "pc_ok (W_reset it a c k h ss) =
     (1 \<le> a \<and> a \<le> 8 \<and> k \<le> 8 \<and> c = FC_THROTTLED \<and> ss \<noteq> [] \<and> length ss \<le> 2)"
| "pc_ok (W_backoff it a d) = (1 \<le> a \<and> a \<le> 7)"
| "pc_ok (W_crashed e) = False"
| "pc_ok _ = True"

fun terminal_row :: "sink_item \<Rightarrow> bool" where
  "terminal_row (S_result r) = True"
| "terminal_row (S_error e) = (re_failure_class e \<notin> {FC_SUCCESS, FC_THROTTLED, FC_TRANSIENT})"

definition row_ok :: "sink_item \<Rightarrow> bool" where
  "row_ok x \<longleftrightarrow> 1 \<le> sink_item_attempt x \<and> sink_item_attempt x \<le> 8 \<and> terminal_row x"

fun row_input_tokens :: "sink_item \<Rightarrow> int" where
  "row_input_tokens (S_result r) = ud_input_tokens (rr_usage r)"
| "row_input_tokens (S_error e) = 0"

fun row_output_tokens :: "sink_item \<Rightarrow> int" where
  "row_output_tokens (S_result r) = ud_output_tokens (rr_usage r)"
| "row_output_tokens (S_error e) = 0"

fun row_has_class :: "failure_class \<Rightarrow> sink_item \<Rightarrow> bool" where
  "row_has_class k (S_result r) = False"
| "row_has_class k (S_error e) = (re_failure_class e = k)"

section \<open>The books\<close>

text \<open>\<open>tally new c c'\<close>: between \<open>c\<close> and \<open>c'\<close> exactly the rows \<open>new\<close> were emitted and
  submitted to the sink, and every counter that counts rows moved with them.\<close>

definition tally :: "sink_item list \<Rightarrow> wctx \<Rightarrow> wctx \<Rightarrow> bool" where
  "tally new c c' \<longleftrightarrow>
     wc_emitted c' = wc_emitted c @ new \<and> wc_sink c' = fold sink_submit new (wc_sink c) \<and>
     ingested (wc_counts c') = ingested (wc_counts c) \<and>
     succeeded (wc_counts c') =
       succeeded (wc_counts c) + int (length (filter is_success_item new)) \<and>
     failed (wc_counts c') =
       failed (wc_counts c) + int (length (filter (\<lambda>x. \<not> is_success_item x) new)) \<and>
     pending (wc_counts c') = pending (wc_counts c) - int (length new) \<and>
     sum_list (map snd (wc_errors_by_class c')) = sum_list (map snd (wc_errors_by_class c))
       + int (length (filter (\<lambda>x. \<not> is_success_item x) new)) \<and>
     (\<forall>k. dict_get_or (wc_errors_by_class c') (fc_value k) 0 =
        dict_get_or (wc_errors_by_class c) (fc_value k) 0
          + int (length (filter (row_has_class k) new))) \<and>
     ut_input_tokens (wc_usage c') =
       ut_input_tokens (wc_usage c) + sum_list (map row_input_tokens new) \<and>
     ut_output_tokens (wc_usage c') =
       ut_output_tokens (wc_usage c) + sum_list (map row_output_tokens new)"

text \<open>What no worker ever changes.\<close>

definition static :: "wctx \<Rightarrow> wctx \<Rightarrow> bool" where
  "static c c' \<longleftrightarrow>
     wc_config c' = wc_config c \<and> wc_cancel_event c' = wc_cancel_event c \<and>
     q_items (wc_queue c') = q_items (wc_queue c) \<and>
     q_maxsize (wc_queue c') = q_maxsize (wc_queue c) \<and>
     rb_total_items (wc_budget c') = rb_total_items (wc_budget c) \<and>
     rb_fraction (wc_budget c') = rb_fraction (wc_budget c) \<and>
     ut_estimated_cost_usd (wc_usage c') = ut_estimated_cost_usd (wc_usage c) \<and>
     (wc_abort_event c \<longrightarrow> wc_abort_event c')"

definition calls_made :: "wctx \<Rightarrow> int" where
  "calls_made c = int (length (wc_calls c))"

text \<open>\<open>handles k it c (c', pc)\<close>: a stretch of code that starts with \<open>it\<close> in hand and \<open>k\<close> calls owed.\<close>

definition handles :: "int \<Rightarrow> prompt_item \<Rightarrow> wctx \<Rightarrow> wctx \<times> wpc \<Rightarrow> bool" where
  "handles k it c r \<longleftrightarrow>
     (\<exists>new. tally new c (fst r) \<and>
        ((new = [] \<and> carried (snd r) = [it]) \<or>
         (\<exists>x. new = [x] \<and> sink_item_id x = pi_id it \<and> row_ok x \<and>
            carried (snd r) = []))) \<and>
     in_flight (wc_counts (fst r)) = in_flight (wc_counts c) + flying (snd r) \<and>
     static c (fst r) \<and> pc_ok (snd r) \<and> snd r \<noteq> W_done \<and>
     q_unfinished (wc_queue (fst r)) + 1 =
       q_unfinished (wc_queue c) + length (in_hand (snd r)) \<and>
     calls_made (fst r) + owed (snd r) \<le>
       calls_made c + k + (rb_used (wc_budget (fst r)) - rb_used (wc_budget c)) \<and>
     (\<forall>p \<in> set (wc_calls (fst r)). p \<in> set (wc_calls c) \<or> fst p = it \<and> snd p \<in> {1..8})"

text \<open>Changes that concern none of the books.\<close>

definition quiet :: "wctx \<Rightarrow> wctx \<Rightarrow> bool" where
  "quiet c c' \<longleftrightarrow> tally [] c c' \<and> static c c' \<and> wc_counts c' = wc_counts c \<and>
     wc_queue c' = wc_queue c \<and> wc_calls c' = wc_calls c \<and>
     rb_used (wc_budget c') = rb_used (wc_budget c)"

lemma tally_quiet: "tally [] c c1 \<Longrightarrow> tally new c1 c2 \<Longrightarrow> tally new c c2"
  by (simp add: tally_def)

lemma static_trans: "static c c1 \<Longrightarrow> static c1 c2 \<Longrightarrow> static c c2"
  by (simp add: static_def)

lemma handles_quiet: "quiet c c1 \<Longrightarrow> handles k it c1 r \<Longrightarrow> handles k it c r"
  unfolding handles_def quiet_def
  by (auto intro: static_trans dest: tally_quiet simp: calls_made_def)

lemma handles_weaken: "handles k it c r \<Longrightarrow> k \<le> k' \<Longrightarrow> handles k' it c r"
  by (auto simp: handles_def)

lemma quiet_breaker: "quiet c (c\<lparr>wc_breaker := cb\<rparr>)"
  by (simp add: quiet_def tally_def static_def)

lemma quiet_controller: "quiet c (c\<lparr>wc_controller := ac\<rparr>)"
  by (simp add: quiet_def tally_def static_def)

lemma quiet_abort: "quiet c (c\<lparr>wc_abort_reason := r, wc_abort_class := k, wc_abort_event := True\<rparr>)"
  by (simp add: quiet_def tally_def static_def)

section \<open>Emitting\<close>

lemma item_finished_eq:
  "0 < q_unfinished (wc_queue c) \<Longrightarrow>
   item_finished next c =
     (c\<lparr>wc_queue := (wc_queue c)\<lparr>q_unfinished := q_unfinished (wc_queue c) - 1\<rparr>\<rparr>, next)"
  by (simp add: item_finished_def q_task_done_def)

lemma tally_resolve_error: "tally [S_error e] c (resolve_error e c)"
  by (auto simp: tally_def resolve_error_def submit_row_def bump_error_class_def Let_def sum_dict_set
      dest: fc_value_inj)

lemma resolve_error_frame [frame]:
  "wc_queue (resolve_error e c) = wc_queue c" "wc_calls (resolve_error e c) = wc_calls c"
  "wc_budget (resolve_error e c) = wc_budget c" "wc_config (resolve_error e c) = wc_config c"
  "wc_cancel_event (resolve_error e c) = wc_cancel_event c"
  "wc_abort_event (resolve_error e c) = wc_abort_event c"
  "wc_abort_reason (resolve_error e c) = wc_abort_reason c"
  "wc_usage (resolve_error e c) = wc_usage c"
  "in_flight (wc_counts (resolve_error e c)) = in_flight (wc_counts c)"
  "wc_controller (resolve_error e c) = wc_controller c"
  "wc_breaker (resolve_error e c) = wc_breaker c"
  "wc_sink (resolve_error e c) = sink_submit (S_error e) (wc_sink c)"
  by (simp_all add: resolve_error_def submit_row_def bump_error_class_def Let_def)

lemma emit_handles:
  assumes "0 < q_unfinished (wc_queue c)" "1 \<le> a" "a \<le> 8" "0 \<le> k"
    and "fc \<notin> {FC_SUCCESS, FC_THROTTLED, FC_TRANSIENT}"
  shows "handles k it c (item_finished W_get (emit_error (pi_id it) fc msg a http c))"
proof -
  let ?e = "\<lparr>re_item_id = pi_id it, re_failure_class = fc, re_message = msg, re_attempt = a,
    re_http_status = http\<rparr>"
  have fin: "item_finished W_get (emit_error (pi_id it) fc msg a http c) =
    ((resolve_error ?e c)\<lparr>wc_queue := (wc_queue c)\<lparr>q_unfinished := q_unfinished (wc_queue c) - 1\<rparr>\<rparr>,
     W_get)"
    using assms(1) by (simp add: emit_error_def item_finished_eq frame)
  have "tally [S_error ?e] c (fst (item_finished W_get (emit_error (pi_id it) fc msg a http c)))"
    using tally_resolve_error [of ?e c] by (simp add: fin tally_def)
  then show ?thesis
    unfolding handles_def
    using assms by (auto simp: fin frame static_def calls_made_def row_ok_def)
qed

lemma escaped_handles:
  "0 < q_unfinished (wc_queue c) \<Longrightarrow> 0 \<le> k \<Longrightarrow> handles k it c (item_escaped it c)"
  unfolding item_escaped_def by (rule emit_handles) auto

lemma cancelled_handles:
  "0 < q_unfinished (wc_queue c) \<Longrightarrow> 0 \<le> k \<Longrightarrow>
   handles k it c (item_finished (W_cancelled (Some it)) c)"
  by (auto simp: handles_def item_finished_eq tally_def static_def calls_made_def)

section \<open>Stretches of an attempt\<close>

lemma start_call_handles:
  "1 \<le> a \<Longrightarrow> a \<le> 8 \<Longrightarrow> handles 1 it c (start_call env c it a)"
  by (auto simp: handles_def start_call_def tally_def static_def calls_made_def)

lemma acquire_pass_handles:
  assumes "1 \<le> a" "a \<le> 8"
  shows "handles 1 it c (acquire_pass env c it a)"
proof -
  obtain b w where pass: "tb_acquire_pass (ck_bucket env) (ac_bucket (wc_controller c)) = (b, w)"
    by fastforce
  let ?c = "c\<lparr>wc_controller := (wc_controller c)\<lparr>ac_bucket := b\<rparr>\<rparr>"
  show ?thesis
  proof (cases w)
    case None
    then have "acquire_pass env c it a = start_call env ?c it a"
      by (simp add: acquire_pass_def pass)
    then show ?thesis
      using handles_quiet [OF quiet_controller start_call_handles] assms by simp
  next
    case (Some s)
    then have "acquire_pass env c it a = (?c, W_acquire_sleep it a s)"
      by (simp add: acquire_pass_def pass)
    then show ?thesis
      using assms by (auto simp: handles_def tally_def static_def calls_made_def)
  qed
qed

definition abort_classes_ok :: "wctx \<Rightarrow> bool" where
  "abort_classes_ok c \<longleftrightarrow> (\<forall>k \<in> set (wc_abort_class c). is_fatal k)"

lemma item_top_handles:
  assumes "0 < q_unfinished (wc_queue c)" "a \<le> 7" "abort_classes_ok c"
  shows "handles 1 it c (item_top env c it a)"
proof -
  obtain ok cb where allow: "cb_allow_request (ck_breaker env) (wc_breaker c) = (ok, cb)"
    by fastforce
  have a: "1 \<le> py_or_nat a 1" "py_or_nat a 1 \<le> 8"
    using assms(2) by (auto simp: py_or_nat_def)
  have klass: "(case wc_abort_class c of k # _ \<Rightarrow> k | [] \<Rightarrow> FC_FATAL_AUTH)
      \<notin> {FC_SUCCESS, FC_THROTTLED, FC_TRANSIENT}"
    using assms(3) by (auto simp: abort_classes_ok_def is_fatal_def split: list.splits)
  consider (cancel) "wc_cancel_event c" | (abort) "\<not> wc_cancel_event c" "wc_abort_event c"
    | (go) "\<not> wc_cancel_event c" "\<not> wc_abort_event c" by blast
  then show ?thesis
  proof cases
    case cancel
    then show ?thesis
      using emit_handles [OF assms(1) a] by (simp add: item_top_def)
  next
    case abort
    then show ?thesis
      using emit_handles [OF assms(1) a _ klass] by (simp add: item_top_def Let_def)
  next
    case go
    show ?thesis
    proof (cases ok)
      case True
      then have "item_top env c it a = acquire_pass env (c\<lparr>wc_breaker := cb\<rparr>) it (Suc a)"
        using go by (simp add: item_top_def allow)
      then show ?thesis
        using handles_quiet [OF quiet_breaker acquire_pass_handles] assms(2) by simp
    next
      case False
      then have "item_top env c it a = (c\<lparr>wc_breaker := cb\<rparr>, W_breaker_sleep it a)"
        using go by (simp add: item_top_def allow)
      then show ?thesis
        using assms(2) by (auto simp: handles_def tally_def static_def calls_made_def)
    qed
  qed
qed

lemma retry_or_exhaust_handles:
  assumes "0 < q_unfinished (wc_queue c)" "1 \<le> a" "a \<le> 8" "k \<le> 8"
    and "fc \<in> {FC_THROTTLED, FC_TRANSIENT, FC_INVALID_INPUT}"
  shows "handles 0 it c (retry_or_exhaust env c it a fc k http)"
proof (cases "k \<le> a")
  case True
  then show ?thesis
    using emit_handles [OF assms(1-3), of 0] assms(5)
    by (auto simp: retry_or_exhaust_def Let_def)
next
  case False
  obtain ok b where consume: "rb_try_consume (wc_budget c) = (ok, b)"
    by fastforce
  show ?thesis
  proof (cases ok)
    case True
    with consume have "b = (wc_budget c)\<lparr>rb_used := rb_used (wc_budget c) + 1\<rparr>"
      by (simp add: rb_try_consume_True)
    then show ?thesis
      using False True assms(2,4)
      by (auto simp: handles_def retry_or_exhaust_def consume tally_def static_def calls_made_def)
  next
    case refused: False
    with consume have "b = wc_budget c"
      by (simp add: rb_try_consume_False)
    then show ?thesis
      using emit_handles [OF assms(1-3), of 0 FC_TRANSIENT_EXHAUSTED] False refused
      by (simp add: retry_or_exhaust_def consume)
  qed
qed

lemma item_fatal_handles:
  assumes "0 < q_unfinished (wc_queue c)" "1 \<le> a" "a \<le> 8" "is_fatal fc"
  shows "handles 0 it c (item_fatal c it a fc http)"
proof -
  let ?c = "c\<lparr>wc_abort_reason := wc_abort_reason c @
      [fc_value fc @ '' (HTTP '' @ py_str_opt_int http @ '')''],
    wc_abort_class := wc_abort_class c @ [fc], wc_abort_event := True\<rparr>"
  have "handles 0 it ?c (item_fatal c it a fc http)"
    unfolding item_fatal_def Let_def
    using assms by (intro emit_handles) (auto simp: is_fatal_def)
  then show ?thesis
    by (rule handles_quiet [OF quiet_abort])
qed

section \<open>Standing conditions on the shared objects\<close>

definition wctx_ok :: "wctx \<Rightarrow> bool" where
  "wctx_ok c \<longleftrightarrow>
     tb_wf (ac_bucket (wc_controller c)) \<and> cb_wf (wc_breaker c) \<and>
     q_maxsize (sk_queue (wc_sink c)) = 0 \<and>
     0 \<le> rb_used (wc_budget c) \<and> rb_used (wc_budget c) \<le> rb_limit (wc_budget c) \<and>
     ac_retries_issued (wc_controller c) = rb_used (wc_budget c) \<and>
     (wc_abort_event c \<longrightarrow> wc_abort_reason c \<noteq> []) \<and>
     abort_classes_ok c \<and> dict_ok (wc_errors_by_class c)"

text \<open>The rows the sink has written and still has waiting are the rows emitted.\<close>

definition sink_linked :: "(json \<Rightarrow> string) \<Rightarrow> wctx \<Rightarrow> bool" where
  "sink_linked dumps c \<longleftrightarrow>
     (\<exists>w. sk_lines (wc_sink c) = map (\<lambda>x. dumps (item_line x)) w \<and>
        wc_emitted c = w @ sink_waiting (wc_sink c))"

definition sound :: "(json \<Rightarrow> string) \<Rightarrow> wctx \<Rightarrow> bool" where
  "sound dumps c \<longleftrightarrow> wctx_ok c \<and> sink_linked dumps c"

lemma waiting_submit:
  "q_maxsize (sk_queue s) = 0 \<Longrightarrow> sink_waiting (sink_submit x s) = sink_waiting s @ [x]"
  by (simp add: sink_submit_def sink_put_unbounded sink_waiting_def map_filter_id_append
      List.map_filter_def)

lemma sound_submit: "sound dumps c \<Longrightarrow> sound dumps (submit_row x c)"
  by (auto simp: sound_def wctx_ok_def sink_linked_def submit_row_def frame sink_submit_def
      abort_classes_ok_def waiting_submit [unfolded sink_submit_def])

lemma sound_frame:
  assumes "sound dumps c"
    and "tb_wf (ac_bucket (wc_controller c'))" "cb_wf (wc_breaker c')"
    and "wc_sink c' = wc_sink c" "wc_emitted c' = wc_emitted c"
    and "0 \<le> rb_used (wc_budget c')" "rb_used (wc_budget c') \<le> rb_limit (wc_budget c')"
    and "ac_retries_issued (wc_controller c') = rb_used (wc_budget c')"
    and "wc_abort_event c' \<longrightarrow> wc_abort_reason c' \<noteq> []" "abort_classes_ok c'"
    and "dict_ok (wc_errors_by_class c')"
  shows "sound dumps c'"
  using assms by (simp add: sound_def wctx_ok_def sink_linked_def)

lemma sound_resolve_error: "sound dumps c \<Longrightarrow> sound dumps (resolve_error e c)"
  using sound_submit [of dumps c "S_error e"]
  by (auto simp: resolve_error_def bump_error_class_def Let_def sound_def wctx_ok_def
      sink_linked_def abort_classes_ok_def)

lemma sound_item_finished: "sound dumps c \<Longrightarrow> sound dumps (fst (item_finished next c))"
  by (auto simp: item_finished_def sound_def wctx_ok_def sink_linked_def abort_classes_ok_def
      split: option.splits)

lemma sound_emit: "sound dumps c \<Longrightarrow> sound dumps (fst (item_finished nx (emit_error i k m a h c)))"
  unfolding emit_error_def by (intro sound_item_finished sound_resolve_error)

lemma sound_escaped: "sound dumps c \<Longrightarrow> sound dumps (fst (item_escaped it c))"
  unfolding item_escaped_def by (rule sound_emit)

lemma sound_controller:
  "sound dumps c \<Longrightarrow> tb_wf (ac_bucket ac) \<Longrightarrow> ac_retries_issued ac = rb_used (wc_budget c) \<Longrightarrow>
   sound dumps (c\<lparr>wc_controller := ac\<rparr>)"
  by (auto simp: sound_def wctx_ok_def sink_linked_def abort_classes_ok_def)

lemma sound_start_call: "sound dumps c \<Longrightarrow> sound dumps (fst (start_call env c it a))"
  by (auto simp: start_call_def sound_def wctx_ok_def sink_linked_def abort_classes_ok_def)

lemma sound_acquire_pass:
  assumes "sound dumps c"
  shows "sound dumps (fst (acquire_pass env c it a))"
proof -
  obtain b w where pass: "tb_acquire_pass (ck_bucket env) (ac_bucket (wc_controller c)) = (b, w)"
    by fastforce
  have "tb_wf b"
    using assms tb_wf_pass [of "ac_bucket (wc_controller c)" "ck_bucket env"]
    by (simp add: sound_def wctx_ok_def pass)
  then have "sound dumps (c\<lparr>wc_controller := (wc_controller c)\<lparr>ac_bucket := b\<rparr>\<rparr>)"
    using assms by (intro sound_controller) (simp_all add: sound_def wctx_ok_def)
  then show ?thesis
    by (simp add: acquire_pass_def pass Let_def sound_start_call split: option.splits)
qed

lemma sound_breaker: "sound dumps c \<Longrightarrow> cb_wf cb \<Longrightarrow> sound dumps (c\<lparr>wc_breaker := cb\<rparr>)"
  by (auto simp: sound_def wctx_ok_def sink_linked_def abort_classes_ok_def)

lemma sound_item_top:
  assumes "sound dumps c"
  shows "sound dumps (fst (item_top env c it a))"
proof -
  have "cb_wf (snd (cb_allow_request (ck_breaker env) (wc_breaker c)))"
    using assms by (simp add: sound_def wctx_ok_def cb_wf_allow)
  then show ?thesis
    using assms
    by (auto simp: item_top_def Let_def sound_emit sound_acquire_pass sound_breaker
        split: prod.splits)
qed

lemma sound_retry_or_exhaust:
  assumes "sound dumps c"
  shows "sound dumps (fst (retry_or_exhaust env c it a fc k http))"
proof (cases "k \<le> a")
  case True
  then show ?thesis
    using assms by (simp add: retry_or_exhaust_def Let_def sound_emit)
next
  case False
  then show ?thesis
    using assms
    by (auto simp: retry_or_exhaust_def rb_try_consume_def sound_emit)
      (auto simp: sound_def wctx_ok_def sink_linked_def abort_classes_ok_def
        ac_record_retry_issued_def)
qed

lemma sound_item_fatal:
  assumes "sound dumps c" "is_fatal fc"
  shows "sound dumps (fst (item_fatal c it a fc http))"
proof -
  have "sound dumps (c\<lparr>wc_abort_reason := wc_abort_reason c @
      [fc_value fc @ '' (HTTP '' @ py_str_opt_int http @ '')''],
    wc_abort_class := wc_abort_class c @ [fc], wc_abort_event := True\<rparr>)"
    using assms by (intro sound_frame [OF assms(1)])
      (auto simp: sound_def wctx_ok_def abort_classes_ok_def)
  then show ?thesis
    unfolding item_fatal_def Let_def by (rule sound_emit)
qed

lemma record_throttle_ok:
  "tb_wf (ac_bucket c) \<Longrightarrow> tb_wf (ac_bucket (ac_record_throttle n b c))"
  "ac_retries_issued (ac_record_throttle n b c) = ac_retries_issued c"
  using ac_step_wf_bucket [of c "Ac_throttle n b"]
  by (simp_all add: ac_record_throttle_def Let_def)

lemma record_success_ok:
  "tb_wf (ac_bucket c) \<Longrightarrow> tb_wf (ac_bucket (ac_record_success b l c))"
  "ac_retries_issued (ac_record_success b l c) = ac_retries_issued c"
  using ac_step_wf_bucket [of c "Ac_success b l"]
  by (simp_all add: ac_record_success_def Let_def)

lemma reset_sleeps_le_2: "length (reset_sleeps pf env r) \<le> 2"
  by (simp add: reset_sleeps_def ac_reset_sleeps_def Let_def split: option.split)

section \<open>The interface to the spend check\<close>

text \<open>What the worker loop relies on when it awaits \<open>ctx.on_spend_check()\<close>: the hook writes nothing but
  the abort event and the abort reason, never clears the event, only appends to the reason, and
  gives a reason when it raises the event.\<close>

locale worker_pool =
  fixes osc :: "wctx \<Rightarrow> wctx"
  assumes osc_writes: "osc c = c\<lparr>wc_abort_event := wc_abort_event (osc c),
      wc_abort_reason := wc_abort_reason (osc c)\<rparr>"
    and osc_keeps_abort: "wc_abort_event c \<Longrightarrow> wc_abort_event (osc c)"
    and osc_reason: "wc_abort_event (osc c) \<Longrightarrow> wc_abort_event c \<or> wc_abort_reason (osc c) \<noteq> []"
    and osc_keeps_reason: "wc_abort_reason c \<noteq> [] \<Longrightarrow> wc_abort_reason (osc c) \<noteq> []"
begin

lemma osc_frame:
  "wc_queue (osc c) = wc_queue c" "wc_calls (osc c) = wc_calls c" "wc_counts (osc c) = wc_counts c"
  "wc_emitted (osc c) = wc_emitted c" "wc_budget (osc c) = wc_budget c"
  "wc_usage (osc c) = wc_usage c" "wc_errors_by_class (osc c) = wc_errors_by_class c"
  "wc_config (osc c) = wc_config c" "wc_cancel_event (osc c) = wc_cancel_event c"
  "wc_controller (osc c) = wc_controller c" "wc_breaker (osc c) = wc_breaker c"
  "wc_sink (osc c) = wc_sink c" "wc_abort_class (osc c) = wc_abort_class c"
  by (subst osc_writes, simp)+

lemma sound_osc: "sound dumps c \<Longrightarrow> sound dumps (osc c)"
  using osc_reason [of c] osc_keeps_reason [of c]
  by (auto simp: sound_def wctx_ok_def sink_linked_def abort_classes_ok_def osc_frame)

lemma item_succeeded_handles:
  assumes "0 < q_unfinished (wc_queue c)" "1 \<le> a" "a \<le> 8"
  shows "handles 0 it c (item_succeeded osc env c it a latency r)"
  using assms osc_keeps_abort
  unfolding handles_def item_succeeded_def Let_def
  by (auto simp: item_finished_eq osc_frame submit_row_def tally_def static_def calls_made_def
      row_ok_def)

lemma sound_item_succeeded:
  assumes "sound dumps c"
  shows "sound dumps (fst (item_succeeded osc env c it a latency r))"
proof -
  have "sound dumps (c\<lparr>wc_controller := ac_record_success (ck_bucket env) latency (wc_controller c)\<rparr>)"
    using assms by (intro sound_controller)
      (simp_all add: sound_def wctx_ok_def record_success_ok)
  then have "sound dumps (submit_row x
      (c\<lparr>wc_controller := ac_record_success (ck_bucket env) latency (wc_controller c),
         wc_usage := u\<rparr>))" for x u
    by (intro sound_submit) (auto simp: sound_def wctx_ok_def sink_linked_def abort_classes_ok_def)
  then have "sound dumps ((submit_row x
      (c\<lparr>wc_controller := ac_record_success (ck_bucket env) latency (wc_controller c),
         wc_usage := u\<rparr>))\<lparr>wc_counts := k\<rparr>)" for x u k
    by (auto simp: sound_def wctx_ok_def sink_linked_def abort_classes_ok_def)
  then show ?thesis
    unfolding item_succeeded_def Let_def
    by (intro sound_item_finished sound_osc) (simp add: submit_row_def)
qed

lemma after_call_handles:
  assumes "0 < q_unfinished (wc_queue c)" "1 \<le> a" "a \<le> 8"
  shows "handles 0 it c (after_call xr pf osc env c it a start response exc)"
proof (cases "classify response exc")
  case (Inl e)
  then show ?thesis
    using assms by (simp add: after_call_def escaped_handles)
next
  case (Inr p)
  obtain fc k where p: "p = (fc, k)" by fastforce
  let ?c = "c\<lparr>wc_breaker := cb_record (ck_breaker env) (breaker_failure fc) (wc_breaker c)\<rparr>"
  let ?ct = "?c\<lparr>wc_controller :=
    ac_record_throttle (ck_controller env) (ck_bucket env) (wc_controller ?c)\<rparr>"
  have unf: "0 < q_unfinished (wc_queue ?c)" "0 < q_unfinished (wc_queue ?ct)"
    using assms(1) by simp_all
  have k: "k \<le> 8"
    using classify_attempts Inr p by blast
  note retry = retry_or_exhaust_handles [OF unf(1) assms(2,3) k]
  note retry_t = handles_quiet [OF quiet_controller retry_or_exhaust_handles [OF unf(2) assms(2,3) k]]
  have "handles 0 it ?c (after_call xr pf osc env c it a start response exc)"
    using Inr [unfolded p]
  proof (cases rule: classify_cases)
    case (success r)
    then show ?thesis
      using Inr p item_succeeded_handles [OF unf(1) assms(2,3)]
      by (simp add: after_call_def Let_def)
  next
    case transient
    then show ?thesis
      using Inr p retry by (simp add: after_call_def Let_def is_fatal_def)
  next
    case (throttled r)
    show ?thesis
    proof (cases "reset_sleeps pf env response = []")
      case True
      then show ?thesis
        using throttled Inr p retry_t by (simp add: after_call_def Let_def is_fatal_def)
    next
      case False
      then show ?thesis
        using throttled Inr p assms(2,3) reset_sleeps_le_2 [of pf env response]
        by (simp add: after_call_def Let_def is_fatal_def handles_def tally_def static_def
            calls_made_def)
    qed
  next
    case invalid
    then show ?thesis
      using Inr p retry by (simp add: after_call_def Let_def is_fatal_def)
  next
    case (fatal r)
    then show ?thesis
      using Inr p item_fatal_handles [OF unf(1) assms(2,3)]
      by (auto simp: after_call_def Let_def is_fatal_def)
  qed
  then show ?thesis
    by (rule handles_quiet [OF quiet_breaker])
qed

lemma sound_after_call:
  assumes "sound dumps c"
  shows "sound dumps (fst (after_call xr pf osc env c it a start response exc))"
proof (cases "classify response exc")
  case (Inl e)
  then show ?thesis
    using assms by (simp add: after_call_def sound_escaped)
next
  case (Inr p)
  obtain fc k where p: "p = (fc, k)" by fastforce
  let ?c = "c\<lparr>wc_breaker := cb_record (ck_breaker env) (breaker_failure fc) (wc_breaker c)\<rparr>"
  have c: "sound dumps ?c"
    using assms by (intro sound_breaker) (simp_all add: sound_def wctx_ok_def cb_wf_record)
  have ct: "sound dumps (?c\<lparr>wc_controller :=
      ac_record_throttle (ck_controller env) (ck_bucket env) (wc_controller ?c)\<rparr>)"
    using c by (intro sound_controller)
      (simp_all add: sound_def wctx_ok_def record_throttle_ok)
  show ?thesis
    using c ct
    by (auto simp: after_call_def Inr p Let_def sound_escaped sound_item_succeeded
        sound_item_fatal sound_retry_or_exhaust split: option.split)
qed

end

end
