(* ===== verification/WorkerStep.thy ===== *)
theory WorkerStep
  imports WorkerInv
begin

text \<open>
  One resumption of a worker as a whole: \<open>step_books\<close> says how an item moves between the queue, the
  hands of the worker and the sink, and \<open>worker_step_books\<close> shows that every step of every worker
  keeps these books.  The lemmas hold for any spend check that obeys \<open>worker_pool\<close>.
\<close>

fun qitem_ids :: "qitem \<Rightarrow> string list" where
  "qitem_ids Q_shutdown = []"
| "qitem_ids (Q_parsed p) = [parsed_id p]"

fun qitem_prompts :: "qitem \<Rightarrow> int" where
  "qitem_prompts (Q_parsed (P_item it)) = 1"
| "qitem_prompts _ = 0"

text \<open>A row that ingestion rejected is terminal already.\<close>

fun qitem_ok :: "qitem \<Rightarrow> bool" where
  "qitem_ok (Q_parsed (P_error e)) = row_ok (S_error e)"
| "qitem_ok _ = True"

definition step_books :: "qitem list \<Rightarrow> sink_item list \<Rightarrow> wctx \<Rightarrow> wpc \<Rightarrow> wctx \<Rightarrow> wpc \<Rightarrow> bool" where
  "step_books taken new c pc c' pc' \<longleftrightarrow>
     tally new c c' \<and> length taken \<le> 1 \<and>
     q_items (wc_queue c) = taken @ q_items (wc_queue c') \<and>
     q_maxsize (wc_queue c') = q_maxsize (wc_queue c) \<and>
     mset (concat (map qitem_ids taken)) + mset (map pi_id (in_hand pc)) =
       mset (map sink_item_id new) + mset (map pi_id (carried pc')) \<and>
     in_flight (wc_counts c') + flying pc = in_flight (wc_counts c) + flying pc' \<and>
     q_unfinished (wc_queue c') + length taken + length (in_hand pc) =
       q_unfinished (wc_queue c) + length (in_hand pc') \<and>
     calls_made c' + owed pc' \<le> calls_made c + owed pc + sum_list (map qitem_prompts taken)
       + (rb_used (wc_budget c') - rb_used (wc_budget c)) \<and>
     (\<forall>p \<in> set (wc_calls c'). p \<in> set (wc_calls c) \<or> snd p \<in> {1..8}) \<and>
     pc_ok pc' \<and> (\<forall>x \<in> set new. row_ok x) \<and>
     wc_config c' = wc_config c \<and> wc_cancel_event c' = wc_cancel_event c \<and>
     rb_total_items (wc_budget c') = rb_total_items (wc_budget c) \<and>
     rb_fraction (wc_budget c') = rb_fraction (wc_budget c) \<and>
     ut_estimated_cost_usd (wc_usage c') = ut_estimated_cost_usd (wc_usage c) \<and>
     (wc_abort_event c \<longrightarrow> wc_abort_event c') \<and>
     (pc' = W_done \<longleftrightarrow> taken = [Q_shutdown])"

lemma books_of_handles:
  assumes "handles (owed pc) it c (c', pc')" "in_hand pc = [it]" "flying pc = 0"
  shows "\<exists>new. step_books [] new c pc c' pc'"
proof -
  have "pc' \<noteq> W_done"
    using assms(1) by (auto simp: handles_def)
  then show ?thesis
    using assms by (auto simp: handles_def step_books_def static_def)
qed

lemma books_of_call:
  assumes "handles 0 it (call_finished c) (c', pc')"
  shows "\<exists>new. step_books [] new c (W_call it a s) c' pc'"
proof -
  have "tally [] c (call_finished c)"
    by (simp add: tally_def call_finished_def)
  moreover have "pc' \<noteq> W_done"
    using assms by (auto simp: handles_def)
  ultimately show ?thesis
    using assms
    by (auto simp: handles_def step_books_def static_def call_finished_def calls_made_def
        dest: tally_quiet)
qed

lemma books_of_popped_item:
  assumes "handles 1 it (c\<lparr>wc_queue := q\<rparr>) (c', pc')"
    and "q_get (wc_queue c) = Some (Q_parsed (P_item it), q)"
  shows "\<exists>new. step_books [Q_parsed (P_item it)] new c W_get c' pc'"
proof -
  have q: "q_items (wc_queue c) = Q_parsed (P_item it) # q_items q"
    "q_maxsize q = q_maxsize (wc_queue c)" "q_unfinished q = q_unfinished (wc_queue c)"
    using assms(2) by (auto simp: q_get_def split: list.splits)
  have "tally [] c (c\<lparr>wc_queue := q\<rparr>)"
    by (simp add: tally_def)
  moreover have "pc' \<noteq> W_done"
    using assms by (auto simp: handles_def)
  ultimately show ?thesis
    using assms(1) q
    by (auto simp: handles_def step_books_def static_def calls_made_def dest: tally_quiet)
qed

lemma worker_step_in_hand:
  assumes "worker_step xr pf osc ev c pc = Some (c', pc')"
  shows "lost pc = []"
  using assms by (cases "(xr, pf, osc, ev, c, pc)" rule: worker_step.cases) auto

context worker_pool
begin

lemma worker_get_books:
  assumes "worker_get env c = Some (c', pc')"
    and "abort_classes_ok c" "length (q_items (wc_queue c)) \<le> q_unfinished (wc_queue c)"
    and "\<forall>x \<in> set (q_items (wc_queue c)). qitem_ok x"
  shows "\<exists>taken new. step_books taken new c W_get c' pc'"
proof -
  obtain x q where get: "q_get (wc_queue c) = Some (x, q)"
    using assms(1) by (auto simp: worker_get_def split: option.splits)
  then have q: "q_items (wc_queue c) = x # q_items q" "q_maxsize q = q_maxsize (wc_queue c)"
    "q_unfinished q = q_unfinished (wc_queue c)"
    by (auto simp: q_get_def split: list.splits)
  have unf: "0 < q_unfinished q" and ok: "qitem_ok x"
    using assms(3,4) q by auto
  show ?thesis
  proof (cases x)
    case Q_shutdown
    then show ?thesis
      using assms(1) get q unf
      by (intro exI [of _ "[Q_shutdown]"] exI [of _ "[]"])
        (auto simp: worker_get_def step_books_def item_finished_eq tally_def calls_made_def)
  next
    case (Q_parsed p)
    show ?thesis
    proof (cases p)
      case (P_item it)
      have "handles 1 it (c\<lparr>wc_queue := q\<rparr>) (item_top env (c\<lparr>wc_queue := q\<rparr>) it 0)"
        using unf assms(2) by (intro item_top_handles) (simp_all add: abort_classes_ok_def)
      moreover have "item_top env (c\<lparr>wc_queue := q\<rparr>) it 0 = (c', pc')"
        using assms(1) get Q_parsed P_item by (simp add: worker_get_def)
      ultimately have "handles 1 it (c\<lparr>wc_queue := q\<rparr>) (c', pc')"
        by simp
      from books_of_popped_item [OF this get [unfolded Q_parsed P_item]]
      show ?thesis by blast
    next
      case (P_error e)
      have "tally [S_error e] (c\<lparr>wc_queue := q\<rparr>) (resolve_error e (c\<lparr>wc_queue := q\<rparr>))"
        by (rule tally_resolve_error)
      then show ?thesis
        using assms(1) get q unf ok Q_parsed P_error
        by (intro exI [of _ "[Q_parsed (P_error e)]"] exI [of _ "[S_error e]"])
          (auto simp: worker_get_def step_books_def item_finished_eq tally_def calls_made_def frame)
    qed
  qed
qed

lemma call_finished_fields:
  "wc_queue (call_finished c) = wc_queue c"
  by (simp add: call_finished_def)

text \<open>The step lemma: the item a worker holds is held on, emitted once, or lost to a cancellation.\<close>

lemma worker_step_books:
  assumes step: "worker_step xr pf osc ev c pc = Some (c', pc')"
    and pc: "pc_ok pc" and classes: "abort_classes_ok c"
    and unf: "length (q_items (wc_queue c)) + length (in_hand pc) \<le> q_unfinished (wc_queue c)"
    and items: "\<forall>x \<in> set (q_items (wc_queue c)). qitem_ok x"
  shows "\<exists>taken new. step_books taken new c pc c' pc'"
proof -
  have keep: ?thesis if "handles (owed pc) it c (c', pc')" "in_hand pc = [it]" "flying pc = 0" for it
    using books_of_handles [OF that] by blast
  have call: ?thesis if "handles 0 it (call_finished c) (c', pc')" "pc = W_call it a s" for it a s
    using books_of_call [OF that(1)] that(2) by blast
  show ?thesis
    using assms
  proof (cases "(xr, pf, osc, ev, c, pc)" rule: worker_step.cases)
    case (1 xr pf osc env c)
    then show ?thesis using step unf classes items by (auto intro!: worker_get_books)
  next
    case (2 xr pf osc env c it a)
    then show ?thesis
      using step unf classes pc item_top_handles [of c a it env] by (intro keep [of it]) auto
  next
    case (3 xr pf osc env c it a w)
    then show ?thesis
      using step pc acquire_pass_handles [of a it c env] by (intro keep [of it]) auto
  next
    case (4 xr' pf' osc' env oc c1 it a start)
    then have eqs: "pc = W_call it a start" "ev = E_outcome env oc" by simp_all
    have u: "0 < q_unfinished (wc_queue (call_finished c))"
      using unf eqs by (simp add: call_finished_fields)
    have a: "1 \<le> a" "a \<le> 8" using pc eqs by simp_all
    show ?thesis
    proof (rule call [OF _ eqs(1)])
      show "handles 0 it (call_finished c) (c', pc')"
        using step eqs after_call_handles [OF u a] cancelled_handles [OF u, of 0]
        by (cases oc) (simp_all add: Let_def, metis+)
    qed
  next
    case (5 xr pf osc env c it a fc k http sleeps)
    show ?thesis
    proof (cases "length sleeps \<le> 1")
      case True
      then show ?thesis
        using 5 step unf pc retry_or_exhaust_handles [of c a k fc it env http]
        by (intro keep [of it]) auto
    next
      case False
      then have "tl sleeps \<noteq> []" by (cases sleeps) auto
      then show ?thesis
        using 5 step pc False
        by (intro exI [of _ "[]"]) (auto simp: step_books_def tally_def)
    qed
  next
    case (6 xr pf osc env c it a d)
    then show ?thesis
      using step unf classes pc item_top_handles [of c a it env] by (intro keep [of it]) auto
  next
    case (7 xr pf osc e c it a)
    then show ?thesis
      using step unf escaped_handles [of c 1 it] by (intro keep [of it]) auto
  next
    case (8 xr pf osc e c it a w)
    then show ?thesis
      using step unf escaped_handles [of c 1 it] by (intro keep [of it]) auto
  next
    case (9 xr pf osc e c it a fc k http sleeps)
    then show ?thesis
      using step unf escaped_handles [of c 0 it] by (intro keep [of it]) auto
  next
    case (10 xr pf osc e c it a d)
    then show ?thesis
      using step unf escaped_handles [of c 1 it] by (intro keep [of it]) auto
  next
    case (11 xr pf osc c)
    then show ?thesis
      using step by (intro exI [of _ "[]"]) (auto simp: step_books_def tally_def)
  next
    case (12 xr pf osc c it a)
    then show ?thesis
      using step unf cancelled_handles [of c 1 it] by (intro keep [of it]) auto
  next
    case (13 xr pf osc c it a w)
    then show ?thesis
      using step unf cancelled_handles [of c 1 it] by (intro keep [of it]) auto
  next
    case (14 xr' pf' osc' c1 it a start)
    then show ?thesis
      using step unf cancelled_handles [of "call_finished c" 0 it]
      by (intro call [of it a start]) (auto simp: call_finished_fields)
  next
    case (15 xr pf osc c it a fc k http sleeps)
    then show ?thesis
      using step unf cancelled_handles [of c 0 it] by (intro keep [of it]) auto
  next
    case (16 xr pf osc c it a d)
    then show ?thesis
      using step unf cancelled_handles [of c 1 it] by (intro keep [of it]) auto
  qed auto
qed

lemma sound_call_finished: "sound dumps c \<Longrightarrow> sound dumps (call_finished c)"
  by (auto simp: call_finished_def sound_def wctx_ok_def sink_linked_def abort_classes_ok_def)

lemma sound_set_queue: "sound dumps c \<Longrightarrow> sound dumps (c\<lparr>wc_queue := q\<rparr>)"
  by (auto simp: sound_def wctx_ok_def sink_linked_def abort_classes_ok_def)

lemma worker_get_sound:
  "worker_get env c = Some r \<Longrightarrow> sound dumps c \<Longrightarrow> sound dumps (fst r)"
  by (auto simp: worker_get_def Let_def sound_item_finished sound_item_top sound_resolve_error
      sound_set_queue split: option.splits qitem.splits parsed.splits)

lemma worker_step_sound:
  assumes "worker_step xr pf osc ev c pc = Some r" "sound dumps c"
  shows "sound dumps (fst r)"
  using assms
  by (cases "(xr, pf, osc, ev, c, pc)" rule: worker_step.cases)
    (auto simp: Let_def worker_get_sound sound_item_finished sound_item_top sound_acquire_pass
      sound_after_call sound_retry_or_exhaust sound_escaped sound_call_finished
      split: provider_outcome.splits if_splits)

end

end
