(* ===== verification/Scheduler.thy ===== *)
theory Scheduler
  imports WorkerStep
begin

text \<open>
  \<open>core/scheduler.py\<close>: one job from \<open>JobRunner.run\<close> to its terminal record.  The state of a job
  is the shared worker context, the control states of the runner and of every worker, what is
  left of the input, and the record.  The runner, the workers, the sink's writer and a caller of
  \<open>cancel\<close> take turns: \<open>sys_step\<close> is one turn, an executable function of a label that says whose
  turn it is and what it reads.

  \<open>record.counts\<close>, \<open>record.usage\<close> and \<open>record.errors_by_class\<close> are the same objects as in the worker
  context; they live in the context, and \<open>the_record\<close> puts them back into the record.  The input
  is the sequence \<open>stream_items\<close> yields and the exception it may end with.  \<open>store.save\<close> is a call
  on the store interface; \<open>js_saves\<close> keeps the records passed to it.
\<close>

section \<open>Parameters of a run\<close>

text \<open>Text of floats (\<open>fmt spec x\<close>), text of exceptions, \<open>float(str)\<close>, \<open>json.dumps\<close> and the provider's
  prices.\<close>

record job_env =
  je_fmt :: "string \<Rightarrow> pyfloat \<Rightarrow> string"
  je_exn_repr :: "py_exn \<Rightarrow> string"
  je_parse_float :: "string \<Rightarrow> pyfloat option"
  je_dumps :: "json \<Rightarrow> string"
  je_prices :: provider_prices

definition queue_multiplier :: nat where "queue_multiplier = 4"
definition status_persist_every :: int where "status_persist_every = 25"

definition default_concurrency :: "int \<Rightarrow> int" where
  "default_concurrency rate_limit_rpm =
     (let rate_rps = of_int rate_limit_rpm / 60 in max 2 \<lceil>rate_rps * (2 :: pyfloat)\<rceil>)"

definition job_concurrency :: "job_config \<Rightarrow> int \<Rightarrow> nat" where
  "job_concurrency config rate_limit_rpm =
     nat (py_or_int (jc_concurrency config) (default_concurrency rate_limit_rpm))"

definition usage_cost :: "provider_prices \<Rightarrow> usage_totals \<Rightarrow> pyfloat" where
  "usage_cost prices u =
     of_int (ut_input_tokens u) / 1000000 * cost_per_1m_input prices
     + of_int (ut_output_tokens u) / 1000000 * cost_per_1m_output prices"

section \<open>The spend check\<close>

definition spend_exceeded :: "provider_prices \<Rightarrow> wctx \<Rightarrow> bool" where
  "spend_exceeded prices ctx =
     (let done = succeeded (wc_counts ctx) + failed (wc_counts ctx);
          cost_so_far = usage_cost prices (wc_usage ctx);
          items_total_estimate = max (ingested (wc_counts ctx)) done;
          projected = cost_so_far / of_int done * of_int items_total_estimate;
          cap = jc_max_job_spend_usd (wc_config ctx)
      in cap \<le> cost_so_far \<or> cap \<le> projected)"

definition spend_reason :: "(string \<Rightarrow> pyfloat \<Rightarrow> string) \<Rightarrow> provider_prices \<Rightarrow> wctx \<Rightarrow> string" where
  "spend_reason fmt prices ctx =
     (let done = succeeded (wc_counts ctx) + failed (wc_counts ctx);
          cost_so_far = usage_cost prices (wc_usage ctx);
          projected = cost_so_far / of_int done * of_int (max (ingested (wc_counts ctx)) done)
      in ''spend guard: cost $'' @ fmt ''.4f'' cost_so_far @ '' / projected $'' @
         fmt ''.4f'' projected @ '' >= cap $'' @ fmt [] (jc_max_job_spend_usd (wc_config ctx)))"

definition on_spend_check ::
    "(string \<Rightarrow> pyfloat \<Rightarrow> string) \<Rightarrow> provider_prices \<Rightarrow> wctx \<Rightarrow> wctx" where
  "on_spend_check fmt prices ctx =
     (let done = succeeded (wc_counts ctx) + failed (wc_counts ctx) in
      if done = 0 \<or> done mod 50 \<noteq> 0 then ctx
      else if spend_exceeded prices ctx then
        (let ctx = (if \<not> wc_abort_event ctx
                    then ctx\<lparr>wc_abort_reason := wc_abort_reason ctx @ [spend_reason fmt prices ctx]\<rparr>
                    else ctx)
         in ctx\<lparr>wc_abort_event := True\<rparr>)
      else ctx)"

interpretation pool: worker_pool "on_spend_check fmt prices" for fmt prices
  by unfold_locales (auto simp: on_spend_check_def Let_def)

section \<open>State of a job\<close>

datatype run_pc =
    R_ingest
  | R_put parsed
  | R_persist
  | R_shutdown nat "py_exn option"
  | R_gather "py_exn option"
  | R_closing "py_exn option"
  | R_finish
  | R_done
  | R_raised py_exn

record job_sys =
  js_ctx :: wctx
  js_run :: run_pc
  js_workers :: "wpc list"
  js_rows :: "parsed list"
  js_source_error :: "py_exn option"
  js_record :: job_record
  js_saves :: "job_record list"

definition the_record :: "job_sys \<Rightarrow> job_record" where
  "the_record s =
     (js_record s)\<lparr>jr_counts := wc_counts (js_ctx s), jr_usage := wc_usage (js_ctx s),
       jr_errors_by_class := wc_errors_by_class (js_ctx s)\<rparr>"

definition save_record :: "job_sys \<Rightarrow> job_sys" where
  "save_record s = s\<lparr>js_saves := js_saves s @ [the_record s]\<rparr>"

definition job_controller :: "int \<Rightarrow> pyfloat \<Rightarrow> adaptive_controller" where
  "job_controller rate_limit_rpm now =
     (let rate_rps = of_int rate_limit_rpm / 60;
          bucket = new_token_bucket rate_rps (max 2 rate_rps) now
      in new_controller bucket (max (1 / 20) (rate_rps * (1 / 10))) (rate_rps * (3 / 2)))"

text \<open>The start of \<open>run\<close>, up to the creation of the worker tasks.  \<open>prior\<close> is what the result file holds
  already; the clock is read for the bucket and for the sink.\<close>

definition start_run ::
    "job_record \<Rightarrow> int \<Rightarrow> pyfloat \<Rightarrow> pyfloat \<Rightarrow> pyfloat \<Rightarrow> string \<Rightarrow> pyfloat \<Rightarrow> pyfloat
      \<Rightarrow> parsed list \<Rightarrow> py_exn option \<Rightarrow> job_sys" where
  "start_run record rate_limit_rpm circuit_cooldown retry_base retry_cap prior now_bucket now_sink
       rows source_error =
     (let config = jr_config record;
          concurrency = job_concurrency config rate_limit_rpm;
          record = record\<lparr>jr_status := JS_RUNNING\<rparr>;
          ctx = \<lparr>wc_job_id = jr_job_id record,
                 wc_queue = new_queue (concurrency * queue_multiplier),
                 wc_controller = job_controller rate_limit_rpm now_bucket,
                 wc_breaker = new_circuit_breaker circuit_cooldown,
                 wc_budget = new_retry_budget 1,
                 wc_sink = sink_start prior now_sink,
                 wc_counts = jr_counts record, wc_usage = jr_usage record,
                 wc_errors_by_class = jr_errors_by_class record,
                 wc_config = config, wc_abort_event = False, wc_cancel_event = False,
                 wc_retry_base_s = retry_base, wc_retry_cap_s = retry_cap,
                 wc_abort_reason = [], wc_abort_class = [], wc_emitted = [], wc_calls = []\<rparr>
      in save_record
           \<lparr>js_ctx = ctx, js_run = R_ingest, js_workers = replicate concurrency W_get,
            js_rows = rows, js_source_error = source_error, js_record = record, js_saves = []\<rparr>)"

section \<open>Ingestion and dispatch\<close>

definition current_backpressure :: "wctx \<Rightarrow> json pydict" where
  "current_backpressure ctx =
     dict_set ''retry_budget_remaining'' (JInt (rb_remaining (wc_budget ctx)))
       (snapshot_asdict (ac_snapshot (wc_controller ctx) (cb_state_value (cb_state (wc_breaker ctx)))))"

definition begin_shutdown :: "py_exn option \<Rightarrow> job_sys \<Rightarrow> job_sys" where
  "begin_shutdown e s = s\<lparr>js_run := R_shutdown (length (js_workers s)) e\<rparr>"

text \<open>The next row of the generator: stop on cancellation or abort, otherwise count it and queue it.\<close>

definition ingest_next :: "job_sys \<Rightarrow> job_sys" where
  "ingest_next s =
     (case js_rows s of
        [] \<Rightarrow> begin_shutdown (js_source_error s) s
      | p # ps \<Rightarrow>
          (let ctx = js_ctx s in
           if wc_cancel_event ctx \<or> wc_abort_event ctx
           then begin_shutdown None (s\<lparr>js_rows := ps\<rparr>)
           else
             (let counts = (wc_counts ctx)\<lparr>ingested := ingested (wc_counts ctx) + 1,
                                           pending := pending (wc_counts ctx) + 1\<rparr>;
                  budget = (wc_budget ctx)\<lparr>rb_total_items := ingested counts\<rparr>
              in s\<lparr>js_rows := ps, js_run := R_put p,
                   js_ctx := ctx\<lparr>wc_counts := counts, wc_budget := budget\<rparr>\<rparr>)))"

definition after_persist :: "job_sys \<Rightarrow> job_sys" where
  "after_persist s =
     (case jc_max_items (wc_config (js_ctx s)) of
        Some m \<Rightarrow> if m \<le> ingested (wc_counts (js_ctx s)) then begin_shutdown None s
                  else s\<lparr>js_run := R_ingest\<rparr>
      | None \<Rightarrow> s\<lparr>js_run := R_ingest\<rparr>)"

definition ingest_put :: "parsed \<Rightarrow> job_sys \<Rightarrow> job_sys option" where
  "ingest_put p s =
     (case q_put (Q_parsed p) (wc_queue (js_ctx s)) of
        None \<Rightarrow> None
      | Some q \<Rightarrow>
          (let s = s\<lparr>js_ctx := (js_ctx s)\<lparr>wc_queue := q\<rparr>\<rparr> in
           if ingested (wc_counts (js_ctx s)) mod status_persist_every = 0
           then Some (save_record (s\<lparr>js_run := R_persist,
                  js_record := (js_record s)\<lparr>jr_backpressure := current_backpressure (js_ctx s)\<rparr>\<rparr>))
           else Some (after_persist s)))"

section \<open>Shutdown and the terminal record\<close>

definition put_shutdown :: "nat \<Rightarrow> py_exn option \<Rightarrow> job_sys \<Rightarrow> job_sys option" where
  "put_shutdown k e s =
     (case q_put Q_shutdown (wc_queue (js_ctx s)) of
        None \<Rightarrow> None
      | Some q \<Rightarrow> Some (s\<lparr>js_ctx := (js_ctx s)\<lparr>wc_queue := q\<rparr>, js_run := R_shutdown k e\<rparr>))"

fun worker_finished :: "wpc \<Rightarrow> bool" where
  "worker_finished W_done = True"
| "worker_finished (W_cancelled x) = True"
| "worker_finished (W_crashed e) = True"
| "worker_finished _ = False"

definition gather_workers :: "py_exn option \<Rightarrow> job_sys \<Rightarrow> job_sys option" where
  "gather_workers e s =
     (if list_all worker_finished (js_workers s)
      then Some (s\<lparr>js_ctx := (js_ctx s)\<lparr>wc_sink := sink_close_begin (wc_sink (js_ctx s))\<rparr>,
                   js_run := R_closing e\<rparr>)
      else None)"

definition close_sink :: "py_exn option \<Rightarrow> job_sys \<Rightarrow> job_sys option" where
  "close_sink e s =
     (case sink_close_end (wc_sink (js_ctx s)) of
        None \<Rightarrow> None
      | Some k \<Rightarrow>
          Some (s\<lparr>js_ctx := (js_ctx s)\<lparr>wc_sink := k\<rparr>,
                  js_run := (case e of None \<Rightarrow> R_finish | Some x \<Rightarrow> R_raised x)\<rparr>))"

definition final_status :: "bool \<Rightarrow> bool \<Rightarrow> job_counts \<Rightarrow> job_status" where
  "final_status cancelled aborted counts =
     (if cancelled then JS_CANCELLED
      else if aborted then JS_FAILED
      else if ingested counts = 0 then JS_SUCCEEDED
      else if failed counts = 0 then JS_SUCCEEDED
      else if succeeded counts = 0 then JS_FAILED
      else JS_PARTIAL)"

definition finish_job :: "provider_prices \<Rightarrow> pyfloat \<Rightarrow> job_sys \<Rightarrow> job_sys" where
  "finish_job prices now s =
     (let ctx = js_ctx s;
          cost = usage_cost prices (wc_usage ctx);
          ctx' = ctx\<lparr>wc_usage := (wc_usage ctx)\<lparr>ut_estimated_cost_usd := cost\<rparr>\<rparr>;
          r = js_record s;
          r = r\<lparr>jr_timing := (jr_timing r)\<lparr>jt_finished_at := Some now\<rparr>,
                jr_backpressure := current_backpressure ctx,
                jr_status := final_status (wc_cancel_event ctx) (wc_abort_event ctx) (wc_counts ctx)\<rparr>;
          r = (case wc_abort_reason ctx of
                 x # _ \<Rightarrow> if wc_abort_event ctx then r\<lparr>jr_abort_reason := Some x\<rparr> else r
               | [] \<Rightarrow> r);
          s = s\<lparr>js_ctx := ctx', js_record := r\<rparr>
      in if conserved (wc_counts ctx) then save_record (s\<lparr>js_run := R_done\<rparr>)
         else s\<lparr>js_run := R_raised Assertion_error\<rparr>)"

fun run_step :: "provider_prices \<Rightarrow> pyfloat \<Rightarrow> run_pc \<Rightarrow> job_sys \<Rightarrow> job_sys option" where
  "run_step prices now R_ingest s = Some (ingest_next s)"
| "run_step prices now (R_put p) s = ingest_put p s"
| "run_step prices now R_persist s = Some (after_persist s)"
| "run_step prices now (R_shutdown 0 e) s = Some (s\<lparr>js_run := R_gather e\<rparr>)"
| "run_step prices now (R_shutdown (Suc k) e) s = put_shutdown k e s"
| "run_step prices now (R_gather e) s = gather_workers e s"
| "run_step prices now (R_closing e) s = close_sink e s"
| "run_step prices now R_finish s = Some (finish_job prices now s)"
| "run_step prices now R_done s = None"
| "run_step prices now (R_raised e) s = None"

section \<open>The whole job\<close>

datatype label =
    L_run pyfloat
  | L_worker nat wevent
  | L_sink pyfloat
  | L_sink_timeout pyfloat
  | L_cancel

definition cancel_job_event :: "job_sys \<Rightarrow> job_sys" where
  "cancel_job_event s = s\<lparr>js_ctx := (js_ctx s)\<lparr>wc_cancel_event := True\<rparr>\<rparr>"

definition worker_turn :: "job_env \<Rightarrow> nat \<Rightarrow> wevent \<Rightarrow> job_sys \<Rightarrow> job_sys option" where
  "worker_turn E i ev s =
     (if i < length (js_workers s) then
        (case worker_step (je_exn_repr E) (je_parse_float E)
                (on_spend_check (je_fmt E) (je_prices E)) ev (js_ctx s) (js_workers s ! i) of
           None \<Rightarrow> None
         | Some (c, pc) \<Rightarrow> Some (s\<lparr>js_ctx := c, js_workers := (js_workers s)[i := pc]\<rparr>))
      else None)"

definition sink_turn_of :: "result_sink option \<Rightarrow> job_sys \<Rightarrow> job_sys option" where
  "sink_turn_of k s =
     (case k of None \<Rightarrow> None | Some sk \<Rightarrow> Some (s\<lparr>js_ctx := (js_ctx s)\<lparr>wc_sink := sk\<rparr>\<rparr>))"

fun sys_step :: "job_env \<Rightarrow> label \<Rightarrow> job_sys \<Rightarrow> job_sys option" where
  "sys_step E (L_run now) s = run_step (je_prices E) now (js_run s) s"
| "sys_step E (L_worker i ev) s = worker_turn E i ev s"
| "sys_step E (L_sink now) s = sink_turn_of (sink_turn (je_dumps E) now (wc_sink (js_ctx s))) s"
| "sys_step E (L_sink_timeout now) s = sink_turn_of (sink_timeout now (wc_sink (js_ctx s))) s"
| "sys_step E L_cancel s = Some (cancel_job_event s)"

inductive reachable :: "job_env \<Rightarrow> job_sys \<Rightarrow> job_sys \<Rightarrow> bool" for E s0 where
  start: "reachable E s0 s0"
| step: "reachable E s0 s \<Longrightarrow> sys_step E l s = Some s' \<Longrightarrow> reachable E s0 s'"

inductive_cases reachableE: "reachable E s0 s"

text \<open>A run along given labels, for examples.\<close>

fun sys_run :: "job_env \<Rightarrow> label list \<Rightarrow> job_sys \<Rightarrow> job_sys option" where
  "sys_run E [] s = Some s"
| "sys_run E (l # ls) s =
     (case sys_step E l s of None \<Rightarrow> None | Some s' \<Rightarrow> sys_run E ls s')"

lemma sys_run_reachable: "sys_run E ls s = Some s' \<Longrightarrow> reachable E s0 s \<Longrightarrow> reachable E s0 s'"
  by (induction ls arbitrary: s) (auto split: option.splits intro: reachable.step)

end
