(* ===== verification/Store.thy ===== *)
theory Store
  imports Models PyJson
begin

text \<open>
  The job stores: the Protocol of \<open>store/base.py\<close> as the locale \<open>job_store\<close>, the dictionary of
  \<open>store/memory.py\<close>, and \<open>store/sqlite.py\<close> with its conversion between records and JSON text.

  The table \<open>jobs(job_id PRIMARY KEY, data)\<close> is a dictionary; each statement of the source commits
  by itself.  \<open>json.dumps\<close> and \<open>json.loads\<close> are arguments; the theorems take them from \<open>PyJson\<close>.  The
  dataclass constructors do not
  check the types of what they are given; a document with a value of another type, which \<open>save\<close>
  never writes, is a \<open>TypeError\<close> here.  The memory store keeps the record objects themselves: records
  live at addresses of a heap, the dictionary holds addresses, and a reader sees what the object holds
  when it reads.
\<close>

section \<open>The interface\<close>

locale job_store =
  fixes save :: "'r \<Rightarrow> 's \<Rightarrow> 's"
    and get :: "string \<Rightarrow> 's \<Rightarrow> py_exn + job_record option"
    and list_ids :: "'s \<Rightarrow> string list"
    and contents :: "'r \<Rightarrow> job_record"
    and storable :: "'r \<Rightarrow> bool"
  assumes get_saved: "storable r \<Longrightarrow> get (jr_job_id (contents r)) (save r s) = Inr (Some (contents r))"
    and get_other: "k \<noteq> jr_job_id (contents r) \<Longrightarrow> get k (save r s) = get k s"
    and ids_saved: "list_ids (save r s) =
      (if jr_job_id (contents r) \<in> set (list_ids s) then list_ids s
       else list_ids s @ [jr_job_id (contents r)])"
begin

text \<open>What a reader sees: a partial function from job ids to records.\<close>

definition view :: "'s \<Rightarrow> string \<Rightarrow> py_exn + job_record option" where
  "view s = (\<lambda>k. get k s)"

lemma save_refines_update:
  "storable r \<Longrightarrow> view (save r s) = (view s)(jr_job_id (contents r) := Inr (Some (contents r)))"
  by (rule ext) (simp add: view_def get_saved get_other)

text \<open>A history of saves, with no change to the records in between, leaves the last record of each job.\<close>

lemma get_after_saves:
  assumes "list_all storable rs"
  shows "get k (fold save rs s) =
    (case find (\<lambda>r. jr_job_id (contents r) = k) (rev rs) of
       None \<Rightarrow> get k s | Some r \<Rightarrow> Inr (Some (contents r)))"
  using assms
proof (induction rs arbitrary: s rule: rev_induct)
  case Nil
  then show ?case by simp
next
  case (snoc r rs)
  then show ?case
    by (cases "jr_job_id (contents r) = k") (auto simp: get_saved get_other)
qed

lemma ids_after_saves:
  "set (list_ids (fold save rs s)) = set (list_ids s) \<union> (\<lambda>r. jr_job_id (contents r)) ` set rs"
  by (induction rs arbitrary: s) (auto simp: ids_saved)

end

section \<open>The memory store\<close>

text \<open>Objects are named by numbers; the heap maps them to the record they hold now.\<close>

type_synonym heap = "nat \<Rightarrow> job_record"
type_synonym mem_store = "nat pydict"

definition mem_empty :: mem_store where "mem_empty = []"

definition mem_save :: "heap \<Rightarrow> nat \<Rightarrow> mem_store \<Rightarrow> mem_store" where
  "mem_save h a s = dict_set (jr_job_id (h a)) a s"

definition mem_create :: "heap \<Rightarrow> nat \<Rightarrow> mem_store \<Rightarrow> mem_store" where
  "mem_create h a s = dict_set (jr_job_id (h a)) a s"

text \<open>\<open>get\<close> returns the object; what its caller reads of it is what the heap holds.\<close>

definition mem_lookup :: "string \<Rightarrow> mem_store \<Rightarrow> nat option" where
  "mem_lookup k s = dict_get s k"

definition mem_get :: "heap \<Rightarrow> string \<Rightarrow> mem_store \<Rightarrow> job_record option" where
  "mem_get h k s = map_option h (mem_lookup k s)"

definition mem_list_ids :: "mem_store \<Rightarrow> string list" where
  "mem_list_ids s = map fst s"

lemma keys_dict_set:
  "map fst (dict_set k v d) = (if k \<in> set (map fst d) then map fst d else map fst d @ [k])"
  by (induction d) (auto simp: dict_set_def)

interpretation mem: job_store "mem_save h" "\<lambda>k s. Inr (mem_get h k s)" mem_list_ids h "\<lambda>a. True" for h
  by unfold_locales
    (simp_all add: mem_save_def mem_get_def mem_lookup_def mem_list_ids_def keys_dict_set del: set_map)

section \<open>Records as JSON\<close>

definition json_opt_str :: "string option \<Rightarrow> json" where
  "json_opt_str o' = (case o' of None \<Rightarrow> JNull | Some s \<Rightarrow> JStr s)"

definition json_opt_float :: "pyfloat option \<Rightarrow> json" where
  "json_opt_float o' = (case o' of None \<Rightarrow> JNull | Some x \<Rightarrow> JFloat x)"

text \<open>\<open>dataclasses.asdict\<close> of the parts of a record.\<close>

definition config_asdict :: "job_config \<Rightarrow> json pydict" where
  "config_asdict c =
     [(''input_path'', JStr (jc_input_path c)), (''model'', JStr (jc_model c)),
      (''max_tokens'', JInt (jc_max_tokens c)), (''concurrency'', json_opt_int (jc_concurrency c)),
      (''webhook_url'', json_opt_str (jc_webhook_url c)),
      (''max_job_spend_usd'', JFloat (jc_max_job_spend_usd c)),
      (''max_items'', json_opt_int (jc_max_items c))]"

definition counts_asdict :: "job_counts \<Rightarrow> json pydict" where
  "counts_asdict c =
     [(''ingested'', JInt (ingested c)), (''succeeded'', JInt (succeeded c)),
      (''failed'', JInt (failed c)), (''in_flight'', JInt (in_flight c)),
      (''pending'', JInt (pending c))]"

definition timing_asdict :: "job_timing \<Rightarrow> json pydict" where
  "timing_asdict t =
     [(''started_at'', JFloat (jt_started_at t)), (''finished_at'', json_opt_float (jt_finished_at t))]"

definition usage_asdict :: "usage_totals \<Rightarrow> json pydict" where
  "usage_asdict u =
     [(''input_tokens'', JInt (ut_input_tokens u)), (''output_tokens'', JInt (ut_output_tokens u)),
      (''estimated_cost_usd'', JFloat (ut_estimated_cost_usd u))]"

definition record_payload :: "job_record \<Rightarrow> json" where
  "record_payload r = JObj
     [(''job_id'', JStr (jr_job_id r)), (''config'', JObj (config_asdict (jr_config r))),
      (''status'', JStr (js_value (jr_status r))), (''submitted_at'', JFloat (jr_submitted_at r)),
      (''counts'', JObj (counts_asdict (jr_counts r))), (''timing'', JObj (timing_asdict (jr_timing r))),
      (''usage'', JObj (usage_asdict (jr_usage r))), (''backpressure'', JObj (jr_backpressure r)),
      (''errors_by_class'', JObj (map (\<lambda>(k, n). (k, JInt n)) (jr_errors_by_class r))),
      (''result_path'', JStr (jr_result_path r)),
      (''abort_reason'', json_opt_str (jr_abort_reason r))]"

definition record_to_json :: "(json \<Rightarrow> string) \<Rightarrow> job_record \<Rightarrow> string" where
  "record_to_json dumps r = dumps (record_payload r)"

section \<open>Records from JSON\<close>

fun as_str :: "json \<Rightarrow> py_exn + string" where
  "as_str (JStr s) = Inr s" | "as_str _ = Inl Type_error"

fun as_int :: "json \<Rightarrow> py_exn + int" where
  "as_int (JInt i) = Inr i" | "as_int _ = Inl Type_error"

definition as_num :: "json \<Rightarrow> py_exn + pyfloat" where
  "as_num v = (case json_num v of Some x \<Rightarrow> Inr x | None \<Rightarrow> Inl Type_error)"

fun as_obj :: "json \<Rightarrow> py_exn + json pydict" where
  "as_obj (JObj d) = Inr d" | "as_obj _ = Inl Type_error"

definition as_opt :: "(json \<Rightarrow> py_exn + 'a) \<Rightarrow> json \<Rightarrow> py_exn + 'a option" where
  "as_opt f v = (if v = JNull then Inr None else and_then (f v) (\<lambda>x. Inr (Some x)))"

text \<open>A constructor call \<open>C(**d)\<close>: an unknown keyword is a \<open>TypeError\<close>, and so is a missing argument
  without a default; a missing one with a default takes it.\<close>

definition known_keywords :: "string list \<Rightarrow> json pydict \<Rightarrow> py_exn + unit" where
  "known_keywords ks d = (if set (map fst d) \<subseteq> set ks then Inr () else Inl Type_error)"

definition required :: "(json \<Rightarrow> py_exn + 'a) \<Rightarrow> string \<Rightarrow> json pydict \<Rightarrow> py_exn + 'a" where
  "required f k d = (case dict_get d k of None \<Rightarrow> Inl Type_error | Some v \<Rightarrow> f v)"

definition defaulted :: "(json \<Rightarrow> py_exn + 'a) \<Rightarrow> 'a \<Rightarrow> string \<Rightarrow> json pydict \<Rightarrow> py_exn + 'a" where
  "defaulted f x k d = (case dict_get d k of None \<Rightarrow> Inr x | Some v \<Rightarrow> f v)"

definition config_of_dict :: "json pydict \<Rightarrow> py_exn + job_config" where
  "config_of_dict d =
     and_then (known_keywords [''input_path'', ''model'', ''max_tokens'', ''concurrency'',
         ''webhook_url'', ''max_job_spend_usd'', ''max_items''] d) (\<lambda>_.
     and_then (required as_str ''input_path'' d) (\<lambda>input_path.
     and_then (required as_str ''model'' d) (\<lambda>model.
     and_then (required as_int ''max_tokens'' d) (\<lambda>max_tokens.
     and_then (required (as_opt as_int) ''concurrency'' d) (\<lambda>concurrency.
     and_then (defaulted (as_opt as_str) None ''webhook_url'' d) (\<lambda>webhook_url.
     and_then (defaulted as_num (1 / 4) ''max_job_spend_usd'' d) (\<lambda>max_job_spend_usd.
     and_then (defaulted (as_opt as_int) None ''max_items'' d) (\<lambda>max_items.
       Inr \<lparr>jc_input_path = input_path, jc_model = model, jc_max_tokens = max_tokens,
            jc_concurrency = concurrency, jc_webhook_url = webhook_url,
            jc_max_job_spend_usd = max_job_spend_usd, jc_max_items = max_items\<rparr>))))))))"

definition counts_of_dict :: "json pydict \<Rightarrow> py_exn + job_counts" where
  "counts_of_dict d =
     and_then (known_keywords [''ingested'', ''succeeded'', ''failed'', ''in_flight'', ''pending''] d) (\<lambda>_.
     and_then (defaulted as_int 0 ''ingested'' d) (\<lambda>i.
     and_then (defaulted as_int 0 ''succeeded'' d) (\<lambda>s.
     and_then (defaulted as_int 0 ''failed'' d) (\<lambda>f.
     and_then (defaulted as_int 0 ''in_flight'' d) (\<lambda>fl.
     and_then (defaulted as_int 0 ''pending'' d) (\<lambda>p.
       Inr \<lparr>ingested = i, succeeded = s, failed = f, in_flight = fl, pending = p\<rparr>))))))"

text \<open>\<open>started_at\<close> defaults to the clock.\<close>

definition timing_of_dict :: "pyfloat \<Rightarrow> json pydict \<Rightarrow> py_exn + job_timing" where
  "timing_of_dict now d =
     and_then (known_keywords [''started_at'', ''finished_at''] d) (\<lambda>_.
     and_then (defaulted as_num now ''started_at'' d) (\<lambda>started.
     and_then (defaulted (as_opt as_num) None ''finished_at'' d) (\<lambda>finished.
       Inr \<lparr>jt_started_at = started, jt_finished_at = finished\<rparr>)))"

definition usage_of_dict :: "json pydict \<Rightarrow> py_exn + usage_totals" where
  "usage_of_dict d =
     and_then (known_keywords [''input_tokens'', ''output_tokens'', ''estimated_cost_usd''] d) (\<lambda>_.
     and_then (defaulted as_int 0 ''input_tokens'' d) (\<lambda>i.
     and_then (defaulted as_int 0 ''output_tokens'' d) (\<lambda>out.
     and_then (defaulted as_num 0 ''estimated_cost_usd'' d) (\<lambda>c.
       Inr \<lparr>ut_input_tokens = i, ut_output_tokens = out, ut_estimated_cost_usd = c\<rparr>))))"

fun int_values :: "json pydict \<Rightarrow> py_exn + int pydict" where
  "int_values [] = Inr []"
| "int_values ((k, v) # d) =
     and_then (as_int v) (\<lambda>i. and_then (int_values d) (\<lambda>d'. Inr ((k, i) # d')))"

definition status_of_json :: "json \<Rightarrow> py_exn + job_status" where
  "status_of_json v =
     (case v of JStr s \<Rightarrow> (case js_of_value s of None \<Rightarrow> Inl Value_error | Some c \<Rightarrow> Inr c)
      | _ \<Rightarrow> Inl Value_error)"

text \<open>\<open>d[k]\<close>, read as a value of the expected type.\<close>

definition field :: "(json \<Rightarrow> py_exn + 'a) \<Rightarrow> string \<Rightarrow> json pydict \<Rightarrow> py_exn + 'a" where
  "field f k d = and_then (dict_item d k) f"

definition record_of_dict :: "pyfloat \<Rightarrow> json pydict \<Rightarrow> py_exn + job_record" where
  "record_of_dict now d =
     and_then (field as_str ''job_id'' d) (\<lambda>job_id.
     and_then (and_then (field as_obj ''config'' d) config_of_dict) (\<lambda>config.
     and_then (field status_of_json ''status'' d) (\<lambda>status.
     and_then (field as_num ''submitted_at'' d) (\<lambda>submitted_at.
     and_then (and_then (field as_obj ''counts'' d) counts_of_dict) (\<lambda>counts.
     and_then (and_then (field as_obj ''timing'' d) (timing_of_dict now)) (\<lambda>timing.
     and_then (and_then (field as_obj ''usage'' d) usage_of_dict) (\<lambda>usage.
     and_then (field as_obj ''backpressure'' d) (\<lambda>backpressure.
     and_then (and_then (field as_obj ''errors_by_class'' d) int_values) (\<lambda>errors.
     and_then (field as_str ''result_path'' d) (\<lambda>result_path.
     and_then (field (as_opt as_str) ''abort_reason'' d) (\<lambda>abort_reason.
       Inr \<lparr>jr_job_id = job_id, jr_config = config, jr_status = status,
            jr_submitted_at = submitted_at, jr_counts = counts, jr_timing = timing,
            jr_usage = usage, jr_backpressure = backpressure, jr_errors_by_class = errors,
            jr_result_path = result_path, jr_abort_reason = abort_reason\<rparr>)))))))))))"

definition record_from_json ::
    "(string \<Rightarrow> json option) \<Rightarrow> pyfloat \<Rightarrow> string \<Rightarrow> py_exn + job_record" where
  "record_from_json loads now raw =
     (case loads raw of
        None \<Rightarrow> Inl (JSON_decode_error raw)
      | Some v \<Rightarrow> and_then (as_obj v) (record_of_dict now))"

section \<open>The round trip\<close>

lemma as_simps [simp]:
  "as_num (JFloat x) = Inr x" "as_num (JInt i) = Inr (of_int i)"
  "as_opt as_int (json_opt_int i') = Inr i'" "as_opt as_str (json_opt_str s') = Inr s'"
  "as_opt as_num (json_opt_float x') = Inr x'"
  by (auto simp: as_num_def as_opt_def json_opt_int_def json_opt_str_def json_opt_float_def
      split: option.split)

lemma config_roundtrip: "config_of_dict (config_asdict c) = Inr c"
  by (simp add: config_of_dict_def config_asdict_def known_keywords_def required_def defaulted_def
      dict_get_def)

lemma counts_roundtrip: "counts_of_dict (counts_asdict c) = Inr c"
  by (simp add: counts_of_dict_def counts_asdict_def known_keywords_def defaulted_def dict_get_def)

lemma timing_roundtrip: "timing_of_dict now (timing_asdict t) = Inr t"
  by (simp add: timing_of_dict_def timing_asdict_def known_keywords_def defaulted_def dict_get_def)

lemma usage_roundtrip: "usage_of_dict (usage_asdict u) = Inr u"
  by (simp add: usage_of_dict_def usage_asdict_def known_keywords_def defaulted_def dict_get_def)

lemma int_values_map [simp]: "int_values (map (\<lambda>(k, n). (k, JInt n)) d) = Inr d"
  by (induction d) auto

lemma status_roundtrip [simp]: "status_of_json (JStr (js_value c)) = Inr c"
  by (simp add: status_of_json_def)

lemma payload_roundtrip: "and_then (as_obj (record_payload r)) (record_of_dict now) = Inr r"
  by (simp add: record_payload_def record_of_dict_def field_def dict_item_def dict_get_def
      config_roundtrip counts_roundtrip timing_roundtrip usage_roundtrip)

section \<open>The SQLite store\<close>

text \<open>The rows of the table, keyed by \<open>job_id\<close>.  \<open>init\<close> creates the table where the database does not hold
  one yet.\<close>

type_synonym sqlite_db = "string pydict"

definition sqlite_init :: "sqlite_db option \<Rightarrow> sqlite_db" where
  "sqlite_init table = (case table of None \<Rightarrow> [] | Some db \<Rightarrow> db)"

definition sqlite_save :: "(json \<Rightarrow> string) \<Rightarrow> job_record \<Rightarrow> sqlite_db \<Rightarrow> sqlite_db" where
  "sqlite_save dumps r db = dict_set (jr_job_id r) (record_to_json dumps r) db"

definition sqlite_create :: "(json \<Rightarrow> string) \<Rightarrow> job_record \<Rightarrow> sqlite_db \<Rightarrow> sqlite_db" where
  "sqlite_create dumps r db = sqlite_save dumps r db"

definition sqlite_get ::
    "(string \<Rightarrow> json option) \<Rightarrow> pyfloat \<Rightarrow> string \<Rightarrow> sqlite_db \<Rightarrow> py_exn + job_record option" where
  "sqlite_get loads now k db =
     (case dict_get db k of
        None \<Rightarrow> Inr None
      | Some raw \<Rightarrow> and_then (record_from_json loads now raw) (\<lambda>r. Inr (Some r)))"

definition sqlite_list_ids :: "sqlite_db \<Rightarrow> string list" where
  "sqlite_list_ids db = map fst db"

text \<open>The records whose document the \<open>json\<close> module reads back.\<close>

definition storable :: "(json \<Rightarrow> string) \<Rightarrow> (string \<Rightarrow> json option) \<Rightarrow> job_record \<Rightarrow> bool" where
  "storable dumps loads r \<longleftrightarrow> loads (record_to_json dumps r) = Some (record_payload r)"

lemma record_from_to: "storable dumps loads r \<Longrightarrow>
    record_from_json loads now (record_to_json dumps r) = Inr r"
  by (simp add: record_from_json_def storable_def payload_roundtrip)

text \<open>For Python's \<open>json\<close> module these are all records: the keys of a dictionary are distinct.\<close>

definition record_dicts_ok :: "job_record \<Rightarrow> bool" where
  "record_dicts_ok r \<longleftrightarrow> json_ok (JObj (jr_backpressure r)) \<and> dict_ok (jr_errors_by_class r)"

lemma payload_json_ok: "record_dicts_ok r \<Longrightarrow> json_ok (record_payload r)"
  by (auto simp: record_dicts_ok_def record_payload_def config_asdict_def counts_asdict_def timing_asdict_def
      usage_asdict_def json_opt_int_def json_opt_str_def json_opt_float_def dict_ok_def list_all_iff o_def
      case_prod_beta split: option.split)

lemma storable_python:
  "repr_faithful repr pf \<Longrightarrow> record_dicts_ok r \<Longrightarrow> storable (json_dumps repr) (json_loads pf) r"
  by (simp add: storable_def record_to_json_def loads_dumps payload_json_ok)

interpretation sql: job_store "sqlite_save dumps" "sqlite_get loads now" sqlite_list_ids "\<lambda>r. r"
    "storable dumps loads" for dumps loads now
  by unfold_locales
    (simp_all add: sqlite_save_def sqlite_get_def sqlite_list_ids_def record_from_to keys_dict_set
      del: set_map)

section \<open>Properties\<close>

text \<open>C31. Persistence is lossless: a job record written as JSON by Python's \<open>json\<close> module and read back, in
  this process or after a restart, is the same record, field by field.\<close>

theorem record_roundtrip:
  assumes "repr_faithful repr parse_float" "record_dicts_ok r"
  shows "record_from_json (json_loads parse_float) now (record_to_json (json_dumps repr) r) = Inr r"
  using storable_python [OF assms] by (rule record_from_to)

definition demo_job :: job_record where
  "demo_job = (new_job_record ''j1'' \<lparr>jc_input_path = ''in'', jc_model = ''m'', jc_max_tokens = 16,
     jc_concurrency = None, jc_webhook_url = None, jc_max_job_spend_usd = 1 / 4, jc_max_items = Some 5\<rparr>
     JS_PARTIAL ''out'' 1 2)
     \<lparr>jr_errors_by_class := [(''cancelled'', 3)], jr_abort_reason := Some ''x''\<rparr>"

lemma demo_job_dicts [simp]: "record_dicts_ok demo_job"
  by (simp add: record_dicts_ok_def demo_job_def new_job_record_def dict_ok_def)

theorem record_roundtrip_witness:
  "record_from_json demo_loads 7 (record_to_json demo_dumps demo_job) = Inr demo_job"
  by (rule record_roundtrip) (simp_all add: demo_repr_faithful)

text \<open>What a program does with a store: it changes a record object, or saves it.\<close>

datatype store_op = Op_change nat job_record | Op_save nat

fun saved_objects :: "store_op list \<Rightarrow> nat list" where
  "saved_objects [] = []"
| "saved_objects (Op_save a # es) = a # saved_objects es"
| "saved_objects (Op_change a r # es) = saved_objects es"

lemma saved_objects_append [simp]: "saved_objects (es @ fs) = saved_objects es @ saved_objects fs"
  by (induction es rule: saved_objects.induct) simp_all

text \<open>Both stores along the same history.  \<open>sw_saved\<close> records what an object held when it was last saved.\<close>

record store_world =
  sw_heap :: heap
  sw_mem :: mem_store
  sw_db :: sqlite_db
  sw_saved :: heap

fun store_step :: "(json \<Rightarrow> string) \<Rightarrow> store_op \<Rightarrow> store_world \<Rightarrow> store_world" where
  "store_step dumps (Op_change a r) w = w\<lparr>sw_heap := (sw_heap w)(a := r)\<rparr>"
| "store_step dumps (Op_save a) w =
     w\<lparr>sw_mem := mem_save (sw_heap w) a (sw_mem w), sw_db := sqlite_save dumps (sw_heap w a) (sw_db w),
       sw_saved := (sw_saved w)(a := sw_heap w a)\<rparr>"

definition store_start :: "heap \<Rightarrow> store_world" where
  "store_start h = \<lparr>sw_heap = h, sw_mem = mem_empty, sw_db = sqlite_init None, sw_saved = h\<rparr>"

text \<open>A record object keeps its job id, and its dictionaries have distinct keys.\<close>

fun op_ok :: "heap \<Rightarrow> store_op \<Rightarrow> bool" where
  "op_ok h (Op_change a r) \<longleftrightarrow> record_dicts_ok r \<and> jr_job_id r = jr_job_id (h a)"
| "op_ok h (Op_save a) \<longleftrightarrow> True"

definition heap_ok :: "heap \<Rightarrow> heap \<Rightarrow> bool" where
  "heap_ok h0 h \<longleftrightarrow> (\<forall>a. record_dicts_ok (h a) \<and> jr_job_id (h a) = jr_job_id (h0 a))"

definition stores_agree :: "(string \<Rightarrow> json option) \<Rightarrow> pyfloat \<Rightarrow> heap \<Rightarrow> store_world \<Rightarrow> bool" where
  "stores_agree loads now h0 w \<longleftrightarrow>
     heap_ok h0 (sw_heap w) \<and> mem_list_ids (sw_mem w) = sqlite_list_ids (sw_db w) \<and>
     (\<forall>k. sqlite_get loads now k (sw_db w) = Inr (map_option (sw_saved w) (mem_lookup k (sw_mem w)))) \<and>
     (\<forall>k a. mem_lookup k (sw_mem w) = Some a \<longrightarrow> jr_job_id (h0 a) = k)"

lemma store_step_agrees:
  assumes "repr_faithful repr pf" "stores_agree (json_loads pf) now h0 w" "op_ok h0 e"
  shows "stores_agree (json_loads pf) now h0 (store_step (json_dumps repr) e w)"
proof (cases e)
  case (Op_change a r)
  then show ?thesis
    using assms(2,3) by (simp add: stores_agree_def heap_ok_def)
next
  case (Op_save a)
  let ?r = "sw_heap w a" and ?w = "store_step (json_dumps repr) (Op_save a) w"
  have inv: "heap_ok h0 (sw_heap w)" "mem_list_ids (sw_mem w) = sqlite_list_ids (sw_db w)"
    "\<forall>k. sqlite_get (json_loads pf) now k (sw_db w) = Inr (map_option (sw_saved w) (mem_lookup k (sw_mem w)))"
    "\<forall>k a. mem_lookup k (sw_mem w) = Some a \<longrightarrow> jr_job_id (h0 a) = k"
    using assms(2) by (simp_all add: stores_agree_def)
  have id: "jr_job_id ?r = jr_job_id (h0 a)" "record_dicts_ok ?r"
    using inv(1) by (simp_all add: heap_ok_def)
  have look: "mem_lookup k (sw_mem ?w) = (if k = jr_job_id ?r then Some a else mem_lookup k (sw_mem w))" for k
    by (simp add: mem_save_def mem_lookup_def)
  have "sqlite_get (json_loads pf) now k (sw_db ?w) = Inr (map_option (sw_saved ?w) (mem_lookup k (sw_mem ?w)))" for k
  proof (cases "k = jr_job_id ?r")
    case True
    then show ?thesis
      using sql.get_saved [OF storable_python [OF assms(1) id(2)], of now "sw_db w"] look by simp
  next
    case False
    then have "mem_lookup k (sw_mem w) \<noteq> Some a"
      using inv(4) id(1) by auto
    then show ?thesis
      using sql.get_other [OF False, of "json_loads pf" now "json_dumps repr" "sw_db w"] look False inv(3)
      by (auto simp: option.map_comp split: option.split intro!: option.map_cong)
  qed
  moreover have "mem_list_ids (sw_mem ?w) = sqlite_list_ids (sw_db ?w)"
    using mem.ids_saved [of "sw_heap w" a "sw_mem w"] sql.ids_saved [of "json_dumps repr" ?r "sw_db w"] inv(2)
    by simp
  ultimately show ?thesis
    using inv(1,4) look id(1) by (simp add: Op_save stores_agree_def)
qed

lemma stores_history:
  assumes "repr_faithful repr pf" "\<forall>a. record_dicts_ok (h a)" "list_all (op_ok h) es"
  shows "stores_agree (json_loads pf) now h (fold (store_step (json_dumps repr)) es (store_start h))"
  using assms(3)
proof (induction es rule: rev_induct)
  case Nil
  then show ?case
    using assms(2)
    by (simp add: stores_agree_def heap_ok_def store_start_def sqlite_get_def sqlite_init_def mem_empty_def
        mem_lookup_def sqlite_list_ids_def mem_list_ids_def)
next
  case (snoc e es)
  then show ?case using store_step_agrees [OF assms(1)] by simp
qed

lemma memory_holds_last:
  assumes "\<forall>a. record_dicts_ok (h a)" "list_all (op_ok h) es"
  shows "heap_ok h (sw_heap (fold (store_step dumps) es (store_start h))) \<and>
    mem_lookup k (sw_mem (fold (store_step dumps) es (store_start h))) =
      find (\<lambda>a. jr_job_id (h a) = k) (rev (saved_objects es))"
  using assms(2)
proof (induction es rule: rev_induct)
  case Nil
  then show ?case using assms(1) by (simp add: store_start_def heap_ok_def mem_empty_def mem_lookup_def)
next
  case (snoc e es)
  then show ?case
    by (cases e) (auto simp: mem_lookup_def mem_save_def heap_ok_def)
qed


text \<open>A save, and a change after it that only the memory store shows until the next save.\<close>

definition demo_changed :: job_record where
  "demo_changed = demo_job\<lparr>jr_status := JS_FAILED\<rparr>"


end
