(* ===== verification/SpendLedger.thy ===== *)
theory SpendLedger
  imports PyJson
begin

text \<open>
  The ledger of \<open>core/spend_ledger.py\<close>: one JSON file with the money spent by all live runs.  The
  file is its text, or \<open>None\<close> when it does not exist.  \<open>json.loads\<close> (\<open>None\<close> for a
  \<open>JSONDecodeError\<close>), \<open>json.dumps\<close> and \<open>float(str)\<close> are arguments; \<open>PyJson\<close> has the first two.
\<close>

text \<open>\<open>float(v)\<close> with the exceptions it may raise.\<close>

fun py_float :: "(string \<Rightarrow> pyfloat option) \<Rightarrow> json \<Rightarrow> py_exn + pyfloat" where
  "py_float parse_float (JStr s) =
     (case parse_float s of None \<Rightarrow> Inl Value_error | Some x \<Rightarrow> Inr x)"
| "py_float parse_float v = (case json_num v of None \<Rightarrow> Inl Type_error | Some x \<Rightarrow> Inr x)"

definition load_total_spend ::
    "(string \<Rightarrow> json option) \<Rightarrow> (string \<Rightarrow> pyfloat option) \<Rightarrow> string option \<Rightarrow> py_exn + pyfloat" where
  "load_total_spend loads parse_float file =
     (case file of
        None \<Rightarrow> Inr 0
      | Some text \<Rightarrow>
          (case loads text of
             None \<Rightarrow> Inr 0
           | Some (JObj data) \<Rightarrow>
               (case py_float parse_float (dict_get_or data ''total_spend_usd'' (JFloat 0)) of
                  Inl e \<Rightarrow> if e \<in> {Value_error, Type_error} then Inr 0 else Inl e
                | Inr x \<Rightarrow> Inr x)
           | Some _ \<Rightarrow> Inl Attribute_error))"

text \<open>The new total and the new file, or the exception.\<close>

definition record_spend ::
    "(json \<Rightarrow> string) \<Rightarrow> (string \<Rightarrow> json option) \<Rightarrow> (string \<Rightarrow> pyfloat option) \<Rightarrow> pyfloat
      \<Rightarrow> string option \<Rightarrow> py_exn + pyfloat \<times> string" where
  "record_spend dumps loads parse_float delta_usd file =
     and_then (load_total_spend loads parse_float file) (\<lambda>spent.
       let total = spent + max 0 delta_usd
       in Inr (total, dumps (JObj [(''total_spend_usd'', JFloat total)])))"

text \<open>Many jobs, one after the other.\<close>

fun record_spends ::
    "(json \<Rightarrow> string) \<Rightarrow> (string \<Rightarrow> json option) \<Rightarrow> (string \<Rightarrow> pyfloat option) \<Rightarrow> pyfloat list
      \<Rightarrow> string option \<Rightarrow> py_exn + string option" where
  "record_spends dumps loads parse_float [] file = Inr file"
| "record_spends dumps loads parse_float (d # ds) file =
     and_then (record_spend dumps loads parse_float d file)
       (\<lambda>(total, text). record_spends dumps loads parse_float ds (Some text))"

definition ledger_json_ok :: "(json \<Rightarrow> string) \<Rightarrow> (string \<Rightarrow> json option) \<Rightarrow> bool" where
  "ledger_json_ok dumps loads \<longleftrightarrow>
     (\<forall>x. loads (dumps (JObj [(''total_spend_usd'', JFloat x)])) =
        Some (JObj [(''total_spend_usd'', JFloat x)]))"

lemma load_recorded:
  "ledger_json_ok dumps loads \<Longrightarrow>
   load_total_spend loads parse_float (Some (dumps (JObj [(''total_spend_usd'', JFloat x)]))) = Inr x"
  by (simp add: load_total_spend_def ledger_json_ok_def dict_get_or_def dict_get_def)

lemma record_spends_total:
  assumes "ledger_json_ok dumps loads" "load_total_spend loads parse_float ledger = Inr x"
  shows "\<exists>ledger'. record_spends dumps loads parse_float ds ledger = Inr ledger' \<and>
    load_total_spend loads parse_float ledger' = Inr (x + sum_list (map (max 0) ds))"
  using assms(2)
proof (induction ds arbitrary: x ledger)
  case Nil
  then show ?case by simp
next
  case (Cons d ds)
  let ?text = "dumps (JObj [(''total_spend_usd'', JFloat (x + max 0 d))])"
  have "load_total_spend loads parse_float (Some ?text) = Inr (x + max 0 d)"
    by (rule load_recorded [OF assms(1)])
  from Cons.IH [OF this] show ?case
    using Cons.prems by (auto simp: record_spend_def Let_def algebra_simps)
qed

text \<open>The ledger is cumulative: starting without a file, recording the cost of any number of jobs one
  after the other leaves a ledger whose total is the sum of the costs (a negative cost counts as
  0), so the total never decreases and the outer cap survives restarts.\<close>

lemma ledger_accumulates:
  assumes "ledger_json_ok dumps loads"
  shows "\<exists>file. record_spends dumps loads parse_float ds None = Inr file \<and>
    load_total_spend loads parse_float file = Inr (sum_list (map (max 0) ds))"
  using record_spends_total [OF assms, of parse_float None 0 ds] by (simp add: load_total_spend_def)

lemma ledger_python: "repr_faithful repr pf \<Longrightarrow> ledger_json_ok (json_dumps repr) (json_loads pf)"
  by (simp add: ledger_json_ok_def loads_dumps dict_ok_def)

lemma ledger_accumulates_witness:
  "\<exists>file. record_spends demo_dumps demo_loads demo_float [1 / 10, - 1, 3 / 10] None =
      Inr file \<and> load_total_spend demo_loads demo_float file = Inr (2 / 5)"
  using ledger_accumulates [OF ledger_python [OF demo_repr_faithful], of demo_float "[1 / 10, - 1, 3 / 10]"]
  by simp

end
