(* ===== verification/Metrics.thy ===== *)
theory Metrics
  imports Models SpendLedger TextIO
begin

text \<open>
  The Prometheus exposition of \<open>observability/metrics.py\<close>.  \<open>float(v)\<close> is \<open>py_float\<close>; the text of
  a float is the parameter \<open>float_text\<close>.
\<close>

definition metrics_help :: "string pydict" where
  "metrics_help =
     [(''batchengine_job_ingested_total'', ''Items ingested for a job.''),
      (''batchengine_job_succeeded_total'', ''Items that completed successfully.''),
      (''batchengine_job_failed_total'', ''Items that terminally failed.''),
      (''batchengine_job_in_flight'', ''Items currently in flight to the provider.''),
      (''batchengine_job_throttle_events_total'', ''429 responses observed.''),
      (''batchengine_job_retries_issued_total'', ''Retries issued.''),
      (''batchengine_job_current_rate_limit_rps'', ''Current AIMD-controlled request rate.''),
      (''batchengine_job_estimated_cost_usd'', ''Estimated spend for a job so far.'')]"

definition metrics_type :: "string pydict" where
  "metrics_type =
     [(''batchengine_job_ingested_total'', ''counter''),
      (''batchengine_job_succeeded_total'', ''counter''),
      (''batchengine_job_failed_total'', ''counter''),
      (''batchengine_job_in_flight'', ''gauge''),
      (''batchengine_job_throttle_events_total'', ''counter''),
      (''batchengine_job_retries_issued_total'', ''counter''),
      (''batchengine_job_current_rate_limit_rps'', ''gauge''),
      (''batchengine_job_estimated_cost_usd'', ''gauge'')]"

definition metric_values :: "job_record \<Rightarrow> json pydict" where
  "metric_values r =
     (let bp = jr_backpressure r; k = jr_counts r in
      [(''batchengine_job_ingested_total'', JInt (ingested k)),
       (''batchengine_job_succeeded_total'', JInt (succeeded k)),
       (''batchengine_job_failed_total'', JInt (failed k)),
       (''batchengine_job_in_flight'', JInt (in_flight k)),
       (''batchengine_job_throttle_events_total'', dict_get_or bp ''throttle_events_429'' (JInt 0)),
       (''batchengine_job_retries_issued_total'', dict_get_or bp ''retries_issued'' (JInt 0)),
       (''batchengine_job_current_rate_limit_rps'',
          dict_get_or bp ''current_rate_limit_rps'' (JFloat 0)),
       (''batchengine_job_estimated_cost_usd'', JFloat (ut_estimated_cost_usd (jr_usage r)))])"

definition value_for :: "(string \<Rightarrow> pyfloat option) \<Rightarrow> string \<Rightarrow> job_record \<Rightarrow> py_exn + pyfloat" where
  "value_for parse_float metric r =
     and_then (dict_item (metric_values r) metric) (py_float parse_float)"

definition metric_sample ::
    "(string \<Rightarrow> pyfloat option) \<Rightarrow> (pyfloat \<Rightarrow> string) \<Rightarrow> string \<Rightarrow> job_record \<Rightarrow> py_exn + string" where
  "metric_sample parse_float float_text metric r =
     and_then (value_for parse_float metric r) (\<lambda>v.
       Inr (metric @ ''{job_id='' @ [CHR 0x22] @ jr_job_id r @ [CHR 0x22] @ '',status='' @ [CHR 0x22] @
            js_value (jr_status r) @ [CHR 0x22] @ ''} '' @ float_text v))"

text \<open>A loop that may raise.\<close>

fun collect :: "('a \<Rightarrow> 'e + 'b) \<Rightarrow> 'a list \<Rightarrow> 'e + 'b list" where
  "collect f [] = Inr []"
| "collect f (x # xs) = and_then (f x) (\<lambda>y. and_then (collect f xs) (\<lambda>ys. Inr (y # ys)))"

definition metric_lines ::
    "(string \<Rightarrow> pyfloat option) \<Rightarrow> (pyfloat \<Rightarrow> string) \<Rightarrow> job_record list \<Rightarrow> string \<times> string
      \<Rightarrow> py_exn + string list" where
  "metric_lines parse_float float_text records mh =
     (let (metric, help_text) = mh in
      and_then (dict_item metrics_type metric) (\<lambda>ty.
      and_then (collect (metric_sample parse_float float_text metric) records) (\<lambda>samples.
        Inr ([''# HELP '' @ metric @ '' '' @ help_text, ''# TYPE '' @ metric @ '' '' @ ty] @ samples))))"

text \<open>\<open>"\<setminus>n".join(lines)\<close>.\<close>

fun join_lines :: "string list \<Rightarrow> string" where
  "join_lines [] = []"
| "join_lines [l] = l"
| "join_lines (l # ls) = l @ newline # join_lines ls"

definition render_prometheus_text ::
    "(string \<Rightarrow> pyfloat option) \<Rightarrow> (pyfloat \<Rightarrow> string) \<Rightarrow> job_record list \<Rightarrow> py_exn + string" where
  "render_prometheus_text parse_float float_text records =
     and_then (collect (metric_lines parse_float float_text records) metrics_help) (\<lambda>groups.
       Inr (join_lines (concat groups) @ [newline]))"

section \<open>Facts\<close>

lemma collect_total:
  assumes "\<And>x. x \<in> set xs \<Longrightarrow> f x = Inr (g x)"
  shows "collect f xs = Inr (map g xs)"
  using assms by (induction xs) auto

lemma join_lines_file: "ls \<noteq> [] \<Longrightarrow> join_lines ls @ [newline] = lines_file ls"
proof (induction ls rule: join_lines.induct)
  case (3 l m ls)
  then show ?case by (simp add: lines_file_def)
qed (simp_all add: lines_file_def)

text \<open>The reported numbers: what the scheduler writes into \<open>backpressure\<close>.\<close>

definition backpressure_numeric :: "job_record \<Rightarrow> bool" where
  "backpressure_numeric r \<longleftrightarrow>
     list_all (\<lambda>k. case dict_get (jr_backpressure r) k of None \<Rightarrow> True
        | Some (JStr s) \<Rightarrow> False | Some v \<Rightarrow> json_num v \<noteq> None)
       [''throttle_events_429'', ''retries_issued'', ''current_rate_limit_rps'']"

definition reported :: "string \<Rightarrow> job_record \<Rightarrow> pyfloat" where
  "reported metric r = (case json_num (dict_get_or (metric_values r) metric JNull) of None \<Rightarrow> 0 | Some x \<Rightarrow> x)"

lemma py_float_number: "json_num v = Some x \<Longrightarrow> py_float parse_float v = Inr x"
  by (cases v) auto

lemma metric_values_num:
  assumes "backpressure_numeric r" "v \<in> snd ` set (metric_values r)"
  shows "\<exists>x. json_num v = Some x"
proof -
  have bp: "\<exists>x. json_num (dict_get_or (jr_backpressure r) k w) = Some x"
    if "k = ''throttle_events_429'' \<or> k = ''retries_issued'' \<or> k = ''current_rate_limit_rps''"
      "\<exists>x. json_num w = Some x" for k w
  proof (cases "dict_get (jr_backpressure r) k")
    case None
    then show ?thesis using that(2) by (simp add: dict_get_or_def)
  next
    case (Some u)
    have "case dict_get (jr_backpressure r) k of None \<Rightarrow> True | Some (JStr s) \<Rightarrow> False
        | Some v \<Rightarrow> json_num v \<noteq> None"
      using assms(1) that(1) unfolding backpressure_numeric_def list.pred_inject by metis
    then show ?thesis using Some by (cases u) (simp_all add: dict_get_or_def)
  qed
  have "v = JInt (ingested (jr_counts r)) \<or> v = JInt (succeeded (jr_counts r)) \<or>
    v = JInt (failed (jr_counts r)) \<or> v = JInt (in_flight (jr_counts r)) \<or>
    v = dict_get_or (jr_backpressure r) ''throttle_events_429'' (JInt 0) \<or>
    v = dict_get_or (jr_backpressure r) ''retries_issued'' (JInt 0) \<or>
    v = dict_get_or (jr_backpressure r) ''current_rate_limit_rps'' (JFloat 0) \<or>
    v = JFloat (ut_estimated_cost_usd (jr_usage r))"
    using assms(2) unfolding metric_values_def Let_def
    by (simp only: list.set image_insert image_empty insert_iff empty_iff snd_conv simp_thms)
  then show ?thesis
    by (elim disjE; simp add: bp)
qed

lemma value_for_reported:
  assumes "backpressure_numeric r" "metric \<in> set (map fst metrics_help)"
  shows "value_for parse_float metric r = Inr (reported metric r)"
proof -
  have "map fst (metric_values r) = map fst metrics_help"
    by (simp add: metric_values_def metrics_help_def Let_def)
  then obtain v where v: "dict_get (metric_values r) metric = Some v"
    using assms(2) by (metis dict_get_def map_of_eq_None_iff not_None_eq set_map)
  then obtain x where "json_num v = Some x"
    using metric_values_num [OF assms(1)] by (metis dict_get_def map_of_SomeD image_eqI snd_conv)
  then show ?thesis
    using v by (simp add: value_for_def dict_item_def reported_def dict_get_or_def py_float_number)
qed

text \<open>One sample line.\<close>

definition sample_line :: "(pyfloat \<Rightarrow> string) \<Rightarrow> string \<Rightarrow> job_record \<Rightarrow> string" where
  "sample_line float_text metric r =
     metric @ ''{job_id='' @ [CHR 0x22] @ jr_job_id r @ [CHR 0x22] @ '',status='' @ [CHR 0x22] @
       js_value (jr_status r) @ [CHR 0x22] @ ''} '' @ float_text (reported metric r)"

definition metric_group :: "(pyfloat \<Rightarrow> string) \<Rightarrow> job_record list \<Rightarrow> string \<times> string \<Rightarrow> string list" where
  "metric_group float_text records mh =
     [''# HELP '' @ fst mh @ '' '' @ snd mh, ''# TYPE '' @ fst mh @ '' '' @ dict_get_or metrics_type (fst mh) []]
       @ map (sample_line float_text (fst mh)) records"

lemma metric_lines_group:
  assumes "list_all backpressure_numeric records" "mh \<in> set metrics_help"
  shows "metric_lines parse_float float_text records mh = Inr (metric_group float_text records mh)"
proof -
  have "fst mh \<in> set (map fst metrics_help)" using assms(2) by simp
  then have "collect (metric_sample parse_float float_text (fst mh)) records =
      Inr (map (sample_line float_text (fst mh)) records)"
    using assms(1) value_for_reported
    by (intro collect_total) (simp add: metric_sample_def sample_line_def list_all_iff)
  moreover have "dict_get metrics_type (fst mh) \<noteq> None"
    using assms(2) by (auto simp: metrics_help_def metrics_type_def dict_get_def)
  ultimately show ?thesis
    by (cases mh) (auto simp: metric_lines_def metric_group_def dict_item_def dict_get_or_def)
qed

lemma js_value_text: "line_text (js_value c)"
  by (cases c) (simp_all add: line_text_def)

lemma line_text_append: "line_text (s @ t) \<longleftrightarrow> line_text s \<and> line_text t"
  by (auto simp: line_text_def)

lemma metrics_text_ok: "\<forall>mh \<in> set metrics_help. line_text (fst mh) \<and> line_text (snd mh)"
    "line_text (dict_get_or metrics_type m [])"
  by (simp add: metrics_help_def line_text_def,
      auto simp: metrics_type_def dict_get_or_def dict_get_def line_text_def split: option.splits if_splits)

lemma metric_group_text:
  assumes "mh \<in> set metrics_help" "\<forall>r \<in> set records. line_text (jr_job_id r)" "\<forall>x. line_text (float_text x)"
    and "l \<in> set (metric_group float_text records mh)"
  shows "line_text l"
proof -
  have "line_text (fst mh)" "line_text (snd mh)"
    using metrics_text_ok(1) assms(1) by blast+
  moreover have "line_text ''# HELP ''" "line_text ''# TYPE ''" "line_text '' ''" "line_text ''{job_id=''"
    "line_text [CHR 0x22]" "line_text '',status=''" "line_text ''} ''"
    by (simp_all add: line_text_def)
  ultimately show ?thesis
    using assms(2-4) metrics_text_ok(2) [of "fst mh"] js_value_text
    by (auto simp: metric_group_def sample_line_def line_text_append simp del: append_Cons append_Nil)
qed

lemma length_metric_group [simp]: "length (metric_group float_text records mh) = 2 + length records"
  by (simp add: metric_group_def)

lemma length_metric_groups:
  "length (concat (map (metric_group float_text records) mhs)) = length mhs * (2 + length records)"
  by (induction mhs) simp_all

lemma length_metrics_help: "length metrics_help = 8"
  by (simp add: metrics_help_def)

lemma render_groups:
  assumes "list_all backpressure_numeric records"
  shows "render_prometheus_text parse_float float_text records =
    Inr (lines_file (concat (map (metric_group float_text records) metrics_help)))"
proof -
  let ?ls = "concat (map (metric_group float_text records) metrics_help)"
  have "collect (metric_lines parse_float float_text records) metrics_help =
      Inr (map (metric_group float_text records) metrics_help)"
    using metric_lines_group [OF assms] by (intro collect_total) simp
  moreover have "length ?ls = 8 * (2 + length records)"
    by (simp only: length_metric_groups length_metrics_help)
  then have "?ls \<noteq> []" by (metis length_0_conv mult_is_0 add_is_0 zero_neq_numeral)
  ultimately show ?thesis
    by (simp add: render_prometheus_text_def join_lines_file)
qed

text \<open>The exposition is complete and never fails: for any records whose backpressure numbers are
  numbers, \<open>/metrics\<close> renders a text whose lines are, for each of the 8 metrics, its help line, its
  type line and exactly one sample per job, with the value the record holds.\<close>

lemma metrics_complete:
  assumes "list_all backpressure_numeric records" "list_all (\<lambda>r. line_text (jr_job_id r)) records"
    and "\<forall>x. line_text (float_text x)"
  shows "\<exists>text. render_prometheus_text parse_float float_text records = Inr text \<and>
    file_lines text = map (\<lambda>l. l @ [newline]) (concat (map (metric_group float_text records) metrics_help)) \<and>
    length (file_lines text) = 8 * (2 + length records)"
proof -
  let ?ls = "concat (map (metric_group float_text records) metrics_help)"
  have "render_prometheus_text parse_float float_text records = Inr (lines_file ?ls)"
    by (rule render_groups [OF assms(1)])
  moreover have "file_lines (lines_file ?ls) = map (\<lambda>l. l @ [newline]) ?ls"
  proof -
    have ids: "\<forall>r \<in> set records. line_text (jr_job_id r)"
      using assms(2) by (simp only: list_all_iff)
    have "\<forall>l \<in> set ?ls. line_text l"
      using metric_group_text [OF _ ids assms(3)] by (simp only: set_concat set_map) blast
    from file_lines_written [OF this, of "[]"] show ?thesis
      by (simp add: line_text_def)
  qed
  moreover have "length ?ls = 8 * (2 + length records)"
    by (simp only: length_metric_groups length_metrics_help)
  ultimately show ?thesis by simp
qed

lemma metrics_complete_witness:
  "\<exists>text. render_prometheus_text (\<lambda>s. None) (\<lambda>x. ''0.0'') [new_job_record ''j1''
      \<lparr>jc_input_path = ''in'', jc_model = ''m'', jc_max_tokens = 16, jc_concurrency = None,
       jc_webhook_url = None, jc_max_job_spend_usd = 1 / 4, jc_max_items = None\<rparr> JS_QUEUED ''out'' 1 2] =
     Inr text \<and> length (file_lines text) = 24"
  using metrics_complete [of "[new_job_record ''j1''
      \<lparr>jc_input_path = ''in'', jc_model = ''m'', jc_max_tokens = 16, jc_concurrency = None,
       jc_webhook_url = None, jc_max_job_spend_usd = 1 / 4, jc_max_items = None\<rparr> JS_QUEUED ''out'' 1 2]"
      "\<lambda>x. ''0.0''" "\<lambda>s. None"]
  by (auto simp: new_job_record_def backpressure_numeric_def line_text_def)

end
