(* ===== verification/DigitalOcean.thy ===== *)
theory DigitalOcean
  imports Retry TextIO
begin

text \<open>
  The live provider of \<open>providers/digitalocean.py\<close>.  The HTTP client is \<open>httpx\<close>: what a post
  returns or raises is a value of \<open>post_outcome\<close>.  The body of a response is the value
  \<open>resp.json()\<close> returns, \<open>None\<close> when it raises (a \<open>JSONDecodeError\<close> is a \<open>ValueError\<close>);
  \<open>int(str)\<close> is a parameter.  Header names are lower case, as \<open>httpx\<close> compares them.
\<close>

section \<open>Prices\<close>

definition rate_limit_headers :: "string list" where
  "rate_limit_headers =
     [''x-ratelimit-limit-requests'', ''x-ratelimit-remaining-requests'',
      ''x-ratelimit-reset-requests'', ''x-ratelimit-limit-tokens-per-minute'',
      ''x-ratelimit-remaining-tokens-per-minute'', ''x-ratelimit-reset-tokens-per-minute'',
      ''x-ratelimit-limit-tokens-per-day'', ''x-ratelimit-remaining-tokens-per-day'',
      ''x-ratelimit-reset-tokens-per-day'']"

definition model_pricing :: "(pyfloat \<times> pyfloat) pydict" where
  "model_pricing =
     [(''mistral-3-14B'', (20 / 100, 20 / 100)),
      (''openai-gpt-oss-20b'', (5 / 100, 45 / 100)),
      (''openai-gpt-oss-120b'', (6 / 100, 39 / 100)),
      (''gemma-4-31B-it'', (18 / 100, 50 / 100)),
      (''llama-4-maverick'', (20 / 100, 696 / 1000))]"

definition default_pricing :: "pyfloat \<times> pyfloat" where
  "default_pricing = (20 / 100, 20 / 100)"

record do_provider =
  dp_api_key :: string
  dp_base_url :: string
  dp_pricing :: "pyfloat \<times> pyfloat"

definition new_do_provider :: "string \<Rightarrow> string \<Rightarrow> string \<Rightarrow> do_provider" where
  "new_do_provider api_key base_url model_for_pricing =
     \<lparr>dp_api_key = api_key, dp_base_url = py_rstrip_char CHR ''/'' base_url,
      dp_pricing = dict_get_or model_pricing model_for_pricing default_pricing\<rparr>"

definition do_prices :: "do_provider \<Rightarrow> provider_prices" where
  "do_prices p = \<lparr>cost_per_1m_input = fst (dp_pricing p), cost_per_1m_output = snd (dp_pricing p)\<rparr>"

section \<open>The request and what comes back\<close>

record http_request =
  rq_url :: string
  rq_headers :: "string pydict"
  rq_json :: json

definition do_request :: "do_provider \<Rightarrow> string \<Rightarrow> string \<Rightarrow> int \<Rightarrow> http_request" where
  "do_request p prompt model max_tokens =
     \<lparr>rq_url = dp_base_url p @ ''/chat/completions'',
      rq_headers = [(''Authorization'', ''Bearer '' @ dp_api_key p)],
      rq_json = JObj [(''model'', JStr model),
        (''messages'', JList [JObj [(''role'', JStr ''user''), (''content'', JStr prompt)]]),
        (''max_tokens'', JInt max_tokens)]\<rparr>"

record http_response =
  hr_status :: int
  hr_text :: string
  hr_json :: "json option"
  hr_headers :: "string pydict"

text \<open>\<open>client.post\<close> returns, raises one of \<open>TimeoutException\<close>, \<open>ConnectError\<close> and \<open>ReadError\<close> (with
  its text), raises something else, or is cancelled.\<close>

datatype post_outcome =
    Post_response http_response
  | Post_transport string
  | Post_raise py_exn
  | Post_cancelled

section \<open>Python's indexing and conversion\<close>

fun py_item_key :: "json \<Rightarrow> string \<Rightarrow> py_exn + json" where
  "py_item_key (JObj d) k = dict_item d k"
| "py_item_key _ k = Inl Type_error"

text \<open>\<open>v[0]\<close>: the keys of a JSON object are strings.\<close>

fun py_item_first :: "json \<Rightarrow> py_exn + json" where
  "py_item_first (JList (v # vs)) = Inr v"
| "py_item_first (JList []) = Inl Index_error"
| "py_item_first (JStr (c # s)) = Inr (JStr [c])"
| "py_item_first (JStr []) = Inl Index_error"
| "py_item_first (JObj d) = Inl Key_error"
| "py_item_first _ = Inl Type_error"

fun py_int_of_json :: "(string \<Rightarrow> int option) \<Rightarrow> json \<Rightarrow> py_exn + int" where
  "py_int_of_json parse_int (JInt i) = Inr i"
| "py_int_of_json parse_int (JFloat x) = Inr (py_int x)"
| "py_int_of_json parse_int (JBool b) = Inr (if b then 1 else 0)"
| "py_int_of_json parse_int (JStr s) = (case parse_int s of None \<Rightarrow> Inl Value_error | Some i \<Rightarrow> Inr i)"
| "py_int_of_json parse_int _ = Inl Type_error"

fun py_get_or :: "json \<Rightarrow> string \<Rightarrow> json \<Rightarrow> py_exn + json" where
  "py_get_or (JObj d) k v = Inr (dict_get_or d k v)"
| "py_get_or _ k v = Inl Attribute_error"

section \<open>Reading the body\<close>

text \<open>\<open>body["choices"][0]["message"]["content"]\<close>.\<close>

definition body_content :: "json \<Rightarrow> py_exn + json" where
  "body_content body =
     and_then (py_item_key body ''choices'') (\<lambda>choices.
     and_then (py_item_first choices) (\<lambda>choice.
     and_then (py_item_key choice ''message'') (\<lambda>message.
       py_item_key message ''content'')))"

definition body_usage :: "(string \<Rightarrow> int option) \<Rightarrow> json \<Rightarrow> py_exn + int \<times> int" where
  "body_usage parse_int body =
     and_then (py_get_or body ''usage'' (JObj [])) (\<lambda>usage.
     and_then (and_then (py_get_or usage ''prompt_tokens'' (JInt 0)) (py_int_of_json parse_int)) (\<lambda>i.
     and_then (and_then (py_get_or usage ''completion_tokens'' (JInt 0)) (py_int_of_json parse_int)) (\<lambda>out.
       Inr (i, out))))"

text \<open>The exceptions the body's parser turns into a malformed response.\<close>

fun malformed_exn :: "py_exn \<Rightarrow> bool" where
  "malformed_exn Key_error = True"
| "malformed_exn Index_error = True"
| "malformed_exn Value_error = True"
| "malformed_exn Type_error = True"
| "malformed_exn (JSON_decode_error msg) = True"
| "malformed_exn _ = False"

definition picked_headers :: "http_response \<Rightarrow> string pydict" where
  "picked_headers h =
     concat (map (\<lambda>k. case dict_get (hr_headers h) k of None \<Rightarrow> [] | Some v \<Rightarrow> [(k, v)]) rate_limit_headers)"

definition malformed_response :: "http_response \<Rightarrow> provider_response" where
  "malformed_response h =
     (provider_response_of 200)\<lparr>malformed := True, resp_headers := picked_headers h\<rparr>"

text \<open>The \<open>try\<close> block: the text and the two token counts, \<open>None\<close> for a content that is no string.\<close>

definition read_body ::
    "(string \<Rightarrow> int option) \<Rightarrow> json option \<Rightarrow> py_exn + (string \<times> int \<times> int) option" where
  "read_body parse_int body' =
     (case body' of
        None \<Rightarrow> Inl Value_error
      | Some body \<Rightarrow>
          and_then (body_content body) (\<lambda>content.
            case content of
              JStr text \<Rightarrow> and_then (body_usage parse_int body) (\<lambda>(i, out). Inr (Some (text, i, out)))
            | _ \<Rightarrow> Inr None))"

definition do_complete :: "(string \<Rightarrow> int option) \<Rightarrow> post_outcome \<Rightarrow> provider_outcome" where
  "do_complete parse_int posted =
     (case posted of
        Post_transport msg \<Rightarrow> Out_raise (Provider_transport_error msg)
      | Post_raise e \<Rightarrow> Out_raise e
      | Post_cancelled \<Rightarrow> Out_cancelled
      | Post_response h \<Rightarrow>
          if hr_status h \<noteq> 200 then
            Out_response ((provider_response_of (hr_status h))
              \<lparr>resp_text := hr_text h, resp_headers := picked_headers h\<rparr>)
          else
            (case read_body parse_int (hr_json h) of
               Inl e \<Rightarrow> if malformed_exn e then Out_response (malformed_response h) else Out_raise e
             | Inr None \<Rightarrow> Out_response (malformed_response h)
             | Inr (Some (text, i, out)) \<Rightarrow>
                 Out_response \<lparr>status_code = 200, resp_text = text, resp_input_tokens = i,
                   resp_output_tokens = out, malformed = False, resp_headers = picked_headers h\<rparr>))"

section \<open>Facts\<close>

lemma py_item_key_exn: "py_item_key v k = Inl e \<Longrightarrow> malformed_exn e"
  by (cases "(v, k)" rule: py_item_key.cases) (auto simp: dict_item_def split: option.splits)

lemma py_item_first_exn: "py_item_first v = Inl e \<Longrightarrow> malformed_exn e"
  by (cases v rule: py_item_first.cases) auto

lemma py_int_of_json_exn: "py_int_of_json parse_int v = Inl e \<Longrightarrow> malformed_exn e"
  by (cases v) (auto split: option.splits)

lemma and_then_Inl: "and_then r f = Inl e \<longleftrightarrow> r = Inl e \<or> (\<exists>x. r = Inr x \<and> f x = Inl e)"
  by (cases r) auto

lemma body_content_exn: "body_content body = Inl e \<Longrightarrow> malformed_exn e"
  by (auto simp: body_content_def and_then_Inl dest: py_item_key_exn py_item_first_exn)

text \<open>The one exception that escapes: a \<open>usage\<close> that is present but is no object.\<close>

definition usage_no_object :: "json \<Rightarrow> bool" where
  "usage_no_object body =
     (case body of
        JObj d \<Rightarrow> (case dict_get d ''usage'' of Some v \<Rightarrow> json_obj v = None | None \<Rightarrow> False)
      | _ \<Rightarrow> False)"

lemma py_get_or_Inl [simp]: "py_get_or v k w = Inl e \<longleftrightarrow> json_obj v = None \<and> e = Attribute_error"
  by (cases "(v, k, w)" rule: py_get_or.cases) auto

lemma body_usage_exn:
  assumes "body_usage parse_int (JObj d) = Inl e"
  shows "malformed_exn e \<or> e = Attribute_error \<and> usage_no_object (JObj d)"
proof -
  obtain usage where usage: "usage = dict_get_or d ''usage'' (JObj [])" by simp
  show ?thesis
  proof (cases "json_obj usage")
    case None
    then have "usage_no_object (JObj d)"
      using usage by (auto simp: usage_no_object_def dict_get_or_def split: option.splits)
    then show ?thesis
      using assms None usage [symmetric] py_int_of_json_exn
      by (auto simp: body_usage_def and_then_Inl)
  next
    case (Some u)
    then show ?thesis
      using assms usage [symmetric] py_int_of_json_exn by (auto simp: body_usage_def and_then_Inl)
  qed
qed

lemma body_content_object: "body_content body = Inr v \<Longrightarrow> \<exists>d. body = JObj d"
  by (cases body) (auto simp: body_content_def)

lemma read_body_cases:
  assumes "read_body parse_int body' = r"
  obtains (exn) e where "r = Inl e" "malformed_exn e"
    | (no_usage) body where "r = Inl Attribute_error" "body' = Some body" "usage_no_object body"
    | (no_text) "r = Inr None"
    | (accepted) body s i out where "r = Inr (Some (s, i, out))" "body' = Some body"
        "body_content body = Inr (JStr s)" "body_usage parse_int body = Inr (i, out)"
proof (cases body')
  case None
  then show ?thesis using assms exn by (auto simp: read_body_def)
next
  case (Some body)
  show ?thesis
  proof (cases "body_content body")
    case (Inl e)
    then show ?thesis
      using assms Some exn body_content_exn by (auto simp: read_body_def)
  next
    case (Inr v)
    show ?thesis
    proof (cases "\<exists>s. v = JStr s")
      case False
      then have "r = Inr None"
        using assms Some Inr by (cases v) (auto simp: read_body_def)
      then show ?thesis by (rule no_text)
    next
      case True
      then obtain s d where s: "v = JStr s" "body = JObj d"
        using body_content_object [OF Inr] by blast
      show ?thesis
      proof (cases "body_usage parse_int body")
        case (Inl e)
        then show ?thesis
          using assms Some Inr s body_usage_exn [of parse_int d e] exn no_usage
          by (auto simp: read_body_def)
      next
        case (Inr p)
        then show ?thesis
          using assms Some \<open>body_content body = Inr v\<close> s accepted
          by (cases p) (auto simp: read_body_def)
      qed
    qed
  qed
qed

section \<open>Properties\<close>

text \<open>The provider alone: its answer is classified as a success exactly when the endpoint answered 200 with
  a JSON body whose first choice has a string content and readable token counts.  \<open>LiveRow\<close> has the row.\<close>

lemma live_success_iff:
  "(\<exists>r k. do_complete parse_int posted = Out_response r \<and> classify (Some r) None = Inr (FC_SUCCESS, k) \<and>
      resp_text r = text \<and> resp_input_tokens r = i \<and> resp_output_tokens r = out) \<longleftrightarrow>
   (\<exists>h body. posted = Post_response h \<and> hr_status h = 200 \<and> hr_json h = Some body \<and>
      body_content body = Inr (JStr text) \<and> body_usage parse_int body = Inr (i, out))"
  (is "?L = ?R")
proof
  assume ?L
  then obtain r where r: "do_complete parse_int posted = Out_response r" "status_code r = 200"
    "\<not> malformed r" "resp_text r = text" "resp_input_tokens r = i" "resp_output_tokens r = out"
    by (auto elim!: classify_cases simp: is_fatal_def)
  then obtain h where h: "posted = Post_response h" and ok: "hr_status h = 200"
    by (cases posted) (auto simp: do_complete_def provider_response_of_def split: if_splits)
  show ?R
    using r h ok
    by (cases rule: read_body_cases [of parse_int "hr_json h", OF refl])
      (auto simp: do_complete_def malformed_response_def split: if_splits)
next
  assume ?R
  then obtain h body where "posted = Post_response h" "hr_status h = 200" "hr_json h = Some body"
    "body_content body = Inr (JStr text)" "body_usage parse_int body = Inr (i, out)"
    by blast
  then show ?L
    by (simp add: do_complete_def read_body_def classify_def)
qed

text \<open>Every other end of a live call is accounted for: the call raises a \<open>ProviderTransportError\<close> for
  a timeout or a broken connection, returns a response with the status of the endpoint (malformed only
  with status 200), or raises \<open>AttributeError\<close> for a body whose \<open>usage\<close> is present and is no
  object, an exception its own handler does not know.\<close>

lemma live_call_outcomes:
  assumes "posted = Post_response h \<or> posted = Post_transport msg"
  shows "case do_complete parse_int posted of
      Out_response r \<Rightarrow> posted = Post_response h \<and> status_code r = hr_status h \<and>
        (malformed r \<longrightarrow> hr_status h = 200) \<and>
        set (map fst (resp_headers r)) \<subseteq> set rate_limit_headers
    | Out_raise e \<Rightarrow> (e = Provider_transport_error msg \<and> posted = Post_transport msg) \<or>
        (e = Attribute_error \<and> posted = Post_response h \<and>
          (case hr_json h of Some body \<Rightarrow> usage_no_object body | None \<Rightarrow> False))
    | Out_cancelled \<Rightarrow> False"
proof (cases posted)
  case (Post_response h')
  then have h: "h' = h" using assms by auto
  have headers: "set (map fst (picked_headers h)) \<subseteq> set rate_limit_headers"
    by (auto simp: picked_headers_def split: option.splits)
  show ?thesis
  proof (cases "hr_status h = 200")
    case False
    then show ?thesis
      using Post_response h headers by (simp add: do_complete_def provider_response_of_def)
  next
    case True
    then show ?thesis
      using Post_response h headers
      by (cases rule: read_body_cases [of parse_int "hr_json h", OF refl])
        (auto simp: do_complete_def malformed_response_def provider_response_of_def)
  qed
next
  case (Post_transport m)
  then show ?thesis using assms by (simp add: do_complete_def)
qed (use assms in auto)

definition demo_reply_null_usage :: http_response where
  "demo_reply_null_usage = \<lparr>hr_status = 200, hr_text = [],
     hr_json = Some (JObj [(''choices'', JList [JObj [(''message'', JObj [(''content'', JStr ''ok'')])]]),
       (''usage'', JNull)]), hr_headers = []\<rparr>"

lemma live_call_outcomes_witness:
  "do_complete (\<lambda>s. None) (Post_response demo_reply_null_usage) = Out_raise Attribute_error \<and>
   usage_no_object (the (hr_json demo_reply_null_usage))"
proof -
  have "do_complete (\<lambda>s. None) (Post_response demo_reply_null_usage) = Out_raise Attribute_error"
    by code_simp
  then show ?thesis
    using live_call_outcomes [of "Post_response demo_reply_null_usage" demo_reply_null_usage "[]" "\<lambda>s. None"]
    by (simp split: option.splits)
qed

end
