(* ===== verification/MockProvider.thy ===== *)
theory MockProvider
  imports ProviderBase
begin

text \<open>
  The chaos provider of \<open>providers/mock.py\<close>.  The draws of its random generator are arguments, one
  for each place that draws, used only when that place is reached.  With \<open>simulate_delay\<close> a call
  is suspended between its two halves, \<open>mock_begin\<close> and \<open>mock_finish\<close>; without it they run
  together as \<open>mock_complete\<close>.  The text of a prompt's \<open>repr\<close> is a parameter.
\<close>

section \<open>State\<close>

record mock_config =
  mk_p_429 :: pyfloat
  mk_p_500 :: pyfloat
  mk_p_400 :: pyfloat
  mk_p_timeout :: pyfloat
  mk_p_unexpected_exception :: pyfloat
  mk_latency_mean :: pyfloat
  mk_latency_jitter :: pyfloat
  mk_hard_rpm_ceiling :: "int option"
  mk_window_s :: pyfloat
  mk_fail_after_n :: "int option"
  mk_fatal_status :: int
  mk_malformed_response_rate :: pyfloat
  mk_simulate_delay :: bool
  mk_cost_per_1m_input :: pyfloat
  mk_cost_per_1m_output :: pyfloat

definition default_mock_config :: mock_config where
  "default_mock_config =
     \<lparr>mk_p_429 = 0, mk_p_500 = 0, mk_p_400 = 0, mk_p_timeout = 0, mk_p_unexpected_exception = 0,
      mk_latency_mean = 1 / 20, mk_latency_jitter = 1 / 50, mk_hard_rpm_ceiling = None,
      mk_window_s = 60, mk_fail_after_n = None, mk_fatal_status = 402,
      mk_malformed_response_rate = 0, mk_simulate_delay = False, mk_cost_per_1m_input = 1 / 20,
      mk_cost_per_1m_output = 9 / 20\<rparr>"

record mock_provider =
  mp_cfg :: mock_config
  mp_call_count :: int
  mp_request_timestamps :: "pyfloat list"

definition new_mock_provider :: "mock_config \<Rightarrow> mock_provider" where
  "new_mock_provider cfg = \<lparr>mp_cfg = cfg, mp_call_count = 0, mp_request_timestamps = []\<rparr>"

text \<open>The draws of one call: \<open>gauss\<close> for the latency, five calls of \<open>random\<close>, \<open>randint\<close> and the last
  \<open>random\<close>.\<close>

record mock_draws =
  md_gauss :: pyfloat
  md_unexpected :: pyfloat
  md_timeout :: pyfloat
  md_429 :: pyfloat
  md_500 :: pyfloat
  md_400 :: pyfloat
  md_tokens :: int
  md_malformed :: pyfloat

section \<open>Operations\<close>

definition mock_prune_window :: "pyfloat \<Rightarrow> mock_provider \<Rightarrow> mock_provider" where
  "mock_prune_window now m =
     m\<lparr>mp_request_timestamps :=
       dropWhile (\<lambda>t. t < now - mk_window_s (mp_cfg m)) (mp_request_timestamps m)\<rparr>"

definition mock_headers :: "mock_provider \<Rightarrow> int \<Rightarrow> pyfloat \<Rightarrow> string pydict" where
  "mock_headers m remaining_requests reset_requests =
     (let limit = py_or_int (mk_hard_rpm_ceiling (mp_cfg m)) 120 in
      [(''x-ratelimit-limit-requests'', py_str_int limit),
       (''x-ratelimit-remaining-requests'', py_str_int remaining_requests),
       (''x-ratelimit-reset-requests'', py_str_int (py_int reset_requests)),
       (''x-ratelimit-limit-tokens-per-minute'', ''500000''),
       (''x-ratelimit-remaining-tokens-per-minute'', ''500000''),
       (''x-ratelimit-reset-tokens-per-minute'', ''0'')])"

definition mock_remaining :: "pyfloat \<Rightarrow> mock_provider \<Rightarrow> int \<times> mock_provider" where
  "mock_remaining now m =
     (case mk_hard_rpm_ceiling (mp_cfg m) of
        None \<Rightarrow> (999, m)
      | Some quota \<Rightarrow>
          (let m = mock_prune_window now m
           in (max 0 (quota - int (length (mp_request_timestamps m))), m)))"

text \<open>The first half: count the call, read the clock, and the latency to sleep, if any.\<close>

definition mock_begin :: "mock_draws \<Rightarrow> mock_provider \<Rightarrow> pyfloat option \<times> mock_provider" where
  "mock_begin d m =
     (let m = m\<lparr>mp_call_count := mp_call_count m + 1\<rparr> in
      (if mk_simulate_delay (mp_cfg m) then Some (max 0 (md_gauss d)) else None, m))"

text \<open>The admission: the fatal condition, then the rolling window.  \<open>Inl\<close> is the outcome of a call that
  was not admitted.\<close>

definition mock_admit :: "pyfloat \<Rightarrow> mock_provider \<Rightarrow> (provider_outcome + unit) \<times> mock_provider" where
  "mock_admit now m =
     (if (case mk_fail_after_n (mp_cfg m) of None \<Rightarrow> False | Some n \<Rightarrow> n < mp_call_count m) then
        (Inl (Out_response ((provider_response_of (mk_fatal_status (mp_cfg m)))
           \<lparr>resp_text := ''mock: fatal condition injected''\<rparr>)), m)
      else
        (case mk_hard_rpm_ceiling (mp_cfg m) of
           None \<Rightarrow> (Inr (), m)
         | Some quota \<Rightarrow>
             (let m = mock_prune_window now m in
              if quota \<le> int (length (mp_request_timestamps m)) then
                (case mp_request_timestamps m of
                   [] \<Rightarrow> (Inl (Out_raise Index_error), m)
                 | oldest # _ \<Rightarrow>
                     (Inl (Out_response ((provider_response_of 429)
                        \<lparr>resp_text := ''mock: rate limit exceeded'',
                         resp_headers := mock_headers m 0 (oldest + mk_window_s (mp_cfg m))\<rparr>)), m))
              else
                (Inr (), m\<lparr>mp_request_timestamps := mp_request_timestamps m @ [now]\<rparr>))))"

definition mock_draw_outcome ::
    "(string \<Rightarrow> string) \<Rightarrow> mock_draws \<Rightarrow> string \<Rightarrow> int \<Rightarrow> pyfloat \<Rightarrow> mock_provider
      \<Rightarrow> provider_outcome \<times> mock_provider" where
  "mock_draw_outcome py_repr_str d prompt max_tokens now m =
     (let cfg = mp_cfg m in
      if md_unexpected d < mk_p_unexpected_exception cfg then
        (Out_raise (Runtime_error ''mock: simulated unexpected provider bug''), m)
      else if md_timeout d < mk_p_timeout cfg then
        (Out_raise (Provider_transport_error ''mock: simulated timeout''), m)
      else if md_429 d < mk_p_429 cfg then
        (Out_response ((provider_response_of 429)
           \<lparr>resp_text := ''mock: simulated throttle'', resp_headers := mock_headers m 0 (now + 1)\<rparr>), m)
      else if md_500 d < mk_p_500 cfg then
        (Out_response ((provider_response_of 500)
           \<lparr>resp_text := ''mock: simulated server error'', resp_headers := mock_headers m 999 0\<rparr>), m)
      else if md_400 d < mk_p_400 cfg then
        (Out_response ((provider_response_of 400)
           \<lparr>resp_text := ''mock: simulated invalid request'', resp_headers := mock_headers m 999 0\<rparr>), m)
      else if max_tokens < max_tokens div 2 then
        (Out_raise Value_error, m)
      else
        (let input_tokens = max 1 (int (length prompt) div 4);
             output_tokens = min max_tokens (max 1 (md_tokens d));
             malformed' = (md_malformed d < mk_malformed_response_rate cfg);
             (remaining, m) = mock_remaining now m
         in (Out_response
               \<lparr>status_code = 200,
                resp_text = (if malformed' then []
                  else ''mock completion for: '' @ py_repr_str (take 32 prompt)),
                resp_input_tokens = input_tokens, resp_output_tokens = output_tokens,
                malformed = malformed', resp_headers = mock_headers m remaining 0\<rparr>, m)))"

text \<open>The second half of \<open>complete\<close>.\<close>

definition mock_finish ::
    "(string \<Rightarrow> string) \<Rightarrow> mock_draws \<Rightarrow> string \<Rightarrow> int \<Rightarrow> pyfloat \<Rightarrow> mock_provider
      \<Rightarrow> provider_outcome \<times> mock_provider" where
  "mock_finish py_repr_str d prompt max_tokens now m =
     (case mock_admit now m of
        (Inl out, m) \<Rightarrow> (out, m)
      | (Inr _, m) \<Rightarrow> mock_draw_outcome py_repr_str d prompt max_tokens now m)"

definition mock_complete ::
    "(string \<Rightarrow> string) \<Rightarrow> mock_draws \<Rightarrow> string \<Rightarrow> int \<Rightarrow> pyfloat \<Rightarrow> mock_provider
      \<Rightarrow> provider_outcome \<times> mock_provider" where
  "mock_complete py_repr_str d prompt max_tokens now m =
     mock_finish py_repr_str d prompt max_tokens now (snd (mock_begin d m))"

definition mock_prices :: "mock_provider \<Rightarrow> provider_prices" where
  "mock_prices m = \<lparr>cost_per_1m_input = mk_cost_per_1m_input (mp_cfg m),
     cost_per_1m_output = mk_cost_per_1m_output (mp_cfg m)\<rparr>"

section \<open>The rolling window\<close>

text \<open>A series of calls at given times; the result lists the times of the admitted ones.\<close>

fun mock_admitted :: "pyfloat list \<Rightarrow> mock_provider \<Rightarrow> pyfloat list" where
  "mock_admitted [] m = []"
| "mock_admitted (t # ts) m =
     (let (r, m') = mock_admit t (m\<lparr>mp_call_count := mp_call_count m + 1\<rparr>)
      in (case r of Inl _ \<Rightarrow> [] | Inr _ \<Rightarrow> [t]) @ mock_admitted ts m')"

text \<open>How many of the times lie in the window that ends at \<open>t\<close>.\<close>

definition in_window :: "pyfloat \<Rightarrow> pyfloat \<Rightarrow> pyfloat list \<Rightarrow> nat" where
  "in_window w t ts = length (filter (\<lambda>u. t - w \<le> u \<and> u \<le> t) ts)"

lemma mock_prune_frame [frame]:
  "mp_cfg (mock_prune_window now m) = mp_cfg m"
  "mp_call_count (mock_prune_window now m) = mp_call_count m"
  by (simp_all add: mock_prune_window_def)

lemma mock_admit_cfg [frame]: "mp_cfg (snd (mock_admit now m)) = mp_cfg m"
  by (auto simp: mock_admit_def Let_def frame split: option.split list.split)

lemma sorted_dropWhile_less:
  "sorted (ts :: pyfloat list) \<Longrightarrow> dropWhile (\<lambda>t. t < x) ts = filter (\<lambda>t. x \<le> t) ts"
proof (induction ts)
  case (Cons a ts)
  show ?case
  proof (cases "a < x")
    case False
    then have "\<forall>y \<in> set ts. x \<le> y" using Cons.prems by fastforce
    then show ?thesis using False by simp
  qed (use Cons in simp)
qed simp

lemma length_filter_mono:
  assumes "\<And>u. u \<in> set us \<Longrightarrow> P u \<Longrightarrow> Q u"
  shows "length (filter P us) \<le> length (filter Q us)"
  using assms by (induction us) (auto simp: le_Suc_eq)

text \<open>The timestamps kept are the admitted times that a window may still see, and no window has seen
  more than the quota.\<close>

definition window_inv :: "int \<Rightarrow> pyfloat \<Rightarrow> pyfloat \<Rightarrow> pyfloat list \<Rightarrow> mock_provider \<Rightarrow> bool" where
  "window_inv c w now hist m \<longleftrightarrow>
     mk_hard_rpm_ceiling (mp_cfg m) = Some c \<and> mk_window_s (mp_cfg m) = w \<and>
     sorted hist \<and> (\<forall>u \<in> set hist. u \<le> now) \<and>
     (\<exists>x \<le> now - w. mp_request_timestamps m = filter (\<lambda>u. x \<le> u) hist) \<and>
     (\<forall>t. int (in_window w t hist) \<le> c)"

lemma window_inv_later:
  assumes "window_inv c w now hist m" "now \<le> now'"
  shows "window_inv c w now' hist (m\<lparr>mp_call_count := n\<rparr>)"
proof -
  obtain x where "x \<le> now - w" "mp_request_timestamps m = filter (\<lambda>u. x \<le> u) hist"
    using assms(1) by (auto simp: window_inv_def)
  then have "\<exists>x \<le> now' - w. mp_request_timestamps m = filter (\<lambda>u. x \<le> u) hist"
    using assms(2) by (intro exI [of _ x]) simp
  then show ?thesis
    using assms by (auto simp: window_inv_def)
qed

lemma window_inv_prune:
  assumes "window_inv c w now hist m"
  shows "mp_request_timestamps (mock_prune_window now m) = filter (\<lambda>u. now - w \<le> u) hist"
proof -
  obtain x where x: "x \<le> now - w" "mp_request_timestamps m = filter (\<lambda>u. x \<le> u) hist"
    using assms by (auto simp: window_inv_def)
  have "mp_request_timestamps (mock_prune_window now m) =
      filter (\<lambda>u. now - w \<le> u) (filter (\<lambda>u. x \<le> u) hist)"
  proof -
    have "sorted (filter (\<lambda>u. x \<le> u) hist)" "mk_window_s (mp_cfg m) = w"
      using assms by (simp_all add: window_inv_def sorted_wrt_filter)
    from this(2) sorted_dropWhile_less [OF this(1), of "now - w"] show ?thesis
      by (simp add: mock_prune_window_def x(2) del: filter_filter)
  qed
  also have "\<dots> = filter (\<lambda>u. now - w \<le> u) hist"
    using x(1) by (auto intro!: filter_cong)
  finally show ?thesis .
qed

lemma window_inv_admit:
  assumes inv: "window_inv c w now hist m" and "0 \<le> w"
    and few: "int (length (filter (\<lambda>u. now - w \<le> u) hist)) < c"
    and m': "mp_cfg m' = mp_cfg m"
      "mp_request_timestamps m' = filter (\<lambda>u. now - w \<le> u) hist @ [now]"
  shows "window_inv c w now (hist @ [now]) m'"
proof -
  have le: "u \<le> now" if "u \<in> set hist" for u
    using inv that by (simp add: window_inv_def)
  have "int (in_window w t (hist @ [now])) \<le> c" for t
  proof (cases "t - w \<le> now \<and> now \<le> t")
    case True
    have "length (filter (\<lambda>u. t - w \<le> u \<and> u \<le> t) hist) \<le> length (filter (\<lambda>u. now - w \<le> u) hist)"
      using True by (intro length_filter_mono) auto
    then show ?thesis using few True by (simp add: in_window_def)
  next
    case False
    then have "in_window w t (hist @ [now]) = in_window w t hist"
      by (auto simp: in_window_def)
    then show ?thesis using inv by (simp add: window_inv_def)
  qed
  moreover have "sorted (hist @ [now])"
    using inv le by (simp add: window_inv_def sorted_append)
  ultimately show ?thesis
    using inv assms(2) le m' by (auto simp: window_inv_def)
qed

lemma window_inv_step:
  assumes inv: "window_inv c w now hist m" and "0 \<le> w" and admit: "mock_admit now m = (r, m')"
  shows "window_inv c w now (hist @ (case r of Inl _ \<Rightarrow> [] | Inr _ \<Rightarrow> [now])) m'"
proof -
  have quota: "mk_hard_rpm_ceiling (mp_cfg m) = Some c" "mk_window_s (mp_cfg m) = w"
    using inv by (simp_all add: window_inv_def)
  let ?p = "mock_prune_window now m"
  note pruned = window_inv_prune [OF inv]
  have keep: "window_inv c w now hist ?p"
    using inv pruned by (auto simp: window_inv_def frame)
  show ?thesis
  proof (cases "case mk_fail_after_n (mp_cfg m) of None \<Rightarrow> False | Some n \<Rightarrow> n < mp_call_count m")
    case True
    then show ?thesis using admit inv by (auto simp: mock_admit_def)
  next
    case alive: False
    show ?thesis
    proof (cases "c \<le> int (length (mp_request_timestamps ?p))")
      case True
      then have "m' = ?p \<and> isl r"
        using admit alive quota(1)
        by (cases "mp_request_timestamps ?p") (auto simp: mock_admit_def Let_def)
      then show ?thesis using keep by (cases r) auto
    next
      case False
      then have r: "r = Inr ()"
        and m': "m' = ?p\<lparr>mp_request_timestamps := mp_request_timestamps ?p @ [now]\<rparr>"
        using admit alive quota(1) by (auto simp: mock_admit_def Let_def)
      have "window_inv c w now (hist @ [now]) m'"
        using False m' pruned by (intro window_inv_admit [OF inv assms(2)]) (simp_all add: frame)
      then show ?thesis using r by simp
    qed
  qed
qed

lemma window_inv_calls:
  assumes "window_inv c w now hist m" "0 \<le> w" "sorted (now # ts)"
  shows "int (in_window w t (hist @ mock_admitted ts m)) \<le> c"
  using assms
proof (induction ts arbitrary: now hist m)
  case Nil
  then show ?case by (simp add: window_inv_def)
next
  case (Cons u ts)
  obtain r m' where step: "mock_admit u (m\<lparr>mp_call_count := mp_call_count m + 1\<rparr>) = (r, m')"
    by fastforce
  have "window_inv c w u hist (m\<lparr>mp_call_count := mp_call_count m + 1\<rparr>)"
    using window_inv_later [OF Cons.prems(1)] Cons.prems(3) by simp
  from window_inv_step [OF this Cons.prems(2) step]
  have "window_inv c w u (hist @ (case r of Inl _ \<Rightarrow> [] | Inr _ \<Rightarrow> [u])) m'" .
  from Cons.IH [OF this Cons.prems(2)] Cons.prems(3)
  show ?case by (simp add: step)
qed

text \<open>The mock's quota is a real rolling window: however the calls are spaced, no window of
  \<open>window_s\<close> seconds ever contains more than \<open>hard_rpm_ceiling\<close> admitted calls, so the tests that
  drive the engine against it exercise the account limit they claim to.\<close>

lemma mock_quota_respected:
  assumes "mk_hard_rpm_ceiling cfg = Some c" "0 \<le> c" "0 \<le> mk_window_s cfg" "sorted ts"
  shows "int (in_window (mk_window_s cfg) t (mock_admitted ts (new_mock_provider cfg))) \<le> c"
proof (cases ts)
  case Nil
  then show ?thesis using assms(2) by (simp add: in_window_def)
next
  case (Cons u us)
  have "window_inv c (mk_window_s cfg) u [] (new_mock_provider cfg)"
    using assms(1,2) by (auto simp: window_inv_def new_mock_provider_def in_window_def)
  then show ?thesis
    using window_inv_calls [of c "mk_window_s cfg" u "[]" "new_mock_provider cfg" ts t] assms Cons
    by simp
qed

lemma mock_quota_respected_witness:
  "mock_admitted [0, 1, 2, 61, 62] (new_mock_provider
     (default_mock_config\<lparr>mk_hard_rpm_ceiling := Some 2\<rparr>)) = [0, 1, 61, 62] \<and>
   int (in_window 60 62 (mock_admitted [0, 1, 2, 61, 62] (new_mock_provider
     (default_mock_config\<lparr>mk_hard_rpm_ceiling := Some 2\<rparr>)))) \<le> 2"
proof
  show "mock_admitted [0, 1, 2, 61, 62] (new_mock_provider
     (default_mock_config\<lparr>mk_hard_rpm_ceiling := Some 2\<rparr>)) = [0, 1, 61, 62]"
    by code_simp
  show "int (in_window 60 62 (mock_admitted [0, 1, 2, 61, 62] (new_mock_provider
     (default_mock_config\<lparr>mk_hard_rpm_ceiling := Some 2\<rparr>)))) \<le> 2"
    using mock_quota_respected [of "default_mock_config\<lparr>mk_hard_rpm_ceiling := Some 2\<rparr>" 2
        "[0, 1, 2, 61, 62]" 62]
    by (simp add: default_mock_config_def)
qed

end
