(* ===== verification/Webhook.thy ===== *)
theory Webhook
  imports Store Retry "HOL-Library.Word"
begin

text \<open>
  Terminal-state webhooks: \<open>extensions/webhook.py\<close> and the call of it in \<open>core/scheduler.py\<close>.
  The URL parser (\<open>urlparse\<close>: scheme and host name, or the \<open>ValueError\<close> it raises), the resolver
  (\<open>getaddrinfo\<close>), HMAC-SHA256, \<open>json.dumps\<close>, \<open>repr\<close> of a string and the HTTP client are
  parameters.  An IPv4 address is its 32 bits, with the ranges that Python 3.12 gives in the \<open>ipaddress\<close> module written
  out; of an IPv6 address the model keeps the five flags the module computes.
\<close>

section \<open>Addresses\<close>

record ip_flags =
  ip_is_private :: bool
  ip_is_loopback :: bool
  ip_is_link_local :: bool
  ip_is_reserved :: bool
  ip_is_multicast :: bool

datatype ip_address = IPv4 "32 word" | IPv6 ip_flags

definition ipv4 :: "nat \<Rightarrow> nat \<Rightarrow> nat \<Rightarrow> nat \<Rightarrow> 32 word" where
  "ipv4 a b c d = of_nat (((a * 256 + b) * 256 + c) * 256 + d)"

text \<open>The address lies in the network \<open>net/n\<close>.\<close>

definition in_net :: "32 word \<Rightarrow> 32 word \<Rightarrow> nat \<Rightarrow> bool" where
  "in_net a net n \<longleftrightarrow> drop_bit (32 - n) a = drop_bit (32 - n) net"

definition ipv4_private_networks :: "(32 word \<times> nat) list" where
  "ipv4_private_networks =
     [(ipv4 0 0 0 0, 8), (ipv4 10 0 0 0, 8), (ipv4 127 0 0 0, 8), (ipv4 169 254 0 0, 16),
      (ipv4 172 16 0 0, 12), (ipv4 192 0 0 0, 24), (ipv4 192 0 0 170, 31), (ipv4 192 0 2 0, 24),
      (ipv4 192 168 0 0, 16), (ipv4 198 18 0 0, 15), (ipv4 198 51 100 0, 24), (ipv4 203 0 113 0, 24),
      (ipv4 240 0 0 0, 4), (ipv4 255 255 255 255, 32)]"

definition ipv4_flags :: "32 word \<Rightarrow> ip_flags" where
  "ipv4_flags a =
     \<lparr>ip_is_private = list_ex (\<lambda>(net, n). in_net a net n) ipv4_private_networks \<and>
        \<not> in_net a (ipv4 192 0 0 9) 32 \<and> \<not> in_net a (ipv4 192 0 0 10) 32,
      ip_is_loopback = in_net a (ipv4 127 0 0 0) 8,
      ip_is_link_local = in_net a (ipv4 169 254 0 0) 16,
      ip_is_reserved = in_net a (ipv4 240 0 0 0) 4,
      ip_is_multicast = in_net a (ipv4 224 0 0 0) 4\<rparr>"

fun flags_of :: "ip_address \<Rightarrow> ip_flags" where
  "flags_of (IPv4 a) = ipv4_flags a"
| "flags_of (IPv6 f) = f"

text \<open>The test at the end of \<open>validate_webhook_url\<close>.\<close>

definition disallowed_ip :: "ip_address \<Rightarrow> bool" where
  "disallowed_ip ip =
     (let f = flags_of ip in
      ip_is_private f \<or> ip_is_loopback f \<or> ip_is_link_local f \<or> ip_is_reserved f \<or> ip_is_multicast f)"

section \<open>Parameters\<close>

record hook_env =
  he_urlparse :: "string \<Rightarrow> py_exn + string \<times> string option"
  he_getaddrinfo :: "string \<Rightarrow> string + ip_address list"
  he_hmac_sha256 :: "string \<Rightarrow> string \<Rightarrow> string"
  he_dumps :: "json \<Rightarrow> string"
  he_repr_str :: "string \<Rightarrow> string"
  he_ip_str :: "ip_address \<Rightarrow> string"

text \<open>What one post returns or raises.  \<open>Hook_raise\<close> is an exception that is no \<open>httpx.HTTPError\<close>.\<close>

datatype hook_answer = Hook_status int | Hook_http_error string | Hook_raise py_exn

section \<open>Validation and signature\<close>

definition hook_max_attempts :: nat where "hook_max_attempts = 3"

definition validate_webhook_url :: "hook_env \<Rightarrow> string \<Rightarrow> bool \<Rightarrow> py_exn + unit" where
  "validate_webhook_url H url allow_private =
     and_then (he_urlparse H url) (\<lambda>(scheme, hostname).
       if scheme \<notin> {''http'', ''https''} then
         Inl (Webhook_SSRF_error (''unsupported scheme: '' @ he_repr_str H scheme))
       else
         (case hostname of
            None \<Rightarrow> Inl (Webhook_SSRF_error ''webhook URL has no hostname'')
          | Some host \<Rightarrow>
              if host = [] then Inl (Webhook_SSRF_error ''webhook URL has no hostname'')
              else if allow_private then Inr ()
              else
                (case he_getaddrinfo H host of
                   Inl exc \<Rightarrow> Inl (Webhook_SSRF_error (''could not resolve webhook host: '' @ exc))
                 | Inr infos \<Rightarrow>
                     (case find disallowed_ip infos of
                        Some ip \<Rightarrow> Inl (Webhook_SSRF_error
                          (''webhook host resolves to a disallowed address: '' @ he_ip_str H ip))
                      | None \<Rightarrow> Inr ()))))"

definition sign_payload :: "hook_env \<Rightarrow> string \<Rightarrow> string \<Rightarrow> string" where
  "sign_payload H payload secret = he_hmac_sha256 H secret payload"

section \<open>Delivery\<close>

record hook_post =
  hp_url :: string
  hp_content :: string
  hp_headers :: "string pydict"

text \<open>The attempts: how many posts are made, the pauses between them, and the result or exception.\<close>

fun deliver_loop ::
    "(nat \<Rightarrow> hook_answer) \<Rightarrow> (nat \<Rightarrow> pyfloat) \<Rightarrow> nat list \<Rightarrow> nat list \<times> pyfloat list \<times> (py_exn + bool)" where
  "deliver_loop ans draw [] = ([], [], Inr False)"
| "deliver_loop ans draw (attempt # rest) =
     (let pause = (if attempt < hook_max_attempts
                   then [full_jitter_delay attempt (1 / 2) 30 (draw attempt)] else []);
          (posts, pauses, res) = deliver_loop ans draw rest;
          retried = (attempt # posts, pause @ pauses, res)
      in case ans attempt of
           Hook_status code \<Rightarrow> if code < 300 then ([attempt], [], Inr True) else retried
         | Hook_http_error msg \<Rightarrow> retried
         | Hook_raise e \<Rightarrow> ([attempt], [], Inl e))"

definition deliver_webhook ::
    "hook_env \<Rightarrow> (nat \<Rightarrow> hook_answer) \<Rightarrow> (nat \<Rightarrow> pyfloat) \<Rightarrow> string \<Rightarrow> json \<Rightarrow> string \<Rightarrow> bool
      \<Rightarrow> hook_post list \<times> pyfloat list \<times> (py_exn + bool)" where
  "deliver_webhook H ans draw url payload secret allow_private =
     (case validate_webhook_url H url allow_private of
        Inl e \<Rightarrow> ([], [], Inl e)
      | Inr _ \<Rightarrow>
          (let body = he_dumps H payload;
               post = \<lparr>hp_url = url, hp_content = body,
                 hp_headers = [(''Content-Type'', ''application/json''),
                               (''X-Signature'', sign_payload H body secret)]\<rparr>;
               (attempts, pauses, res) = deliver_loop ans draw [1..<Suc hook_max_attempts]
           in (map (\<lambda>_. post) attempts, pauses, res)))"

section \<open>The scheduler's call\<close>

definition webhook_payload :: "job_record \<Rightarrow> json" where
  "webhook_payload r = JObj
     [(''job_id'', JStr (jr_job_id r)), (''status'', JStr (js_value (jr_status r))),
      (''counts'', JObj (counts_asdict (jr_counts r))),
      (''download_url'', JStr (''/job/'' @ jr_job_id r @ ''/download''))]"

text \<open>\<open>JobRunner._deliver_webhook_if_configured\<close>: the posts made and the exception that leaves it.\<close>

definition deliver_if_configured ::
    "hook_env \<Rightarrow> (nat \<Rightarrow> hook_answer) \<Rightarrow> (nat \<Rightarrow> pyfloat) \<Rightarrow> bool \<Rightarrow> string \<Rightarrow> bool \<Rightarrow> job_record
      \<Rightarrow> hook_post list \<times> py_exn option" where
  "deliver_if_configured H ans draw has_client secret allow_private r =
     (case jc_webhook_url (jr_config r) of
        None \<Rightarrow> ([], None)
      | Some url \<Rightarrow>
          if url = [] \<or> \<not> has_client then ([], None)
          else
            (let (posts, pauses, res) =
                   deliver_webhook H ans draw url (webhook_payload r) secret allow_private
             in (posts,
                 case res of
                   Inl (Webhook_SSRF_error msg) \<Rightarrow> None
                 | Inl e \<Rightarrow> Some e
                 | Inr b \<Rightarrow> None)))"

section \<open>Facts\<close>

lemma in_net_div:
  assumes "n \<le> 32"
  shows "in_net a net n \<longleftrightarrow> unat a div 2 ^ (32 - n) = unat net div 2 ^ (32 - n)"
  by (simp add: in_net_def word_unat_eq_iff unat_drop_bit_eq flip: drop_bit_eq_div)

lemma disallowed_ipv4:
  assumes "\<not> disallowed_ip (IPv4 a)"
  shows "unat a div 2 ^ 24 \<notin> {0, 10, 127} \<and> unat a div 2 ^ 24 < 224 \<and>
    unat a div 2 ^ 20 \<noteq> 172 * 16 + 1 \<and> unat a div 2 ^ 16 \<notin> {169 * 256 + 254, 192 * 256 + 168}"
proof -
  have lt: "unat a < 2 ^ 32"
    using unsigned_less [of a, where ?'a = nat] by simp
  have off: "\<not> in_net a (ipv4 127 0 0 0) 8" "\<not> in_net a (ipv4 169 254 0 0) 16"
    "\<not> in_net a (ipv4 240 0 0 0) 4" "\<not> in_net a (ipv4 224 0 0 0) 4"
    using assms by (simp_all add: disallowed_ip_def ipv4_flags_def Let_def)
  have exempt: "in_net a (ipv4 192 0 0 9) 32 \<or> in_net a (ipv4 192 0 0 10) 32 \<or>
    (\<not> in_net a (ipv4 0 0 0 0) 8 \<and> \<not> in_net a (ipv4 10 0 0 0) 8 \<and>
     \<not> in_net a (ipv4 172 16 0 0) 12 \<and> \<not> in_net a (ipv4 192 168 0 0) 16)"
    using assms
    by (auto simp: disallowed_ip_def ipv4_flags_def ipv4_private_networks_def Let_def)
  have "unat a div 2 ^ 28 < 16" "unat a div 2 ^ 28 \<noteq> 15" "unat a div 2 ^ 28 \<noteq> 14"
    using off(3,4) lt by (simp_all add: in_net_div ipv4_def less_mult_imp_div_less)
  then have "unat a div 2 ^ 28 < 14"
    by linarith
  then have "unat a div 2 ^ 24 < 224"
    by (simp add: div_less_iff_less_mult)
  then show ?thesis
    using off(1,2) exempt by (auto simp: in_net_div ipv4_def)
qed

lemma validate_ok:
  assumes "validate_webhook_url H url False = Inr ()"
  obtains scheme host infos where
    "he_urlparse H url = Inr (scheme, Some host)" "scheme \<in> {''http'', ''https''}" "host \<noteq> []"
    "he_getaddrinfo H host = Inr infos" "\<forall>ip \<in> set infos. \<not> disallowed_ip ip"
  using assms
  by (auto simp: validate_webhook_url_def and_then_Inr find_None_iff
      split: prod.splits if_splits option.splits sum.splits)

lemma deliver_loop_posts:
  assumes "deliver_loop ans draw as = (posts, pauses, res)"
  shows "\<exists>rest. as = posts @ rest"
  using assms
proof (induction as arbitrary: posts pauses res)
  case (Cons a as)
  obtain p q r where "deliver_loop ans draw as = (p, q, r)"
    by (cases "deliver_loop ans draw as")
  with Cons show ?case
    by (auto simp: Let_def split: hook_answer.splits if_splits)
qed simp

fun hook_failed :: "hook_answer \<Rightarrow> bool" where
  "hook_failed (Hook_status code) \<longleftrightarrow> 300 \<le> code"
| "hook_failed (Hook_http_error msg) \<longleftrightarrow> True"
| "hook_failed (Hook_raise e) \<longleftrightarrow> False"

text \<open>How the attempts end, in terms of the last answer.\<close>

lemma deliver_loop_result:
  assumes "deliver_loop ans draw as = (posts, pauses, res)"
  shows "(res = Inr True \<longrightarrow> posts \<noteq> [] \<and> (\<exists>code < 300. ans (last posts) = Hook_status code)) \<and>
    (res = Inr False \<longrightarrow> posts = as \<and> (\<forall>a \<in> set as. hook_failed (ans a))) \<and>
    (\<forall>e. res = Inl e \<longrightarrow> posts \<noteq> [] \<and> ans (last posts) = Hook_raise e)"
  using assms
proof (induction as arbitrary: posts pauses res)
  case (Cons a as)
  obtain p q r where rest: "deliver_loop ans draw as = (p, q, r)"
    by (cases "deliver_loop ans draw as")
  show ?case
  proof (cases "hook_failed (ans a)")
    case True
    then have "posts = a # p" "res = r"
      using Cons.prems rest by (cases "ans a"; simp add: Let_def)+
    then show ?thesis
      using Cons.IH [OF rest] True by auto
  next
    case False
    then show ?thesis
      using Cons.prems rest by (cases "ans a") (auto simp: Let_def)
  qed
qed simp

lemma deliver_loop_pauses:
  assumes "deliver_loop ans draw as = (posts, pauses, res)"
  shows "length pauses \<le> length (filter (\<lambda>a. a < hook_max_attempts) as) \<and>
    (\<forall>d \<in> set pauses. \<exists>a \<in> set as. a < hook_max_attempts \<and> d = full_jitter_delay a (1 / 2) 30 (draw a))"
  using assms
proof (induction as arbitrary: posts pauses res)
  case (Cons a as)
  obtain p q r where rest: "deliver_loop ans draw as = (p, q, r)"
    by (cases "deliver_loop ans draw as")
  show ?case
    using Cons.prems Cons.IH [OF rest] rest
    by (cases "ans a"; cases "a < hook_max_attempts") (auto simp: Let_def split: if_splits)
qed simp

lemma attempts_list: "[1..<Suc hook_max_attempts] = [1, 2, 3]"
  by code_simp

text \<open>The attempts made are an initial part of the three.\<close>

lemma three_attempts:
  assumes "deliver_loop ans draw [1, 2, 3] = (as, pauses, res)"
  shows "length as \<le> 3" "as \<noteq> [] \<Longrightarrow> last as = length as" "length as = 3 \<Longrightarrow> as = [1, 2, 3]"
proof -
  obtain rest where "[1, 2, 3] = as @ rest"
    using deliver_loop_posts [OF assms] by blast
  then consider "as = []" | "as = [1]" | "as = [1, 2]" | "as = [1, 2, 3]"
    by (auto simp: Cons_eq_append_conv)
  then show "length as \<le> 3" "as \<noteq> [] \<Longrightarrow> last as = length as" "length as = 3 \<Longrightarrow> as = [1, 2, 3]"
    by (cases; simp)+
qed

lemma three_attempts_pauses:
  assumes "deliver_loop ans draw [1, 2, 3] = (as, pauses, res)" "\<forall>k. 0 \<le> draw k \<and> draw k < 1"
  shows "length pauses \<le> 2" "\<forall>d \<in> set pauses. 0 \<le> d \<and> d \<le> 2"
proof -
  show "length pauses \<le> 2"
    using deliver_loop_pauses [OF assms(1)] by (simp add: hook_max_attempts_def)
  show "\<forall>d \<in> set pauses. 0 \<le> d \<and> d \<le> 2"
  proof
    fix d
    assume "d \<in> set pauses"
    then obtain a where "a \<in> {1, 2}" "d = full_jitter_delay a (1 / 2) 30 (draw a)"
      using deliver_loop_pauses [OF assms(1)] by (auto simp: hook_max_attempts_def)
    then show "0 \<le> d \<and> d \<le> 2"
      using py_uniform_bounds [of "draw a" 1] py_uniform_bounds [of "draw a" 2] assms(2)
      by (auto simp: full_jitter_delay_def intro: order_trans)
  qed
qed

lemma three_attempts_result:
  assumes "deliver_loop ans draw [1, 2, 3] = (as, pauses, res)"
  shows "res = Inr True \<longleftrightarrow> as \<noteq> [] \<and> (\<exists>code < 300. ans (length as) = Hook_status code)"
    "res = Inr False \<longleftrightarrow> length as = 3 \<and> hook_failed (ans 3)"
proof -
  note as = three_attempts [OF assms] and ends = deliver_loop_result [OF assms]
  consider (raised) e where "res = Inl e" | (sent) "res = Inr True" | (gave_up) "res = Inr False"
    by (cases res) auto
  then have "(res = Inr True \<longleftrightarrow> as \<noteq> [] \<and> (\<exists>code < 300. ans (length as) = Hook_status code)) \<and>
      (res = Inr False \<longleftrightarrow> length as = 3 \<and> hook_failed (ans 3))"
  proof cases
    case raised
    then have "ans (length as) = Hook_raise e" using ends as(2) by auto
    then show ?thesis using raised by (cases "length as = 3") simp_all
  next
    case sent
    then obtain code where "as \<noteq> []" "code < 300" "ans (length as) = Hook_status code"
      using ends as(2) by auto
    then show ?thesis using sent by (cases "length as = 3") simp_all
  next
    case gave_up
    then have last: "as = [1, 2, 3]" "hook_failed (ans 3)" using ends by auto
    then have "\<not> (\<exists>code < 300. ans 3 = Hook_status code)" by auto
    then show ?thesis using gave_up last by (simp add: numeral_3_eq_3)
  qed
  then show "res = Inr True \<longleftrightarrow> as \<noteq> [] \<and> (\<exists>code < 300. ans (length as) = Hook_status code)"
    "res = Inr False \<longleftrightarrow> length as = 3 \<and> hook_failed (ans 3)"
    by blast+
qed

lemma deliver_webhook_cases:
  assumes "deliver_webhook H ans draw url payload secret allow = (posts, pauses, res)"
  obtains (refused) e where "validate_webhook_url H url allow = Inl e" "posts = []" "pauses = []" "res = Inl e"
    | (posted) as where "validate_webhook_url H url allow = Inr ()"
        "deliver_loop ans draw [1, 2, 3] = (as, pauses, res)"
        "posts = map (\<lambda>_. \<lparr>hp_url = url, hp_content = he_dumps H payload,
           hp_headers = [(''Content-Type'', ''application/json''),
             (''X-Signature'', sign_payload H (he_dumps H payload) secret)]\<rparr>) as"
  using assms unfolding deliver_webhook_def attempts_list Let_def
  by (cases "validate_webhook_url H url allow"; cases "deliver_loop ans draw [1, 2, 3]") auto

section \<open>Properties\<close>

text \<open>An address outside the ranges a server must not be made to call, by its leading bits.\<close>

fun public_target :: "ip_address \<Rightarrow> bool" where
  "public_target (IPv4 a) \<longleftrightarrow>
     unat a div 2 ^ 24 \<notin> {0, 10, 127} \<and> unat a div 2 ^ 24 < 224 \<and>
     unat a div 2 ^ 20 \<noteq> 172 * 16 + 1 \<and> unat a div 2 ^ 16 \<notin> {169 * 256 + 254, 192 * 256 + 168}"
| "public_target (IPv6 f) \<longleftrightarrow>
     \<not> (ip_is_private f \<or> ip_is_loopback f \<or> ip_is_link_local f \<or> ip_is_reserved f \<or> ip_is_multicast f)"


definition demo_hooks :: hook_env where
  "demo_hooks = \<lparr>he_urlparse = (\<lambda>u. Inr (''https'', Some u)),
     he_getaddrinfo = (\<lambda>h. if h = ''hook'' then Inr [IPv4 (ipv4 93 184 216 34)]
       else Inr [IPv4 (ipv4 169 254 169 254)]),
     he_hmac_sha256 = (\<lambda>k m. k @ ''.'' @ m), he_dumps = (\<lambda>v. ''{}''), he_repr_str = (\<lambda>s. s),
     he_ip_str = (\<lambda>ip. ''ip'')\<rparr>"


text \<open>C36. Bounded, signed delivery: a webhook is posted at most 3 times, always with the same
  body and its HMAC signature, with pauses of at most 2 seconds; it reports success exactly when its
  last post was answered below 300, and failure exactly when the URL was accepted and all three posts
  failed.\<close>

theorem webhook_delivery:
  assumes "deliver_webhook H ans draw url payload secret allow = (posts, pauses, res)"
    and "\<forall>k. 0 \<le> draw k \<and> draw k < 1"
  shows "length posts \<le> 3 \<and> length pauses \<le> 2 \<and> list_all (\<lambda>d. 0 \<le> d \<and> d \<le> 2) pauses \<and>
    list_all (\<lambda>p. hp_url p = url \<and> hp_content p = he_dumps H payload \<and>
      dict_get (hp_headers p) ''X-Signature'' =
        Some (he_hmac_sha256 H secret (he_dumps H payload))) posts \<and>
    (res = Inr True \<longleftrightarrow> posts \<noteq> [] \<and> (\<exists>code < 300. ans (length posts) = Hook_status code)) \<and>
    (res = Inr False \<longleftrightarrow> length posts = 3 \<and>
      (case ans 3 of Hook_status code \<Rightarrow> 300 \<le> code | Hook_http_error msg \<Rightarrow> True | Hook_raise e \<Rightarrow> False))"
  using assms(1)
proof (cases rule: deliver_webhook_cases)
  case refused
  then show ?thesis by simp
next
  case (posted as)
  have "hook_failed (ans 3) \<longleftrightarrow>
      (case ans 3 of Hook_status code \<Rightarrow> 300 \<le> code | Hook_http_error msg \<Rightarrow> True | Hook_raise e \<Rightarrow> False)"
    by (cases "ans 3") simp_all
  then show ?thesis
    using three_attempts(1) [OF posted(2)] three_attempts_pauses [OF posted(2) assms(2)]
      three_attempts_result [OF posted(2)] posted(3)
    by (simp add: list_all_iff sign_payload_def dict_get_def)
qed

theorem webhook_delivery_witness:
  "length (fst (deliver_webhook demo_hooks (\<lambda>k. Hook_status 503) (\<lambda>k. 1 / 2) ''hook'' JNull ''s'' False)) \<le> 3"
  using webhook_delivery [of demo_hooks "\<lambda>k. Hook_status 503" "\<lambda>k. 1 / 2" "''hook''" JNull "''s''" False
      "fst (deliver_webhook demo_hooks (\<lambda>k. Hook_status 503) (\<lambda>k. 1 / 2) ''hook'' JNull ''s'' False)"
      "fst (snd (deliver_webhook demo_hooks (\<lambda>k. Hook_status 503) (\<lambda>k. 1 / 2) ''hook'' JNull ''s'' False))"
      "snd (snd (deliver_webhook demo_hooks (\<lambda>k. Hook_status 503) (\<lambda>k. 1 / 2) ''hook'' JNull ''s'' False))"]
  by simp

text \<open>A webhook cannot disturb the job it reports on: nothing is posted without a URL and a client, a
  rejected URL is swallowed, and the only exceptions that leave the delivery are those of the URL
  parser and those of the HTTP client that are no \<open>httpx.HTTPError\<close>.\<close>

lemma webhook_errors_contained:
  assumes "deliver_if_configured H ans draw has_client secret allow r = (posts, exc)"
  shows "(jc_webhook_url (jr_config r) = None \<or> \<not> has_client \<longrightarrow> posts = [] \<and> exc = None) \<and>
    (\<forall>e. exc = Some e \<longrightarrow> (\<forall>msg. e \<noteq> Webhook_SSRF_error msg) \<and>
      ((\<exists>url. jc_webhook_url (jr_config r) = Some url \<and> he_urlparse H url = Inl e) \<or>
       (\<exists>k \<in> {1, 2, 3}. ans k = Hook_raise e)))"
proof -
  have valid: "validate_webhook_url H url allow = Inl e \<Longrightarrow>
      he_urlparse H url = Inl e \<or> (\<exists>msg. e = Webhook_SSRF_error msg)" for url e
    by (auto simp: validate_webhook_url_def and_then_def
        split: sum.splits prod.splits if_splits option.splits)
  have deliver: "he_urlparse H url = Inl e \<or> (\<exists>msg. e = Webhook_SSRF_error msg) \<or>
      (\<exists>k \<in> {1, 2, 3}. ans k = Hook_raise e)"
    if "deliver_webhook H ans draw url payload secret allow = (p, q, Inl e)" for url payload e p q
    using that
  proof (cases rule: deliver_webhook_cases)
    case refused
    then show ?thesis using valid by blast
  next
    case (posted as)
    obtain rest where rest: "[1, 2, 3] = as @ rest"
      using deliver_loop_posts [OF posted(2)] by blast
    have last: "as \<noteq> []" "ans (last as) = Hook_raise e"
      using deliver_loop_result [OF posted(2)] by auto
    then have "last as \<in> set [1, 2, 3]"
      using rest last_in_set [of as] by (metis Un_iff set_append)
    then show ?thesis using last by auto
  qed
  show ?thesis
  proof (cases "jc_webhook_url (jr_config r)")
    case None
    then show ?thesis using assms by (auto simp: deliver_if_configured_def)
  next
    case (Some url)
    obtain p q res where d: "deliver_webhook H ans draw url (webhook_payload r) secret allow = (p, q, res)"
      by (cases "deliver_webhook H ans draw url (webhook_payload r) secret allow")
    show ?thesis
    proof (cases "url = [] \<or> \<not> has_client")
      case True
      then show ?thesis using assms Some by (auto simp: deliver_if_configured_def)
    next
      case False
      then have exc: "exc = (case res of Inl (Webhook_SSRF_error msg) \<Rightarrow> None | Inl e \<Rightarrow> Some e
          | Inr b \<Rightarrow> None)"
        using assms Some d by (simp add: deliver_if_configured_def)
      show ?thesis
      proof (cases exc)
        case None
        then show ?thesis using False Some by simp
      next
        case exc_e: (Some e)
        have "res = Inl e \<and> (\<forall>msg. e \<noteq> Webhook_SSRF_error msg)"
        proof (cases res)
          case (Inl x)
          then show ?thesis using exc exc_e by (cases x) simp_all
        qed (use exc exc_e in simp)
        then show ?thesis
          using False Some exc_e deliver [of url "webhook_payload r" p q e] d by auto
      qed
    qed
  qed
qed

lemma webhook_errors_contained_witness:
  "snd (deliver_if_configured demo_hooks (\<lambda>k. Hook_status 204) (\<lambda>k. 0) True ''s'' False
     (demo_job\<lparr>jr_config := (jr_config demo_job)\<lparr>jc_webhook_url := Some ''metadata''\<rparr>\<rparr>)) = None"
proof -
  let ?d = "deliver_if_configured demo_hooks (\<lambda>k. Hook_status 204) (\<lambda>k. 0) True ''s'' False
     (demo_job\<lparr>jr_config := (jr_config demo_job)\<lparr>jc_webhook_url := Some ''metadata''\<rparr>\<rparr>)"
  obtain posts exc where d: "?d = (posts, exc)" by (cases ?d)
  show ?thesis
    using webhook_errors_contained [OF d] d by (cases exc) (auto simp: demo_hooks_def)
qed

end
