(* ===== verification/UtcTime.thy ===== *)
theory UtcTime
  imports Prelude
begin

text \<open>
  The text of a timestamp in the answers of the routes: \<open>_iso\<close> of \<open>api/routes.py\<close>, which is
  \<open>time.gmtime\<close> followed by \<open>time.strftime\<close>.  Both are translated from their documentation: the
  Gregorian calendar, counted from the first of January 1970, with every day of 86400 seconds.  What is shown is
  that the fields are a date of the calendar, and that they are that of the instant: a closed formula
  takes them back to the second.
\<close>

section \<open>The calendar\<close>

definition leap_year :: "int \<Rightarrow> bool" where
  "leap_year y \<longleftrightarrow> y mod 4 = 0 \<and> (y mod 100 \<noteq> 0 \<or> y mod 400 = 0)"

definition year_days :: "int \<Rightarrow> int" where
  "year_days y = (if leap_year y then 366 else 365)"

definition month_lengths :: "int \<Rightarrow> int list" where
  "month_lengths y = [31, if leap_year y then 29 else 28, 31, 30, 31, 30, 31, 31, 30, 31, 30, 31]"

lemma year_days_bounds: "365 \<le> year_days y" "year_days y \<le> 366"
  by (simp_all add: year_days_def)

lemma year_days_months: "year_days y = sum_list (month_lengths y)"
  by (simp add: year_days_def month_lengths_def)

section \<open>From days to a date\<close>

text \<open>The year a day is in, and its number in it.\<close>

function year_and_day :: "int \<Rightarrow> int \<Rightarrow> int \<times> int" where
  "year_and_day y d =
     (if d < 0 then year_and_day (y - 1) (d + year_days (y - 1))
      else if d < year_days y then (y, d)
      else year_and_day (y + 1) (d - year_days y))"
  by pat_completeness auto

termination
proof (relation "measure (\<lambda>(y, d). if d < 0 then 400 + nat (- d) else nat d)")
  show "((y - 1, d + year_days (y - 1)), y, d) \<in> measure (\<lambda>(y, d). if d < 0 then 400 + nat (- d) else nat d)"
    if "d < 0" for y d :: int
    using that year_days_bounds [of "y - 1"] by auto
  show "((y + 1, d - year_days y), y, d) \<in> measure (\<lambda>(y, d). if d < 0 then 400 + nat (- d) else nat d)"
    if "\<not> d < 0" "\<not> d < year_days y" for y d :: int
    using that year_days_bounds [of y] by auto
qed simp

declare year_and_day.simps [simp del]

fun month_and_day :: "int list \<Rightarrow> nat \<Rightarrow> int \<Rightarrow> nat \<times> int" where
  "month_and_day [] m d = (m, d)"
| "month_and_day (l # ls) m d = (if d < l then (m, d) else month_and_day ls (Suc m) (d - l))"

record utc_time =
  tm_year :: int
  tm_mon :: nat
  tm_mday :: int
  tm_hour :: int
  tm_min :: int
  tm_sec :: int

definition gmtime :: "pyfloat \<Rightarrow> utc_time" where
  "gmtime ts =
     (let t = \<lfloor>ts\<rfloor>; (y, yd) = year_and_day 1970 (t div 86400);
          (m, d) = month_and_day (month_lengths y) 1 yd; s = t mod 86400
      in \<lparr>tm_year = y, tm_mon = m, tm_mday = d + 1,
          tm_hour = s div 3600, tm_min = s mod 3600 div 60, tm_sec = s mod 60\<rparr>)"

definition iso_text :: "pyfloat \<Rightarrow> string" where
  "iso_text ts =
     (let g = gmtime ts; two = (\<lambda>i. zero_pad 2 (py_str_int i))
      in py_str_int (tm_year g) @ ''-'' @ two (int (tm_mon g)) @ ''-'' @ two (tm_mday g) @ ''T'' @
         two (tm_hour g) @ '':'' @ two (tm_min g) @ '':'' @ two (tm_sec g) @ ''Z'')"

section \<open>It is the date of the instant\<close>

text \<open>The days before a year, in closed form.\<close>

definition days_before_year :: "int \<Rightarrow> int" where
  "days_before_year y = 365 * (y - 1970) + ((y - 1) div 4 - (y - 1) div 100 + (y - 1) div 400 - 477)"

lemma div_pred:
  fixes y k :: int
  assumes "0 < k"
  shows "y div k = (y - 1) div k + (if y mod k = 0 then 1 else 0)"
proof -
  have y: "y = k * (y div k) + y mod k" "0 \<le> y mod k" "y mod k < k"
    using assms by simp_all
  show ?thesis
  proof (cases "y mod k = 0")
    case True
    then have "(y - 1) div k = y div k - 1"
      using y assms by (intro int_div_pos_eq [of _ _ _ "k - 1"]) (simp_all add: right_diff_distrib)
    then show ?thesis using True by simp
  next
    case False
    then have "(y - 1) div k = y div k"
      using y by (intro int_div_pos_eq [of _ _ _ "y mod k - 1"]) simp_all
    then show ?thesis using False by simp
  qed
qed

lemma days_before_next: "days_before_year (y + 1) = days_before_year y + year_days y"
proof -
  have "y mod 100 = y mod 400 mod 100" "y mod 4 = y mod 100 mod 4"
    by (simp_all add: mod_mod_cancel)
  then have cycles: "y mod 400 = 0 \<longrightarrow> y mod 100 = 0" "y mod 100 = 0 \<longrightarrow> y mod 4 = 0"
    by (metis mod_0)+
  have count: "(if P \<and> (\<not> Q \<or> R) then 1 else 0) =
      (if P then 1 else 0) - (if Q then 1 else 0) + (if R then 1 else (0 :: int))"
    if "R \<longrightarrow> Q" "Q \<longrightarrow> P" for P Q R
    using that by (cases P; cases Q; cases R) simp_all
  have leap: "(if leap_year y then 1 else 0) = (if y mod 4 = 0 then 1 else 0)
      - (if y mod 100 = 0 then 1 else 0) + (if y mod 400 = 0 then 1 else (0 :: int))"
    unfolding leap_year_def by (rule count [OF cycles])
  have sum: "365 * (y - 1969) + (a' - b' + c' - 477) = 365 * (y - 1970) + (a - b + c - 477) + (365 + l)"
    if "a' = a + i" "b' = b + j" "c' = c + k" "l = i - j + k" for a b c a' b' c' i j k l :: int
    using that by simp
  have "days_before_year (y + 1) = 365 * (y - 1969) + (y div 4 - y div 100 + y div 400 - 477)"
    by (simp add: days_before_year_def)
  also have "\<dots> = days_before_year y + (365 + (if leap_year y then 1 else 0))"
    unfolding days_before_year_def by (rule sum [OF div_pred div_pred div_pred leap]) simp_all
  finally show ?thesis
    by (simp add: year_days_def)
qed

lemma year_and_day_correct:
  "case year_and_day y d of (y', d') \<Rightarrow>
     days_before_year y' + d' = days_before_year y + d \<and> 0 \<le> d' \<and> d' < year_days y'"
proof (induction y d rule: year_and_day.induct)
  case (1 y d)
  show ?case
    using 1 days_before_next [of y] days_before_next [of "y - 1"]
    by (subst year_and_day.simps) (auto split: prod.splits)
qed

lemma month_and_day_correct:
  "0 \<le> d \<Longrightarrow> d < sum_list ls \<Longrightarrow>
   case month_and_day ls m d of (m', d') \<Rightarrow>
     m \<le> m' \<and> m' < m + length ls \<and> sum_list (take (m' - m) ls) + d' = d \<and> 0 \<le> d' \<and> d' < ls ! (m' - m)"
proof (induction ls m d rule: month_and_day.induct)
  case (2 l ls m d)
  show ?case
  proof (cases "d < l")
    case True
    then show ?thesis using 2 by simp
  next
    case False
    obtain m' d' where r: "month_and_day ls (Suc m) (d - l) = (m', d')"
      by (cases "month_and_day ls (Suc m) (d - l)")
    then have "Suc m \<le> m'" "m' < Suc m + length ls" "sum_list (take (m' - Suc m) ls) + d' = d - l"
      "0 \<le> d'" "d' < ls ! (m' - Suc m)"
      using 2 False by simp_all
    moreover from this have "m' - m = Suc (m' - Suc m)" by simp
    ultimately show ?thesis
      using False r by simp
  qed
qed simp

text \<open>The instant of a date and time.\<close>

definition epoch_seconds :: "utc_time \<Rightarrow> int" where
  "epoch_seconds g =
     86400 * (days_before_year (tm_year g) + sum_list (take (tm_mon g - 1) (month_lengths (tm_year g)))
       + tm_mday g - 1) + 3600 * tm_hour g + 60 * tm_min g + tm_sec g"

definition calendar_time :: "utc_time \<Rightarrow> bool" where
  "calendar_time g \<longleftrightarrow>
     tm_mon g \<in> {1..12} \<and> 1 \<le> tm_mday g \<and> tm_mday g \<le> month_lengths (tm_year g) ! (tm_mon g - 1) \<and>
     tm_hour g \<in> {0..23} \<and> tm_min g \<in> {0..59} \<and> tm_sec g \<in> {0..59}"

lemma clock_fields:
  fixes u :: int
  assumes "0 \<le> u" "u < 86400"
  shows "u div 3600 \<in> {0..23}" "u mod 3600 div 60 \<in> {0..59}" "u mod 60 \<in> {0..59}"
    "3600 * (u div 3600) + 60 * (u mod 3600 div 60) + u mod 60 = u"
proof -
  show "u div 3600 \<in> {0..23}"
    using assms zdiv_mono1 [of u 86399 3600] by (simp add: pos_imp_zdiv_nonneg_iff)
  show "u mod 3600 div 60 \<in> {0..59}"
    using zdiv_mono1 [of "u mod 3600" 3599 60] pos_mod_bound [of 3600 u] by (simp add: pos_imp_zdiv_nonneg_iff)
  show "u mod 60 \<in> {0..59}"
    using pos_mod_bound [of 60 u] by simp
  have "60 * (u mod 3600 div 60) + u mod 3600 mod 60 = u mod 3600" "u mod 3600 mod 60 = u mod 60"
    by (rule mult_div_mod_eq) (simp add: mod_mod_cancel)
  then show "3600 * (u div 3600) + 60 * (u mod 3600 div 60) + u mod 60 = u"
    using mult_div_mod_eq [of 3600 u] by linarith
qed

text \<open>\<open>gmtime\<close> gives a date of the calendar, and it is that of the instant, to the second.\<close>

lemma gmtime_correct: "calendar_time (gmtime ts) \<and> epoch_seconds (gmtime ts) = \<lfloor>ts\<rfloor>"
proof -
  define days where "days = \<lfloor>ts\<rfloor> div 86400"
  define u where "u = \<lfloor>ts\<rfloor> mod 86400"
  have t: "\<lfloor>ts\<rfloor> = 86400 * days + u" and u: "0 \<le> u" "u < 86400"
    by (simp_all add: days_def u_def)
  obtain y yd where y: "year_and_day 1970 days = (y, yd)"
    by (cases "year_and_day 1970 days")
  obtain m d where m: "month_and_day (month_lengths y) 1 yd = (m, d)"
    by (cases "month_and_day (month_lengths y) 1 yd")
  have year: "days_before_year y + yd = days" "0 \<le> yd" "yd < sum_list (month_lengths y)"
    using year_and_day_correct [of 1970 days] y year_days_months [of y]
    by (simp_all add: days_before_year_def)
  then have month: "1 \<le> m" "m < 1 + length (month_lengths y)" "sum_list (take (m - 1) (month_lengths y)) + d = yd"
    "0 \<le> d" "d < month_lengths y ! (m - 1)"
    using month_and_day_correct [of yd "month_lengths y" 1] m by simp_all
  have g: "gmtime ts = \<lparr>tm_year = y, tm_mon = m, tm_mday = d + 1, tm_hour = u div 3600,
      tm_min = u mod 3600 div 60, tm_sec = u mod 60\<rparr>"
    using m y by (simp add: gmtime_def Let_def u_def days_def)
  have "calendar_time (gmtime ts)"
    using clock_fields(1-3) [OF u] month by (simp add: g calendar_time_def month_lengths_def)
  moreover have "epoch_seconds (gmtime ts) =
      86400 * (days_before_year y + (sum_list (take (m - 1) (month_lengths y)) + d))
        + (3600 * (u div 3600) + 60 * (u mod 3600 div 60) + u mod 60)"
    by (simp add: g epoch_seconds_def)
  then have "epoch_seconds (gmtime ts) = \<lfloor>ts\<rfloor>"
    by (simp only: month(3) year(1) clock_fields(4) [OF u] t)
  ultimately show ?thesis ..
qed

lemma iso_text_example: "iso_text 1709210096 = ''2024-02-29T12:34:56Z''"
proof -
  have g: "gmtime 1709210096 = \<lparr>tm_year = 2024, tm_mon = 2, tm_mday = 29, tm_hour = 12, tm_min = 34, tm_sec = 56\<rparr>"
    by (simp add: gmtime_def year_and_day.simps year_days_def leap_year_def month_lengths_def Let_def)
  show ?thesis
    unfolding iso_text_def g by code_simp
qed

end
