(* ===== verification/Api.thy ===== *)
theory Api
  imports Scheduler Store Metrics DigitalOcean MockProvider Webhook UtcTime
begin

text \<open>
  The HTTP layer: \<open>config.py\<close>, \<open>app_state.py\<close>, \<open>api/schemas.py\<close> and \<open>api/routes.py\<close>.  Each route is
  a function of the request and the process state; an \<open>HTTPException\<close> is \<open>Http_error\<close>, any other
  exception \<open>Api_raise\<close> (the framework answers it with 500).  The file system is a function from
  paths to files.  The text of floats, \<open>urlparse\<close>, the joining of paths, the fresh job id
  and the order in which Python iterates over a set are parameters.
\<close>

section \<open>Settings\<close>

record settings =
  st_do_inference_key :: "string option"
  st_do_inference_base_url :: string
  st_model :: string
  st_max_tokens :: int
  st_rate_limit_rpm :: int
  st_circuit_cooldown_s :: pyfloat
  st_retry_base_s :: pyfloat
  st_retry_cap_s :: pyfloat
  st_max_job_spend_usd :: pyfloat
  st_max_total_spend_usd :: pyfloat
  st_live_sample_size :: int
  st_spend_ledger_path :: string
  st_db_path :: string
  st_results_dir :: string
  st_spaces_enabled :: bool
  st_spaces_key :: "string option"
  st_spaces_secret :: "string option"
  st_spaces_bucket :: "string option"
  st_spaces_region :: string
  st_allow_private_webhooks :: bool
  st_max_live_items :: int

definition default_settings :: settings where
  "default_settings =
     \<lparr>st_do_inference_key = None,
      st_do_inference_base_url = ''https://inference.do-ai.run/v1'',
      st_model = ''mistral-3-14B'', st_max_tokens = 128, st_rate_limit_rpm = 120,
      st_circuit_cooldown_s = 30, st_retry_base_s = 1 / 2, st_retry_cap_s = 30,
      st_max_job_spend_usd = 1 / 4, st_max_total_spend_usd = 1, st_live_sample_size = 50,
      st_spend_ledger_path = ''./.spend_ledger.json'', st_db_path = ''./data/jobs.db'',
      st_results_dir = ''./data/results'', st_spaces_enabled = False, st_spaces_key = None,
      st_spaces_secret = None, st_spaces_bucket = None, st_spaces_region = ''nyc3'',
      st_allow_private_webhooks = False, st_max_live_items = 1000\<rparr>"

section \<open>Process state\<close>

datatype api_provider = Prov_live do_provider | Prov_mock mock_provider

fun provider_prices_of :: "api_provider \<Rightarrow> provider_prices" where
  "provider_prices_of (Prov_live p) = do_prices p"
| "provider_prices_of (Prov_mock m) = mock_prices m"

text \<open>A \<open>JobRunner\<close> with its constructor's arguments.  \<open>ru_job\<close> is the job once its task has started.\<close>

record job_runner =
  ru_record :: job_record
  ru_provider :: api_provider
  ru_rate_limit_rpm :: int
  ru_has_client :: bool
  ru_webhook_secret :: string
  ru_allow_private_webhooks :: bool
  ru_circuit_cooldown_s :: pyfloat
  ru_retry_base_s :: pyfloat
  ru_retry_cap_s :: pyfloat
  ru_cancelled :: bool
  ru_job :: "job_sys option"

text \<open>A task is kept with its argument \<open>is_live\<close>.\<close>

record app_state =
  ap_settings :: settings
  ap_has_client :: bool
  ap_store :: "sqlite_db option"
  ap_runners :: "job_runner pydict"
  ap_tasks :: "bool pydict"
  ap_mock_factory :: "api_provider option"
  ap_ledger :: "string option"

definition new_app_state :: "settings \<Rightarrow> string option \<Rightarrow> app_state" where
  "new_app_state s ledger =
     \<lparr>ap_settings = s, ap_has_client = False, ap_store = None, ap_runners = [], ap_tasks = [],
      ap_mock_factory = None, ap_ledger = ledger\<rparr>"

text \<open>The record the runner holds, and its task's first turn: \<open>run\<close> up to its first suspension after the
  workers exist.  A cancellation before that is seen there.\<close>

definition runner_record :: "job_runner \<Rightarrow> job_record" where
  "runner_record ru = (case ru_job ru of None \<Rightarrow> ru_record ru | Some s \<Rightarrow> the_record s)"

definition runner_cancel :: "job_runner \<Rightarrow> job_runner" where
  "runner_cancel ru =
     ru\<lparr>ru_cancelled := True, ru_job := map_option cancel_job_event (ru_job ru)\<rparr>"

definition runner_start ::
    "string \<Rightarrow> pyfloat \<Rightarrow> pyfloat \<Rightarrow> parsed list \<Rightarrow> py_exn option \<Rightarrow> job_runner \<Rightarrow> job_runner" where
  "runner_start prior now_bucket now_sink rows source_error ru =
     (let s = start_run (ru_record ru) (ru_rate_limit_rpm ru) (ru_circuit_cooldown_s ru)
                (ru_retry_base_s ru) (ru_retry_cap_s ru) prior now_bucket now_sink rows source_error
      in ru\<lparr>ru_job := Some (if ru_cancelled ru then cancel_job_event s else s)\<rparr>)"

section \<open>Parameters of the routes\<close>

record api_env =
  ae_dumps :: "json \<Rightarrow> string"
  ae_loads :: "string \<Rightarrow> json option"
  ae_parse_float :: "string \<Rightarrow> pyfloat option"
  ae_urlparse :: "string \<Rightarrow> py_exn + string \<times> string option"
  ae_fmt :: "string \<Rightarrow> pyfloat \<Rightarrow> string"
  ae_path_join :: "string \<Rightarrow> string \<Rightarrow> string"
  ae_set_order :: "string list \<Rightarrow> string list"

text \<open>The \<open>json\<close> module of the process is Python's; what is assumed of the text of floats is \<open>repr_faithful\<close>.\<close>

definition python_json :: "api_env \<Rightarrow> bool" where
  "python_json A \<longleftrightarrow>
     (\<exists>repr parse_float. repr_faithful repr parse_float \<and>
        ae_dumps A = json_dumps repr \<and> ae_loads A = json_loads parse_float)"

record file_info =
  fi_readable :: bool
  fi_text :: string

type_synonym file_system = "string \<Rightarrow> file_info option"

datatype api_error = Http_error nat string | Api_raise py_exn

text \<open>\<open>_store\<close> asserts that the store exists.\<close>

definition the_store :: "app_state \<Rightarrow> api_error + sqlite_db" where
  "the_store st = (case ap_store st of None \<Rightarrow> Inl (Api_raise Assertion_error) | Some db \<Rightarrow> Inr db)"

definition lift_exn :: "py_exn + 'a \<Rightarrow> api_error + 'a" where
  "lift_exn r = (case r of Inl e \<Rightarrow> Inl (Api_raise e) | Inr x \<Rightarrow> Inr x)"

section \<open>POST /job\<close>

record submit_request =
  sq_input_path :: string
  sq_model :: "string option"
  sq_concurrency :: "int option"
  sq_max_tokens :: "int option"
  sq_webhook_url :: "string option"

text \<open>What the schema accepts: \<open>ge\<close> and \<open>le\<close> of the two numbers.  Other bodies are answered 422 before the
  route runs.\<close>

definition submit_request_valid :: "submit_request \<Rightarrow> bool" where
  "submit_request_valid b \<longleftrightarrow>
     (case sq_concurrency b of None \<Rightarrow> True | Some n \<Rightarrow> 1 \<le> n \<and> n \<le> 256) \<and>
     (case sq_max_tokens b of None \<Rightarrow> True | Some n \<Rightarrow> 1 \<le> n \<and> n \<le> 4096)"

record submit_response =
  sp_job_id :: string
  sp_status :: string
  sp_submitted_at :: string

definition check_input :: "file_system \<Rightarrow> string \<Rightarrow> api_error + unit" where
  "check_input fs path =
     (case fs path of
        None \<Rightarrow> Inl (Http_error 400 (''input_path not found: '' @ path))
      | Some f \<Rightarrow>
          if fi_readable f then Inr ()
          else Inl (Http_error 400 (''input_path not readable: '' @ path)))"

definition check_webhook :: "api_env \<Rightarrow> string option \<Rightarrow> api_error + unit" where
  "check_webhook A url' =
     (case url' of
        None \<Rightarrow> Inr ()
      | Some url \<Rightarrow>
          and_then (lift_exn (ae_urlparse A url)) (\<lambda>(scheme, hostname).
            if scheme \<notin> {''http'', ''https''} \<or> hostname = None \<or> hostname = Some []
            then Inl (Http_error 400 ''webhook_url must be a valid http(s) URL'')
            else Inr ()))"

definition is_live :: "settings \<Rightarrow> bool" where
  "is_live s \<longleftrightarrow> st_do_inference_key s \<noteq> None \<and> st_do_inference_key s \<noteq> Some []"

text \<open>The spend rail: the item cap of a live job, none for a mock job.\<close>

definition check_spend :: "api_env \<Rightarrow> settings \<Rightarrow> string option \<Rightarrow> api_error + int option" where
  "check_spend A s ledger =
     (if \<not> is_live s then Inr None
      else and_then (lift_exn (load_total_spend (ae_loads A) (ae_parse_float A) ledger)) (\<lambda>total_spend.
        if st_max_total_spend_usd s \<le> total_spend then
          Inl (Http_error 402
            (''spend ledger exhausted ($'' @ ae_fmt A ''.4f'' total_spend @ '' >= $'' @
             ae_fmt A [] (st_max_total_spend_usd s) @ ''); refusing to start a live job''))
        else Inr (Some (min (st_live_sample_size s) (st_max_live_items s)))))"

definition submit_config :: "settings \<Rightarrow> int option \<Rightarrow> submit_request \<Rightarrow> job_config" where
  "submit_config s max_items b =
     \<lparr>jc_input_path = sq_input_path b,
      jc_model = (case sq_model b of None \<Rightarrow> st_model s | Some m \<Rightarrow> if m = [] then st_model s else m),
      jc_max_tokens = py_or_int (sq_max_tokens b) (st_max_tokens s),
      jc_concurrency = sq_concurrency b, jc_webhook_url = sq_webhook_url b,
      jc_max_job_spend_usd = st_max_job_spend_usd s, jc_max_items = max_items\<rparr>"

definition submit_provider :: "app_state \<Rightarrow> job_config \<Rightarrow> api_error + api_provider" where
  "submit_provider st config =
     (let s = ap_settings st in
      if is_live s then
        (if ap_has_client st then
           Inr (Prov_live (new_do_provider (case st_do_inference_key s of None \<Rightarrow> [] | Some k \<Rightarrow> k)
                  (st_do_inference_base_url s) (jc_model config)))
         else Inl (Api_raise Assertion_error))
      else
        (case ap_mock_factory st of
           Some p \<Rightarrow> Inr p
         | None \<Rightarrow> Inr (Prov_mock (new_mock_provider default_mock_config))))"

definition new_runner :: "app_state \<Rightarrow> job_record \<Rightarrow> api_provider \<Rightarrow> job_runner" where
  "new_runner st r p =
     (let s = ap_settings st in
      \<lparr>ru_record = r, ru_provider = p, ru_rate_limit_rpm = st_rate_limit_rpm s,
       ru_has_client = ap_has_client st, ru_webhook_secret = [],
       ru_allow_private_webhooks = st_allow_private_webhooks s,
       ru_circuit_cooldown_s = st_circuit_cooldown_s s, ru_retry_base_s = st_retry_base_s s,
       ru_retry_cap_s = st_retry_cap_s s, ru_cancelled = False, ru_job = None\<rparr>)"

text \<open>The checks before anything is created: the job's configuration.\<close>

definition submit_checks ::
    "api_env \<Rightarrow> file_system \<Rightarrow> submit_request \<Rightarrow> app_state \<Rightarrow> api_error + job_config" where
  "submit_checks A fs b st =
     and_then (check_input fs (sq_input_path b)) (\<lambda>_.
     and_then (check_webhook A (sq_webhook_url b)) (\<lambda>_.
     and_then (check_spend A (ap_settings st) (ap_ledger st)) (\<lambda>max_items.
       Inr (submit_config (ap_settings st) max_items b))))"

definition submit_job ::
    "api_env \<Rightarrow> file_system \<Rightarrow> string \<Rightarrow> pyfloat \<Rightarrow> pyfloat \<Rightarrow> submit_request \<Rightarrow> app_state
      \<Rightarrow> (api_error + submit_response) \<times> app_state" where
  "submit_job A fs job_id now_submitted now_started b st =
     (case submit_checks A fs b st of
        Inl e \<Rightarrow> (Inl e, st)
      | Inr config \<Rightarrow>
          (let r = new_job_record job_id config JS_QUEUED
                     (ae_path_join A (st_results_dir (ap_settings st)) (job_id @ ''.jsonl''))
                     now_submitted now_started in
           case the_store st of
             Inl e \<Rightarrow> (Inl e, st)
           | Inr db \<Rightarrow>
               (let st = st\<lparr>ap_store := Some (sqlite_create (ae_dumps A) r db)\<rparr> in
                case submit_provider st config of
                  Inl e \<Rightarrow> (Inl e, st)
                | Inr p \<Rightarrow>
                    (Inr \<lparr>sp_job_id = job_id, sp_status = ''queued'',
                          sp_submitted_at = iso_text (jr_submitted_at r)\<rparr>,
                     st\<lparr>ap_runners := dict_set job_id (new_runner st r p) (ap_runners st),
                        ap_tasks := dict_set job_id (is_live (ap_settings st)) (ap_tasks st)\<rparr>))))"

text \<open>The end of the background task: \<open>run\<close> returned or raised, and a live job's cost is recorded.\<close>

definition run_and_settle :: "api_env \<Rightarrow> bool \<Rightarrow> job_record \<Rightarrow> app_state \<Rightarrow> py_exn option \<times> app_state" where
  "run_and_settle A live r st =
     (if live then
        (case record_spend (ae_dumps A) (ae_loads A) (ae_parse_float A)
                (ut_estimated_cost_usd (jr_usage r)) (ap_ledger st) of
           Inl e \<Rightarrow> (Some e, st)
         | Inr (new_total, text) \<Rightarrow> (None, st\<lparr>ap_ledger := Some text\<rparr>))
      else (None, st))"

section \<open>Looking up a job\<close>

definition unknown_job :: "string \<Rightarrow> api_error" where
  "unknown_job job_id = Http_error 404 (''unknown job_id: '' @ job_id)"

definition stored_record :: "api_env \<Rightarrow> pyfloat \<Rightarrow> string \<Rightarrow> app_state \<Rightarrow> api_error + job_record" where
  "stored_record A now job_id st =
     and_then (the_store st) (\<lambda>db.
     and_then (lift_exn (sqlite_get (ae_loads A) now job_id db)) (\<lambda>r'.
       case r' of None \<Rightarrow> Inl (unknown_job job_id) | Some r \<Rightarrow> Inr r))"

definition get_record :: "api_env \<Rightarrow> pyfloat \<Rightarrow> string \<Rightarrow> app_state \<Rightarrow> api_error + job_record" where
  "get_record A now job_id st =
     (case dict_get (ap_runners st) job_id of
        Some ru \<Rightarrow> Inr (runner_record ru)
      | None \<Rightarrow> stored_record A now job_id st)"

section \<open>GET /job/{id}/status\<close>

text \<open>The fields of \<open>backpressure\<close> are the values of the record's dictionary.\<close>

record status_response =
  sr_job_id :: string
  sr_status :: string
  sr_counts :: job_counts
  sr_progress_pct :: pyfloat
  sr_started_at :: string
  sr_elapsed_s :: pyfloat
  sr_eta_s :: "pyfloat option"
  sr_throughput_rps :: pyfloat
  sr_backpressure :: "json pydict"
  sr_input_tokens :: int
  sr_output_tokens :: int
  sr_estimated_cost_usd :: pyfloat
  sr_errors_by_class :: "int pydict"
  sr_abort_reason :: "string option"

definition throughput_of :: "pyfloat \<Rightarrow> job_record \<Rightarrow> pyfloat" where
  "throughput_of now r =
     (let done' = succeeded (jr_counts r) + failed (jr_counts r);
          elapsed = elapsed_s now (jr_timing r)
      in if 0 < elapsed then of_int done' / elapsed else 0)"

definition progress_of :: "job_counts \<Rightarrow> pyfloat" where
  "progress_of k =
     (if 0 < ingested k
      then py_round (of_int (succeeded k + failed k) / of_int (ingested k) * 100) 1 else 0)"

definition eta_of :: "pyfloat \<Rightarrow> job_record \<Rightarrow> pyfloat option" where
  "eta_of now r =
     (let k = jr_counts r; done' = succeeded k + failed k; throughput = throughput_of now r in
      if jr_status r = JS_RUNNING \<and> 0 < throughput
      then Some (py_round (of_int (max 0 (ingested k - done') + pending k) / throughput) 1)
      else None)"

definition status_backpressure :: "settings \<Rightarrow> job_record \<Rightarrow> json pydict" where
  "status_backpressure s r =
     (let bp = jr_backpressure r; entry = (\<lambda>k d. (k, dict_get_or bp k d)) in
      [entry ''current_rate_limit_rps'' (JFloat 0),
       entry ''configured_max_rps'' (JFloat (of_int (st_rate_limit_rpm s) / 60)),
       entry ''throttle_events_429'' (JInt 0),
       entry ''retries_issued'' (JInt 0),
       entry ''retry_budget_remaining''
         (JInt (rb_limit (new_retry_budget (max 1 (ingested (jr_counts r)))))),
       entry ''circuit_state'' (JStr ''closed''),
       entry ''observed_mean_latency_s'' (JFloat 0),
       entry ''littles_law_optimal_concurrency''
         (JInt (py_or_int (jc_concurrency (jr_config r)) (default_concurrency (st_rate_limit_rpm s))))])"

definition get_status :: "api_env \<Rightarrow> pyfloat \<Rightarrow> string \<Rightarrow> app_state \<Rightarrow> api_error + status_response" where
  "get_status A now job_id st =
     and_then (get_record A now job_id st) (\<lambda>r.
       Inr \<lparr>sr_job_id = jr_job_id r, sr_status = js_value (jr_status r), sr_counts = jr_counts r,
            sr_progress_pct = progress_of (jr_counts r),
            sr_started_at = iso_text (jt_started_at (jr_timing r)),
            sr_elapsed_s = py_round (elapsed_s now (jr_timing r)) 2,
            sr_eta_s = eta_of now r, sr_throughput_rps = py_round (throughput_of now r) 3,
            sr_backpressure = status_backpressure (ap_settings st) r,
            sr_input_tokens = ut_input_tokens (jr_usage r),
            sr_output_tokens = ut_output_tokens (jr_usage r),
            sr_estimated_cost_usd = py_round (ut_estimated_cost_usd (jr_usage r)) 6,
            sr_errors_by_class = jr_errors_by_class r, sr_abort_reason = jr_abort_reason r\<rparr>)"

section \<open>POST /job/{id}/cancel\<close>

record cancel_response =
  cr_job_id :: string
  cr_status :: string

definition cancel_job ::
    "api_env \<Rightarrow> pyfloat \<Rightarrow> string \<Rightarrow> app_state \<Rightarrow> (api_error + cancel_response) \<times> app_state" where
  "cancel_job A now job_id st =
     (case dict_get (ap_runners st) job_id of
        None \<Rightarrow>
          (case stored_record A now job_id st of
             Inl e \<Rightarrow> (Inl e, st)
           | Inr r \<Rightarrow> (Inl (Http_error 409
               ''job is not active in this process (already finished or process restarted)''), st))
      | Some ru \<Rightarrow>
          (Inr \<lparr>cr_job_id = job_id, cr_status = ''cancelling''\<rparr>,
           st\<lparr>ap_runners := dict_set job_id (runner_cancel ru) (ap_runners st)\<rparr>))"

section \<open>GET /job/{id}/download\<close>

datatype download_format = Fmt_ndjson | Fmt_json
datatype download_include = Inc_errors | Inc_success | Inc_all

definition wanted_status :: "download_include \<Rightarrow> string option" where
  "wanted_status inc =
     (case inc of Inc_success \<Rightarrow> Some ''success'' | Inc_errors \<Rightarrow> Some ''error'' | Inc_all \<Rightarrow> None)"

text \<open>The generator \<open>lines\<close>: what it yields and the exception it may end with.\<close>

fun download_lines ::
    "(string \<Rightarrow> json option) \<Rightarrow> string option \<Rightarrow> string list \<Rightarrow> string list \<times> py_exn option" where
  "download_lines loads wanted [] = ([], None)"
| "download_lines loads wanted (raw_line # rest) =
     (let line = py_rstrip_char newline raw_line;
          (ls, err) = download_lines loads wanted rest
      in if line = [] then (ls, err)
         else case wanted of
           None \<Rightarrow> (line # ls, err)
         | Some w \<Rightarrow>
             (case loads line of
                None \<Rightarrow> (ls, err)
              | Some (JObj row) \<Rightarrow>
                  if dict_get row ''status'' = Some (JStr w) then (line # ls, err) else (ls, err)
              | Some _ \<Rightarrow> ([], Some Attribute_error)))"

definition file_download ::
    "(string \<Rightarrow> json option) \<Rightarrow> download_include \<Rightarrow> file_info option \<Rightarrow> string list \<times> py_exn option" where
  "file_download loads inc file =
     (case file of
        None \<Rightarrow> ([], None)
      | Some f \<Rightarrow> download_lines loads (wanted_status inc) (file_lines (fi_text f)))"

text \<open>The chunks the two generators stream.\<close>

fun json_chunks :: "bool \<Rightarrow> string list \<Rightarrow> string list" where
  "json_chunks first [] = []"
| "json_chunks first (l # ls) = ((if first then [] else '','') @ l) # json_chunks False ls"

definition download_chunks :: "download_format \<Rightarrow> string list \<times> py_exn option \<Rightarrow> string list \<times> py_exn option" where
  "download_chunks fmt r =
     (case r of (ls, err) \<Rightarrow>
        (case fmt of
           Fmt_ndjson \<Rightarrow> (map (\<lambda>l. l @ [newline]) ls, err)
         | Fmt_json \<Rightarrow> ([''[''] @ json_chunks True ls @ (if err = None then ['']''] else []), err)))"

definition download_job ::
    "api_env \<Rightarrow> file_system \<Rightarrow> pyfloat \<Rightarrow> string \<Rightarrow> download_format \<Rightarrow> download_include \<Rightarrow> bool
      \<Rightarrow> app_state \<Rightarrow> api_error + string list \<times> py_exn option" where
  "download_job A fs now job_id fmt inc partial st =
     and_then (get_record A now job_id st) (\<lambda>r.
       if jr_status r \<in> {JS_QUEUED, JS_RUNNING} \<and> \<not> partial then
         Inl (Http_error 409
           ''job is still running; retry with ?partial=true to stream what's done so far'')
       else Inr (download_chunks fmt (file_download (ae_loads A) inc (fs (jr_result_path r)))))"

section \<open>GET /metrics and GET /healthz\<close>

definition metrics_ids :: "api_env \<Rightarrow> sqlite_db \<Rightarrow> app_state \<Rightarrow> string list" where
  "metrics_ids A db st = ae_set_order A (remdups (sqlite_list_ids db @ map fst (ap_runners st)))"

definition metrics_record ::
    "api_env \<Rightarrow> pyfloat \<Rightarrow> sqlite_db \<Rightarrow> app_state \<Rightarrow> string \<Rightarrow> py_exn + job_record option" where
  "metrics_record A now db st job_id =
     (case dict_get (ap_runners st) job_id of
        Some ru \<Rightarrow> Inr (Some (runner_record ru))
      | None \<Rightarrow> sqlite_get (ae_loads A) now job_id db)"

definition metrics :: "api_env \<Rightarrow> pyfloat \<Rightarrow> app_state \<Rightarrow> api_error + string" where
  "metrics A now st =
     and_then (the_store st) (\<lambda>db.
     and_then (lift_exn (collect (metrics_record A now db st) (metrics_ids A db st))) (\<lambda>rs.
       lift_exn (render_prometheus_text (ae_parse_float A) (ae_fmt A []) (List.map_filter id rs))))"

definition healthz :: "string pydict" where
  "healthz = [(''status'', ''ok'')]"

end
