(* ===== verification/Ingest.thy ===== *)
theory Ingest
  imports Models TextIO PyQueue
begin

text \<open>
  The streaming reader of \<open>core/ingest.py\<close>: the sniff at the first bytes, the two parsers, and
  \<open>stream_items\<close>, the bridge between the parser's thread and the event loop.

  \<open>json.loads\<close> (\<open>Inl\<close> is the message of a \<open>JSONDecodeError\<close>) and \<open>ijson.items\<close> (the
  elements it yields and the exception it may end with) are parameters.  Files are ASCII, so that a
  byte and a character are the same.
\<close>

section \<open>Rows\<close>

definition peek_bytes :: nat where "peek_bytes = 64"

definition sniff_is_json_array :: "string \<Rightarrow> bool" where
  "sniff_is_json_array content =
     (case dropWhile py_isspace (take peek_bytes content) of
        [] \<Rightarrow> False
      | ch # _ \<Rightarrow> ch = CHR 0x5B)"

definition offset_id :: "nat \<Rightarrow> string" where
  "offset_id offset = ''offset-'' @ py_str_nat offset"

definition row_to_item :: "(json \<Rightarrow> string) \<Rightarrow> json \<Rightarrow> nat \<Rightarrow> parsed" where
  "row_to_item py_repr raw offset =
     (case raw of
        JObj d \<Rightarrow>
          (case dict_get d ''prompt'' of
             Some (JStr prompt) \<Rightarrow>
               P_item \<lparr>pi_id = py_str py_repr (dict_get_or d ''id'' (JStr (offset_id offset))),
                       pi_prompt = prompt, pi_raw = d\<rparr>
           | _ \<Rightarrow>
               P_error \<lparr>re_item_id = (case dict_get d ''id'' of Some v \<Rightarrow> py_str py_repr v
                                      | None \<Rightarrow> offset_id offset),
                        re_failure_class = FC_INVALID_INPUT,
                        re_message = ''row missing a string 'prompt' field'', re_attempt = 1,
                        re_http_status = None\<rparr>)
      | _ \<Rightarrow>
          P_error \<lparr>re_item_id = offset_id offset, re_failure_class = FC_INVALID_INPUT,
                   re_message = ''row missing a string 'prompt' field'', re_attempt = 1,
                   re_http_status = None\<rparr>)"

text \<open>One line of a JSONL file: nothing for a blank line.\<close>

definition line_items ::
    "(json \<Rightarrow> string) \<Rightarrow> (string \<Rightarrow> string + json) \<Rightarrow> nat \<Rightarrow> string \<Rightarrow> parsed list" where
  "line_items py_repr loads offset raw_line =
     (let line = py_strip raw_line in
      if line = [] then []
      else case loads line of
        Inl msg \<Rightarrow> [P_error \<lparr>re_item_id = ''line-'' @ py_str_nat offset,
                     re_failure_class = FC_INVALID_INPUT,
                     re_message = ''malformed JSON line: '' @ msg, re_attempt = 1,
                     re_http_status = None\<rparr>]
      | Inr raw \<Rightarrow> [row_to_item py_repr raw offset])"

fun jsonl_items ::
    "(json \<Rightarrow> string) \<Rightarrow> (string \<Rightarrow> string + json) \<Rightarrow> nat \<Rightarrow> string list \<Rightarrow> parsed list" where
  "jsonl_items py_repr loads offset [] = []"
| "jsonl_items py_repr loads offset (l # ls) =
     line_items py_repr loads offset l @ jsonl_items py_repr loads (Suc offset) ls"

fun array_items :: "(json \<Rightarrow> string) \<Rightarrow> nat \<Rightarrow> json list \<Rightarrow> parsed list" where
  "array_items py_repr offset [] = []"
| "array_items py_repr offset (r # rs) =
     row_to_item py_repr r offset # array_items py_repr (Suc offset) rs"

text \<open>\<open>iter_items_sync\<close>: the rows it yields and the exception it ends with.\<close>

definition iter_items_sync ::
    "(json \<Rightarrow> string) \<Rightarrow> (string \<Rightarrow> string + json) \<Rightarrow> (string \<Rightarrow> json list \<times> py_exn option)
      \<Rightarrow> string \<Rightarrow> parsed list \<times> py_exn option" where
  "iter_items_sync py_repr loads ijson_items content =
     (if sniff_is_json_array content then
        (let (rows, err) = ijson_items content in (array_items py_repr 0 rows, err))
      else (jsonl_items py_repr loads 0 (file_lines content), None))"

section \<open>Facts about the rows\<close>

definition ingest_error_ok :: "parsed \<Rightarrow> bool" where
  "ingest_error_ok p \<longleftrightarrow>
     (case p of P_item it \<Rightarrow> True
      | P_error e \<Rightarrow> re_failure_class e = FC_INVALID_INPUT \<and> re_attempt e = 1 \<and> re_http_status e = None)"

lemma row_to_item_ok: "ingest_error_ok (row_to_item py_repr raw offset)"
  by (auto simp: ingest_error_ok_def row_to_item_def split: json.split option.split)

lemma jsonl_items_ok: "p \<in> set (jsonl_items py_repr loads offset ls) \<Longrightarrow> ingest_error_ok p"
  by (induction ls arbitrary: offset)
    (auto simp: line_items_def Let_def row_to_item_ok ingest_error_ok_def split: if_splits sum.splits,
     auto simp: ingest_error_ok_def row_to_item_ok [unfolded ingest_error_ok_def])

lemma array_items_ok: "p \<in> set (array_items py_repr offset rs) \<Longrightarrow> ingest_error_ok p"
  by (induction rs arbitrary: offset) (auto simp: row_to_item_ok)

lemma length_array_items [simp]: "length (array_items py_repr offset rs) = length rs"
  by (induction rs arbitrary: offset) simp_all

lemma jsonl_items_append:
  "jsonl_items py_repr loads offset (xs @ ys) =
   jsonl_items py_repr loads offset xs @ jsonl_items py_repr loads (offset + length xs) ys"
  by (induction xs arbitrary: offset) simp_all

lemma line_items_blank: "py_strip l = [] \<Longrightarrow> line_items py_repr loads n l = []"
  by (simp add: line_items_def)

lemma length_jsonl_items:
  "length (jsonl_items py_repr loads offset ls) = length (filter (\<lambda>l. py_strip l \<noteq> []) ls)"
  by (induction ls arbitrary: offset) (auto simp: line_items_def Let_def split: sum.split)

text \<open>Every row of every input is a prompt or a rejected row with class \<open>invalid_input\<close>.\<close>

lemma iter_items_ok:
  assumes "iter_items_sync py_repr loads ijson_items content = (rows, err)" "p \<in> set rows"
  shows "ingest_error_ok p"
  using assms
  by (auto simp: iter_items_sync_def array_items_ok jsonl_items_ok split: if_splits prod.splits)

end
