(* ===== verification/Process.thy ===== *)
theory Process
  imports Api Ingest
begin

text \<open>
  The whole service: \<open>main.py\<close>'s lifespan, the requests that change the state of the process, and every
  background task, as one transition system.  \<open>proc_step\<close> is one turn of it, an executable function of a
  label that says who moves and what is read: a submission, the first turn of a job's task, a turn of
  one of the coroutines of a job, the end of its task, a cancellation, or a restart.  What a job saves
  goes to the store in the turn that saves it.  The routes that only read are functions of the state
  (\<open>Api\<close>).

  A restart is graceful, when the lifespan ends, or a crash; the table and the ledger are files and stay,
  the runners and the tasks are gone.  \<open>pr_ended\<close> are the tasks that are done.  \<open>pr_posts\<close> and \<open>pr_costs\<close>
  record the webhook posts and the costs added to the ledger, so that theorems can speak of them; no
  step reads them.  The posts of a delivery that a shutdown interrupts are not recorded.
\<close>

section \<open>State and parameters\<close>

record process =
  pr_app :: app_state
  pr_ended :: "string list"
  pr_posts :: "(string \<times> hook_post list) list"
  pr_costs :: "(string \<times> pyfloat) list"

text \<open>The parameters of the routes, of the webhooks, and of the parser (\<open>repr\<close>, \<open>json.loads\<close> of a line
  with the message of its error, \<open>ijson.items\<close>), and \<open>repr\<close> of an exception.\<close>

record proc_env =
  pe_api :: api_env
  pe_hooks :: hook_env
  pe_exn_repr :: "py_exn \<Rightarrow> string"
  pe_py_repr :: "json \<Rightarrow> string"
  pe_json_line :: "string \<Rightarrow> string + json"
  pe_ijson :: "string \<Rightarrow> json list \<times> py_exn option"

definition job_env_of :: "proc_env \<Rightarrow> job_runner \<Rightarrow> job_env" where
  "job_env_of P ru =
     \<lparr>je_fmt = ae_fmt (pe_api P), je_exn_repr = pe_exn_repr P, je_parse_float = ae_parse_float (pe_api P),
      je_dumps = ae_dumps (pe_api P), je_prices = provider_prices_of (ru_provider ru)\<rparr>"

definition put_runner :: "string \<Rightarrow> job_runner \<Rightarrow> app_state \<Rightarrow> app_state" where
  "put_runner job_id ru st = st\<lparr>ap_runners := dict_set job_id ru (ap_runners st)\<rparr>"

definition save_records :: "proc_env \<Rightarrow> job_record list \<Rightarrow> app_state \<Rightarrow> app_state" where
  "save_records P rs st =
     st\<lparr>ap_store := map_option (fold (sqlite_save (ae_dumps (pe_api P))) rs) (ap_store st)\<rparr>"

definition on_app :: "(app_state \<Rightarrow> app_state) \<Rightarrow> process \<Rightarrow> process" where
  "on_app f p = p\<lparr>pr_app := f (pr_app p)\<rparr>"

section \<open>The lifespan\<close>

text \<open>\<open>lifespan\<close> up to its \<open>yield\<close>: \<open>table\<close> is what the database file holds, \<open>ledger\<close> the ledger file.\<close>

definition lifespan_start :: "settings \<Rightarrow> sqlite_db option \<Rightarrow> string option \<Rightarrow> app_state" where
  "lifespan_start s table ledger =
     (new_app_state s ledger)\<lparr>ap_has_client := True, ap_store := Some (sqlite_init table)\<rparr>"

definition proc_start :: "settings \<Rightarrow> sqlite_db option \<Rightarrow> string option \<Rightarrow> process" where
  "proc_start s table ledger =
     \<lparr>pr_app = lifespan_start s table ledger, pr_ended = [], pr_posts = [], pr_costs = []\<rparr>"

text \<open>The end of a task, however \<open>run\<close> ended.\<close>

definition settle_task :: "proc_env \<Rightarrow> string \<Rightarrow> job_runner \<Rightarrow> process \<Rightarrow> process" where
  "settle_task P job_id ru p =
     (let live = (dict_get (ap_tasks (pr_app p)) job_id = Some True);
          (exc, st) = run_and_settle (pe_api P) live (runner_record ru) (pr_app p)
      in p\<lparr>pr_app := st, pr_ended := job_id # pr_ended p,
           pr_costs := (if live \<and> exc = None
                        then pr_costs p @ [(job_id, ut_estimated_cost_usd (jr_usage (runner_record ru)))]
                        else pr_costs p)\<rparr>)"

text \<open>\<open>lifespan\<close> after its \<open>yield\<close>: every task that is not done is cancelled.  A task that never ran ends
  without running; another leaves \<open>run\<close> with \<open>CancelledError\<close> and settles.  \<open>gather\<close> drops what they
  raise.\<close>

definition stop_task :: "proc_env \<Rightarrow> string \<Rightarrow> process \<Rightarrow> process" where
  "stop_task P job_id p =
     (if job_id \<in> set (pr_ended p) then p
      else case dict_get (ap_runners (pr_app p)) job_id of
        None \<Rightarrow> p
      | Some ru \<Rightarrow> if ru_job ru = None then p else settle_task P job_id ru p)"

definition lifespan_stop :: "proc_env \<Rightarrow> process \<Rightarrow> process" where
  "lifespan_stop P p = fold (stop_task P) (map fst (ap_tasks (pr_app p))) p"

text \<open>The next process over the same files, with its own settings.\<close>

definition proc_restart :: "proc_env \<Rightarrow> bool \<Rightarrow> settings \<Rightarrow> process \<Rightarrow> process" where
  "proc_restart P graceful s p =
     (let p = (if graceful then lifespan_stop P p else p)
      in p\<lparr>pr_app := lifespan_start s (ap_store (pr_app p)) (ap_ledger (pr_app p)), pr_ended := []\<rparr>)"

section \<open>Turns of a job\<close>

definition run_over :: "job_sys \<Rightarrow> bool" where
  "run_over s \<longleftrightarrow> (case js_run s of R_done \<Rightarrow> True | R_raised e \<Rightarrow> True | _ \<Rightarrow> False)"

text \<open>A started job: its runner, unless the task is done.\<close>

definition running_job :: "process \<Rightarrow> string \<Rightarrow> (job_runner \<times> job_sys) option" where
  "running_job p job_id =
     (if job_id \<in> set (pr_ended p) then None
      else case dict_get (ap_runners (pr_app p)) job_id of
        None \<Rightarrow> None
      | Some ru \<Rightarrow> (case ru_job ru of None \<Rightarrow> None | Some s \<Rightarrow> Some (ru, s)))"

text \<open>The first turn of the task: the parser reads \<open>content\<close>, the result file holds \<open>prior\<close>.\<close>

definition start_task ::
    "proc_env \<Rightarrow> string \<Rightarrow> string \<Rightarrow> pyfloat \<Rightarrow> pyfloat \<Rightarrow> string \<Rightarrow> process \<Rightarrow> process option" where
  "start_task P job_id prior now_bucket now_sink content p =
     (case dict_get (ap_runners (pr_app p)) job_id of
        None \<Rightarrow> None
      | Some ru \<Rightarrow>
          if ru_job ru \<noteq> None then None
          else
            (let (rows, err) = iter_items_sync (pe_py_repr P) (pe_json_line P) (pe_ijson P) content;
                 ru = runner_start prior now_bucket now_sink rows err ru
             in Some (on_app (put_runner job_id ru \<circ>
                        save_records P (case ru_job ru of None \<Rightarrow> [] | Some s \<Rightarrow> js_saves s)) p)))"

definition job_turn :: "proc_env \<Rightarrow> string \<Rightarrow> label \<Rightarrow> process \<Rightarrow> process option" where
  "job_turn P job_id l p =
     (case running_job p job_id of
        None \<Rightarrow> None
      | Some (ru, s) \<Rightarrow>
          (case sys_step (job_env_of P ru) l s of
             None \<Rightarrow> None
           | Some s' \<Rightarrow>
               Some (on_app (put_runner job_id (ru\<lparr>ru_job := Some s'\<rparr>) \<circ>
                  save_records P (drop (length (js_saves s)) (js_saves s'))) p)))"

text \<open>The end of \<open>run\<close>, the webhook of a job that got that far, and the ledger.\<close>

definition finish_task ::
    "proc_env \<Rightarrow> string \<Rightarrow> (nat \<Rightarrow> hook_answer) \<Rightarrow> (nat \<Rightarrow> pyfloat) \<Rightarrow> process \<Rightarrow> process option" where
  "finish_task P job_id ans draw p =
     (case running_job p job_id of
        None \<Rightarrow> None
      | Some (ru, s) \<Rightarrow>
          if \<not> run_over s then None
          else
            (let posts = (if js_run s = R_done
                          then fst (deliver_if_configured (pe_hooks P) ans draw (ru_has_client ru)
                                 (ru_webhook_secret ru) (ru_allow_private_webhooks ru) (the_record s))
                          else [])
             in Some (settle_task P job_id ru (p\<lparr>pr_posts := pr_posts p @ [(job_id, posts)]\<rparr>))))"

section \<open>The transition system\<close>

datatype proc_label =
    PL_submit file_system string pyfloat pyfloat submit_request
  | PL_start string string pyfloat pyfloat string
  | PL_turn string label
  | PL_finish string "nat \<Rightarrow> hook_answer" "nat \<Rightarrow> pyfloat"
  | PL_cancel string pyfloat
  | PL_restart bool settings

text \<open>A new job id is a fresh ULID.\<close>

definition unused_id :: "string \<Rightarrow> app_state \<Rightarrow> bool" where
  "unused_id job_id st \<longleftrightarrow>
     dict_get (ap_runners st) job_id = None \<and>
     (case ap_store st of None \<Rightarrow> True | Some db \<Rightarrow> dict_get db job_id = None)"

fun proc_step :: "proc_env \<Rightarrow> proc_label \<Rightarrow> process \<Rightarrow> process option" where
  "proc_step P (PL_submit fs job_id t0 t1 b) p =
     (if submit_request_valid b \<and> unused_id job_id (pr_app p)
      then Some (on_app (\<lambda>st. snd (submit_job (pe_api P) fs job_id t0 t1 b st)) p) else None)"
| "proc_step P (PL_start job_id prior now_bucket now_sink content) p =
     start_task P job_id prior now_bucket now_sink content p"
| "proc_step P (PL_turn job_id l) p =
     (if l = L_cancel then None else job_turn P job_id l p)"
| "proc_step P (PL_finish job_id ans draw) p = finish_task P job_id ans draw p"
| "proc_step P (PL_cancel job_id now) p =
     Some (on_app (\<lambda>st. snd (cancel_job (pe_api P) now job_id st)) p)"
| "proc_step P (PL_restart graceful s) p = Some (proc_restart P graceful s p)"

text \<open>A deployment keeps its files where they are and allows at least one request per minute.\<close>

fun label_ok :: "process \<Rightarrow> proc_label \<Rightarrow> bool" where
  "label_ok p (PL_restart graceful s) \<longleftrightarrow>
     0 < st_rate_limit_rpm s \<and> st_db_path s = st_db_path (ap_settings (pr_app p)) \<and>
     st_spend_ledger_path s = st_spend_ledger_path (ap_settings (pr_app p))"
| "label_ok p l \<longleftrightarrow> True"

inductive proc_reaches :: "proc_env \<Rightarrow> process \<Rightarrow> process \<Rightarrow> bool" for P p0 where
  start: "proc_reaches P p0 p0"
| step: "proc_reaches P p0 p \<Longrightarrow> label_ok p l \<Longrightarrow> proc_step P l p = Some p' \<Longrightarrow> proc_reaches P p0 p'"

lemma proc_reaches_trans:
  assumes "proc_reaches P p1 p2" "proc_reaches P p0 p1"
  shows "proc_reaches P p0 p2"
  using assms by (induction) (auto intro: proc_reaches.step)

text \<open>The job a label is about.\<close>

fun label_job :: "proc_label \<Rightarrow> string option" where
  "label_job (PL_submit fs job_id t0 t1 b) = Some job_id"
| "label_job (PL_start job_id prior nb ns content) = Some job_id"
| "label_job (PL_turn job_id l) = Some job_id"
| "label_job (PL_finish job_id ans draw) = Some job_id"
| "label_job (PL_cancel job_id now) = Some job_id"
| "label_job (PL_restart graceful s) = None"

end
