(* ===== verification/JobInv.thy ===== *)
theory JobInv
  imports Scheduler
begin

text \<open>
  The invariant of a running job: what is true of the runner, the workers, the queue, the counters,
  the retry budget and the sink at every reachable state, whatever the interleaving, the provider's
  answers and the moments of cancellation are.  It is a conjunction of predicates, one for each
  concern, and each kind of step keeps each of them.
\<close>

section \<open>Where a run starts\<close>

definition fresh_record :: "job_record \<Rightarrow> bool" where
  "fresh_record r \<longleftrightarrow>
     jr_counts r = init_counts \<and> jr_usage r = init_usage \<and> jr_errors_by_class r = []"

text \<open>Rows that ingestion rejected carry a terminal class; see \<open>_row_to_item\<close>.\<close>

definition rows_ok :: "parsed list \<Rightarrow> bool" where
  "rows_ok rows \<longleftrightarrow> (\<forall>p \<in> set rows. qitem_ok (Q_parsed p))"

lemma fresh_new_job_record [simp]: "fresh_record (new_job_record j cfg st path t1 t2)"
  by (simp add: fresh_record_def new_job_record_def)

section \<open>Phases of the runner\<close>

fun putting :: "run_pc \<Rightarrow> parsed list" where
  "putting (R_put p) = [p]"
| "putting _ = []"

fun ingesting :: "run_pc \<Rightarrow> bool" where
  "ingesting R_ingest = True"
| "ingesting (R_put p) = True"
| "ingesting R_persist = True"
| "ingesting _ = False"

text \<open>Sentinels the runner still has to put.\<close>

fun to_stop :: "nat \<Rightarrow> run_pc \<Rightarrow> nat" where
  "to_stop n R_ingest = n"
| "to_stop n (R_put p) = n"
| "to_stop n R_persist = n"
| "to_stop n (R_shutdown k e) = k"
| "to_stop n _ = 0"

fun sink_closing :: "run_pc \<Rightarrow> bool" where
  "sink_closing (R_closing e) = True"
| "sink_closing _ = False"

fun sink_closed :: "run_pc \<Rightarrow> bool" where
  "sink_closed R_finish = True"
| "sink_closed R_done = True"
| "sink_closed (R_raised e) = True"
| "sink_closed _ = False"

definition dones :: "job_sys \<Rightarrow> nat" where
  "dones s = length (filter (\<lambda>pc. pc = W_done) (js_workers s))"

section \<open>The parts of the invariant\<close>

definition inv_input :: "parsed list \<Rightarrow> job_sys \<Rightarrow> bool" where
  "inv_input rows s \<longleftrightarrow>
     (let n = ingested (wc_counts (js_ctx s)) in
      0 \<le> n \<and> n \<le> int (length rows) \<and>
      (ingesting (js_run s) \<longrightarrow> js_rows s = drop (nat n) rows))"

text \<open>Every ingested row is in exactly one place; \<open>away\<close> are the rows a cancelled put has dropped
  (\<open>JobDrain\<close>), none in a job that is left to itself.\<close>

definition inv_books_but :: "parsed list \<Rightarrow> parsed list \<Rightarrow> job_sys \<Rightarrow> bool" where
  "inv_books_but away rows s \<longleftrightarrow>
     (\<Sum>x \<leftarrow> q_items (wc_queue (js_ctx s)). mset (qitem_ids x))
       + mset (map parsed_id (putting (js_run s) @ away)) + (\<Sum>pc \<leftarrow> js_workers s. mset (map pi_id (carried pc)))
       + mset (map sink_item_id (wc_emitted (js_ctx s)))
     = mset (map parsed_id (take (nat (ingested (wc_counts (js_ctx s)))) rows))"

definition inv_counts :: "job_sys \<Rightarrow> bool" where
  "inv_counts s \<longleftrightarrow>
     (let c = js_ctx s; k = wc_counts c; xs = wc_emitted c in
      succeeded k = int (length (filter is_success_item xs)) \<and>
      failed k = int (length (filter (\<lambda>x. \<not> is_success_item x) xs)) \<and>
      pending k = ingested k - int (length xs) \<and>
      in_flight k = sum_list (map flying (js_workers s)) \<and>
      sum_list (map snd (wc_errors_by_class c)) = failed k \<and>
      (\<forall>j. dict_get_or (wc_errors_by_class c) (fc_value j) 0 =
         int (length (filter (row_has_class j) xs))) \<and>
      ut_input_tokens (wc_usage c) = sum_list (map row_input_tokens xs) \<and>
      ut_output_tokens (wc_usage c) = sum_list (map row_output_tokens xs))"

definition inv_rows :: "job_sys \<Rightarrow> bool" where
  "inv_rows s \<longleftrightarrow>
     rows_ok (js_rows s) \<and> rows_ok (putting (js_run s)) \<and>
     (\<forall>x \<in> set (q_items (wc_queue (js_ctx s))). qitem_ok x) \<and>
     (\<forall>pc \<in> set (js_workers s). pc_ok pc) \<and> (\<forall>x \<in> set (wc_emitted (js_ctx s)). row_ok x) \<and>
     (\<forall>p \<in> set (wc_calls (js_ctx s)). snd p \<in> {1..8})"

definition inv_queue :: "nat \<Rightarrow> job_sys \<Rightarrow> bool" where
  "inv_queue n s \<longleftrightarrow>
     (let q = wc_queue (js_ctx s) in
      length (js_workers s) = n \<and> q_maxsize q = n * queue_multiplier \<and> aq.in_bounds q \<and>
      q_unfinished q = length (q_items q) + sum_list (map (\<lambda>pc. length (in_hand pc)) (js_workers s)) \<and>
      (\<exists>ps m. q_items q = map Q_parsed ps @ replicate m Q_shutdown \<and>
         m + to_stop n (js_run s) + dones s = n \<and> (0 < dones s \<longrightarrow> ps = [])))"

definition inv_budget :: "job_sys \<Rightarrow> bool" where
  "inv_budget s \<longleftrightarrow>
     (let c = js_ctx s in
      rb_fraction (wc_budget c) = 1 / 5 \<and>
      rb_total_items (wc_budget c) = max 1 (ingested (wc_counts c)) \<and>
      calls_made c + sum_list (map owed (js_workers s))
        + sum_list (map qitem_prompts (q_items (wc_queue c)))
        + sum_list (map (\<lambda>p. qitem_prompts (Q_parsed p)) (putting (js_run s)))
      \<le> ingested (wc_counts c) + rb_used (wc_budget c))"

definition inv_sink :: "job_sys \<Rightarrow> bool" where
  "inv_sink s \<longleftrightarrow>
     (let k = wc_sink (js_ctx s) in
      sink_inv k \<and>
      (if sink_closed (js_run s) then \<not> sk_task_alive k \<and> q_items (sk_queue k) = []
       else if sink_closing (js_run s) then
         (sk_task_alive k \<and> (\<exists>ws. q_items (sk_queue k) = map Some ws @ [None])) \<or>
         (\<not> sk_task_alive k \<and> q_items (sk_queue k) = [])
       else sink_accepting k) \<and>
      (sink_closing (js_run s) \<or> sink_closed (js_run s) \<longrightarrow>
         list_all worker_finished (js_workers s)))"

definition job_inv_but :: "parsed list \<Rightarrow> job_env \<Rightarrow> parsed list \<Rightarrow> nat \<Rightarrow> job_sys \<Rightarrow> bool" where
  "job_inv_but away E rows n s \<longleftrightarrow>
     sound (je_dumps E) (js_ctx s) \<and> inv_input rows s \<and> inv_books_but away rows s \<and> inv_counts s \<and>
     inv_rows s \<and> inv_queue n s \<and> inv_budget s \<and> inv_sink s"

abbreviation inv_books :: "parsed list \<Rightarrow> job_sys \<Rightarrow> bool" where
  "inv_books \<equiv> inv_books_but []"

abbreviation job_inv :: "job_env \<Rightarrow> parsed list \<Rightarrow> nat \<Rightarrow> job_sys \<Rightarrow> bool" where
  "job_inv \<equiv> job_inv_but []"

lemmas inv_books_def = inv_books_but_def [where away = "[]", unfolded append_Nil2]
lemmas job_inv_def = job_inv_but_def [where away = "[]"]

section \<open>It holds at the start\<close>

lemma job_controller_wf:
  "0 < rpm \<Longrightarrow> tb_wf (ac_bucket (job_controller rpm now))"
  by (simp add: job_controller_def Let_def new_controller_def new_token_bucket_def tb_wf_def max_def)

lemma sum_list_const_0 [simp]:
  "sum_list (replicate n (0 :: 'a :: comm_monoid_add)) = 0"
  by (induction n) simp_all

lemma start_run_inv:
  assumes "fresh_record record" "rows_ok rows" "0 < rpm"
  shows "job_inv E rows (job_concurrency (jr_config record) rpm)
    (start_run record rpm cd rb rc prior nb ns rows err)"
proof -
  let ?s = "start_run record rpm cd rb rc prior nb ns rows err"
  let ?n = "job_concurrency (jr_config record) rpm"
  have run: "js_run ?s = R_ingest" "js_workers ?s = replicate ?n W_get" "js_rows ?s = rows"
    by (simp_all add: start_run_def Let_def save_record_def)
  have ctx: "wc_counts (js_ctx ?s) = init_counts" "wc_usage (js_ctx ?s) = init_usage"
    "wc_errors_by_class (js_ctx ?s) = []" "wc_emitted (js_ctx ?s) = []" "wc_calls (js_ctx ?s) = []"
    "wc_queue (js_ctx ?s) = new_queue (?n * queue_multiplier)"
    "wc_budget (js_ctx ?s) = new_retry_budget 1" "wc_sink (js_ctx ?s) = sink_start prior ns"
    "wc_abort_event (js_ctx ?s) = False" "wc_abort_class (js_ctx ?s) = []"
    "wc_controller (js_ctx ?s) = job_controller rpm nb"
    "wc_breaker (js_ctx ?s) = new_circuit_breaker cd"
    using assms(1) by (simp_all add: start_run_def Let_def save_record_def fresh_record_def)
  have "ac_retries_issued (job_controller rpm nb) = 0"
    by (simp add: job_controller_def Let_def new_controller_def)
  then have "sound (je_dumps E) (js_ctx ?s)"
    using assms(3) job_controller_wf [of rpm nb] rb_limit_pos [of "new_retry_budget 1"]
    by (simp add: sound_def wctx_ok_def sink_linked_def ctx abort_classes_ok_def)
      (simp add: sink_start_def new_queue_def new_retry_budget_def sink_waiting_def
        List.map_filter_def)
  moreover have "inv_input rows ?s" "inv_books rows ?s" "inv_counts ?s" "inv_budget ?s"
    by (simp_all add: inv_input_def inv_books_def inv_counts_def inv_budget_def run ctx Let_def
        init_counts_def init_usage_def new_queue_def calls_made_def new_retry_budget_def)
  moreover have "inv_rows ?s" "inv_queue ?n ?s" "inv_sink ?s"
    using assms(2)
    by (simp_all add: inv_rows_def inv_queue_def inv_sink_def run ctx Let_def new_queue_def
        rows_ok_def aq.in_bounds_def dones_def sink_accepting_def sink_start_def)
      (simp add: sink_inv_def new_queue_def flush_every_rows_def)
  ultimately show ?thesis
    by (simp add: job_inv_def)
qed

section \<open>A worker's turn keeps it\<close>

text \<open>The state after worker \<open>i\<close> went from \<open>pc\<close> to \<open>pc'\<close> and the context to \<open>c'\<close>.\<close>

abbreviation worker_moved :: "nat \<Rightarrow> wctx \<Rightarrow> wpc \<Rightarrow> job_sys \<Rightarrow> job_sys" where
  "worker_moved i c' pc' s \<equiv> s\<lparr>js_ctx := c', js_workers := (js_workers s)[i := pc']\<rparr>"

lemma mset_concat_map: "mset (concat (map f xs)) = (\<Sum>x \<leftarrow> xs. mset (f x))"
  by (induction xs) simp_all

lemma length_filter_sum: "length (filter P xs) = sum_list (map (\<lambda>x. if P x then 1 else 0) xs)"
  by (induction xs) simp_all

lemma length_concat_update:
  "i < length xs \<Longrightarrow> sum_list (map (\<lambda>x. length (f x)) (xs[i := y])) + length (f (xs ! i)) =
    sum_list (map (\<lambda>x. length (f x)) xs) + length (f y)"
  by (rule sum_list_update_cancel)

lemma moved_books:
  assumes i: "i < length (js_workers s)" and inv: "inv_books_but away rows s"
    and step: "step_books taken new (js_ctx s) (js_workers s ! i) c' pc'"
    and lost: "lost (js_workers s ! i) = []"
  shows "inv_books_but away rows (worker_moved i c' pc' s)"
proof -
  let ?pc = "js_workers s ! i"
  let ?W = "\<lambda>ws. (\<Sum>pc \<leftarrow> ws. mset (map pi_id (carried pc)))"
  have W: "?W ((js_workers s)[i := pc']) + mset (map pi_id (carried ?pc)) =
      ?W (js_workers s) + mset (map pi_id (carried pc'))"
    by (rule sum_list_update_cancel [OF i])
  have step': "(\<Sum>x \<leftarrow> taken. mset (qitem_ids x)) + mset (map pi_id (carried ?pc)) =
      mset (map sink_item_id new) + mset (map pi_id (carried pc'))"
    "q_items (wc_queue (js_ctx s)) = taken @ q_items (wc_queue c')"
    "wc_emitted c' = wc_emitted (js_ctx s) @ new"
    "ingested (wc_counts c') = ingested (wc_counts (js_ctx s))"
    using step lost by (simp_all add: step_books_def tally_def mset_concat_map carried_eq)
  have books_arith: "Q + P + W' + (M + N) = D"
    if "W' + C = W + C'" "T + C = N + C'" "T + Q + P + W + M = D" for Q P W W' T N C C' M D :: "string multiset"
  proof (rule multiset_eqI)
    fix x
    show "count (Q + P + W' + (M + N)) x = count D x"
      using that [THEN arg_cong [where f = "\<lambda>m. count m x"]] by simp
  qed
  have "(\<Sum>x \<leftarrow> q_items (wc_queue c'). mset (qitem_ids x)) + mset (map parsed_id (putting (js_run s) @ away))
      + ?W ((js_workers s)[i := pc'])
      + (mset (map sink_item_id (wc_emitted (js_ctx s))) + mset (map sink_item_id new)) =
      mset (map parsed_id (take (nat (ingested (wc_counts (js_ctx s)))) rows))"
    by (rule books_arith [OF W step'(1)])
      (use inv step'(2) in \<open>simp add: inv_books_but_def add.assoc\<close>)
  then show ?thesis
    by (simp add: inv_books_but_def step'(3,4) add.assoc)
qed

lemma moved_counts:
  assumes i: "i < length (js_workers s)" and inv: "inv_counts s"
    and step: "step_books taken new (js_ctx s) (js_workers s ! i) c' pc'"
  shows "inv_counts (worker_moved i c' pc' s)"
proof -
  have "sum_list (map flying ((js_workers s)[i := pc'])) =
      sum_list (map flying (js_workers s)) + flying pc' - flying (js_workers s ! i)"
    by (rule sum_list_update_int [OF i])
  then show ?thesis
    using inv step by (simp add: inv_counts_def step_books_def tally_def Let_def)
qed

lemma moved_rows:
  assumes "inv_rows s" "step_books taken new (js_ctx s) pc c' pc'"
  shows "inv_rows (worker_moved i c' pc' s)"
  using assms
  by (auto simp: inv_rows_def step_books_def tally_def dest!: set_update_cases)

lemma moved_dones:
  assumes i: "i < length (js_workers s)" and "js_workers s ! i \<noteq> W_done"
  shows "dones (worker_moved i c' pc' s) = dones s + (if pc' = W_done then 1 else 0)"
proof -
  have len: "dones t = sum_list (map (\<lambda>pc. if pc = W_done then 1 else 0) (js_workers t))" for t
    unfolding dones_def by (rule length_filter_sum)
  show ?thesis
    using sum_list_update_nat [OF i, of "\<lambda>pc. if pc = W_done then 1 else 0" pc'] assms(2)
    by (simp add: len)
qed

text \<open>The queue holds rows, then sentinels; taking its head keeps that shape.\<close>

lemma taken_shape:
  assumes "map Q_parsed ps @ replicate m Q_shutdown = taken @ items" "length taken \<le> 1"
  obtains (nothing) "taken = []" "items = map Q_parsed ps @ replicate m Q_shutdown"
  | (row) p ps' where "taken = [Q_parsed p]" "ps = p # ps'"
      "items = map Q_parsed ps' @ replicate m Q_shutdown"
  | (stop) m' where "taken = [Q_shutdown]" "ps = []" "m = Suc m'"
      "items = replicate m' Q_shutdown"
proof (cases taken)
  case Nil
  then show ?thesis using assms(1) by - (rule nothing, simp_all)
next
  case (Cons x xs)
  then have taken: "taken = [x]" using assms(2) by simp
  show ?thesis
  proof (cases ps)
    case Nil
    then show ?thesis using assms(1) taken by - (rule stop [of "m - 1"]; cases m; auto)
  next
    case (Cons p ps')
    then show ?thesis using assms(1) taken by - (rule row [of p ps'], auto)
  qed
qed

lemma moved_queue:
  assumes i: "i < length (js_workers s)" and inv: "inv_queue n s"
    and step: "step_books taken new (js_ctx s) (js_workers s ! i) c' pc'"
    and live: "js_workers s ! i \<noteq> W_done"
  shows "inv_queue n (worker_moved i c' pc' s)"
proof -
  obtain ps m where shape: "q_items (wc_queue (js_ctx s)) = map Q_parsed ps @ replicate m Q_shutdown"
    "m + to_stop n (js_run s) + dones s = n" "0 < dones s \<longrightarrow> ps = []"
    using inv by (auto simp: inv_queue_def Let_def)
  have items: "q_items (wc_queue (js_ctx s)) = taken @ q_items (wc_queue c')" "length taken \<le> 1"
    and fin: "pc' = W_done \<longleftrightarrow> taken = [Q_shutdown]"
    and unf: "q_unfinished (wc_queue c') + length taken + length (in_hand (js_workers s ! i)) =
       q_unfinished (wc_queue (js_ctx s)) + length (in_hand pc')"
    and max: "q_maxsize (wc_queue c') = q_maxsize (wc_queue (js_ctx s))"
    using step by (simp_all add: step_books_def)
  have dones: "dones (worker_moved i c' pc' s) = dones s + (if taken = [Q_shutdown] then 1 else 0)"
    using moved_dones [OF i live, where c' = c' and pc' = pc'] fin by simp
  have "\<exists>ps m. q_items (wc_queue c') = map Q_parsed ps @ replicate m Q_shutdown \<and>
      m + to_stop n (js_run s) + dones (worker_moved i c' pc' s) = n \<and>
      (0 < dones (worker_moved i c' pc' s) \<longrightarrow> ps = [])"
    using items(1) [unfolded shape(1)] items(2)
  proof (cases rule: taken_shape)
    case nothing
    then show ?thesis using shape(2,3) dones by (intro exI [of _ ps] exI [of _ m]) simp
  next
    case (row p ps')
    then show ?thesis using shape(2,3) dones by auto
  next
    case (stop m')
    then show ?thesis using shape(2) dones by (intro exI [of _ "[]"] exI [of _ m']) simp
  qed
  moreover have "q_unfinished (wc_queue c') = length (q_items (wc_queue c'))
      + sum_list (map (\<lambda>pc. length (in_hand pc)) ((js_workers s)[i := pc']))"
    using inv unf items length_concat_update [OF i, of in_hand pc']
    by (simp add: inv_queue_def Let_def)
  moreover have "aq.in_bounds (wc_queue c')"
    using inv items(1) max by (auto simp: inv_queue_def aq.in_bounds_def Let_def)
  ultimately show ?thesis
    using inv max by (simp add: inv_queue_def Let_def)
qed

lemma moved_budget:
  assumes i: "i < length (js_workers s)" and inv: "inv_budget s"
    and step: "step_books taken new (js_ctx s) (js_workers s ! i) c' pc'"
  shows "inv_budget (worker_moved i c' pc' s)"
proof -
  have "sum_list (map owed ((js_workers s)[i := pc'])) =
      sum_list (map owed (js_workers s)) + owed pc' - owed (js_workers s ! i)"
    by (rule sum_list_update_int [OF i])
  then show ?thesis
    using inv step by (simp add: inv_budget_def step_books_def tally_def Let_def)
qed

lemma submits_keep:
  "sink_inv k \<Longrightarrow> sink_inv (fold sink_submit xs k)"
  "sink_accepting k \<Longrightarrow> sink_accepting (fold sink_submit xs k)"
proof (induction xs arbitrary: k)
  case (Cons x xs)
  {
    case 1
    then show ?case using Cons.IH(1) [of "sink_submit x k"] by (simp add: sink_submit_def)
  next
    case 2
    then show ?case
      using Cons.IH(2) [of "sink_submit x k"] sink_step_accepting [of k "Sk_submit x"] by simp
  }
qed simp_all

lemma moved_sink:
  assumes i: "i < length (js_workers s)" and inv: "inv_sink s"
    and step: "step_books taken new (js_ctx s) (js_workers s ! i) c' pc'"
    and live: "\<not> worker_finished (js_workers s ! i)"
  shows "inv_sink (worker_moved i c' pc' s)"
proof -
  have "\<not> list_all worker_finished (js_workers s)"
    using i live by (auto simp: list_all_length)
  then have "\<not> sink_closing (js_run s)" "\<not> sink_closed (js_run s)"
    using inv by (auto simp: inv_sink_def Let_def)
  then show ?thesis
    using inv step by (simp add: inv_sink_def step_books_def tally_def Let_def submits_keep)
qed

lemma moved_input:
  "inv_input rows s \<Longrightarrow> step_books taken new (js_ctx s) pc c' pc' \<Longrightarrow>
   inv_input rows (worker_moved i c' pc' s)"
  by (simp add: inv_input_def step_books_def tally_def Let_def)

lemma worker_step_live:
  "worker_step xr pf osc ev c pc = Some r \<Longrightarrow> \<not> worker_finished pc"
  by (cases "(xr, pf, osc, ev, c, pc)" rule: worker_step.cases) auto

lemma worker_turn_books:
  assumes "worker_turn E i ev s = Some s'" "job_inv_but away E rows n s"
  obtains c' pc' taken new where "i < length (js_workers s)" "s' = worker_moved i c' pc' s"
    "step_books taken new (js_ctx s) (js_workers s ! i) c' pc'" "sound (je_dumps E) c'"
    "lost (js_workers s ! i) = []" "\<not> worker_finished (js_workers s ! i)"
proof -
  let ?osc = "on_spend_check (je_fmt E) (je_prices E)"
  obtain c' pc' where i: "i < length (js_workers s)" and s': "s' = worker_moved i c' pc' s"
    and step: "worker_step (je_exn_repr E) (je_parse_float E) ?osc ev (js_ctx s) (js_workers s ! i) =
      Some (c', pc')"
    using assms(1) by (auto simp: worker_turn_def split: if_splits option.splits)
  have inv: "sound (je_dumps E) (js_ctx s)" "inv_rows s" "inv_queue n s"
    using assms(2) by (simp_all add: job_inv_but_def)
  have "length (in_hand (js_workers s ! i)) \<le> sum_list (map (\<lambda>pc. length (in_hand pc)) (js_workers s))"
    using i nth_le_sum_list [of i "js_workers s" "\<lambda>pc. length (in_hand pc)"] by simp
  then obtain taken new where "step_books taken new (js_ctx s) (js_workers s ! i) c' pc'"
    using inv i by (atomize_elim, intro pool.worker_step_books [OF step])
      (simp_all add: inv_rows_def inv_queue_def sound_def wctx_ok_def Let_def)
  moreover have "sound (je_dumps E) c'"
    using pool.worker_step_sound [OF step inv(1)] by simp
  ultimately show ?thesis
    using i s' worker_step_live [OF step] worker_step_in_hand [OF step] by - (rule that, simp_all)
qed

lemma worker_turn_inv:
  assumes "worker_turn E i ev s = Some s'" "job_inv_but away E rows n s"
  shows "job_inv_but away E rows n s'"
proof -
  obtain c' pc' taken new where i: "i < length (js_workers s)" and s': "s' = worker_moved i c' pc' s"
    and step: "step_books taken new (js_ctx s) (js_workers s ! i) c' pc'"
    and sound: "sound (je_dumps E) c'"
    and live: "lost (js_workers s ! i) = []" "\<not> worker_finished (js_workers s ! i)"
    by (rule worker_turn_books [OF assms])
  have not_done: "js_workers s ! i \<noteq> W_done"
    using live(2) by auto
  have inv: "inv_input rows s" "inv_books_but away rows s" "inv_counts s" "inv_rows s" "inv_queue n s"
    "inv_budget s" "inv_sink s"
    using assms(2) by (simp_all add: job_inv_but_def)
  show ?thesis
    unfolding job_inv_but_def s'
    using sound moved_input [OF inv(1) step] moved_books [OF i inv(2) step live(1)]
      moved_counts [OF i inv(3) step] moved_rows [OF inv(4) step]
      moved_queue [OF i inv(5) step not_done] moved_budget [OF i inv(6) step]
      moved_sink [OF i inv(7) step live(2)]
    by simp
qed

section \<open>A turn of the writer keeps it\<close>

lemma sound_sink_step:
  assumes "sound dumps c" "sink_submits [e] = []"
  shows "sound dumps (c\<lparr>wc_sink := sink_step dumps (wc_sink c) e\<rparr>)"
proof -
  have max: "q_maxsize (sk_queue (wc_sink c)) = 0"
    using assms(1) by (simp add: sound_def wctx_ok_def)
  obtain w0 where w0: "sk_lines (wc_sink c) = map (\<lambda>x. dumps (item_line x)) w0"
    "wc_emitted c = w0 @ sink_waiting (wc_sink c)"
    using assms(1) by (auto simp: sound_def sink_linked_def)
  obtain w where w: "sk_lines (sink_step dumps (wc_sink c) e) =
      sk_lines (wc_sink c) @ map (\<lambda>x. dumps (item_line x)) w"
    "sink_waiting (wc_sink c) = w @ sink_waiting (sink_step dumps (wc_sink c) e)"
    using sink_step_order [OF max, of dumps e] assms(2) by auto
  have "sink_linked dumps (c\<lparr>wc_sink := sink_step dumps (wc_sink c) e\<rparr>)"
    using w0 w by (auto simp: sink_linked_def intro!: exI [of _ "w0 @ w"])
  then show ?thesis
    using assms(1) by (simp add: sound_def wctx_ok_def frame abort_classes_ok_def)
qed

definition sink_phase_ok :: "run_pc \<Rightarrow> result_sink \<Rightarrow> bool" where
  "sink_phase_ok r k \<longleftrightarrow>
     (if sink_closed r then \<not> sk_task_alive k \<and> q_items (sk_queue k) = []
      else if sink_closing r then
        (sk_task_alive k \<and> (\<exists>ws. q_items (sk_queue k) = map Some ws @ [None])) \<or>
        (\<not> sk_task_alive k \<and> q_items (sk_queue k) = [])
      else sink_accepting k)"

lemma inv_sink_phase:
  "inv_sink s \<longleftrightarrow> sink_inv (wc_sink (js_ctx s)) \<and> sink_phase_ok (js_run s) (wc_sink (js_ctx s)) \<and>
     (sink_closing (js_run s) \<or> sink_closed (js_run s) \<longrightarrow>
        list_all worker_finished (js_workers s))"
  by (simp add: inv_sink_def sink_phase_ok_def Let_def)

lemma writer_phase:
  assumes "sink_turn dumps now k = Some k' \<or> sink_timeout now k = Some k'" "sink_phase_ok r k"
  shows "sink_phase_ok r k'"
proof -
  have alive: "sk_task_alive k"
    using assms(1) by (auto simp: sink_turn_def sink_timeout_def split: if_splits)
  then consider (accept) "\<not> sink_closed r" "\<not> sink_closing r" "sink_accepting k"
    | (closing) ws where "\<not> sink_closed r" "sink_closing r" "q_items (sk_queue k) = map Some ws @ [None]"
    using assms(2) by (auto simp: sink_phase_ok_def split: if_splits)
  then show ?thesis
  proof cases
    case accept
    have "k' = sink_step dumps k (Sk_turn now) \<or> k' = sink_step dumps k (Sk_timeout now)"
      using assms(1) by auto
    then have "sink_accepting k'"
      using sink_step_accepting [OF accept(3)] by blast
    then show ?thesis using accept by (simp add: sink_phase_ok_def)
  next
    case closing
    then show ?thesis
      using assms(1) alive
      by (cases ws) (auto simp: sink_phase_ok_def sink_turn_def sink_timeout_def q_get_def
          sink_flush_def frame)
  qed
qed

lemma writer_inv:
  assumes "sink_turn (je_dumps E) now (wc_sink (js_ctx s)) = Some k \<or>
      sink_timeout now (wc_sink (js_ctx s)) = Some k"
    and inv: "job_inv_but away E rows n s"
  shows "job_inv_but away E rows n (s\<lparr>js_ctx := (js_ctx s)\<lparr>wc_sink := k\<rparr>\<rparr>)"
proof -
  let ?k = "wc_sink (js_ctx s)"
  obtain e where k: "k = sink_step (je_dumps E) ?k e" "sink_submits [e] = []"
    using assms(1) that [of "Sk_turn now"] that [of "Sk_timeout now"] by auto
  have "sound (je_dumps E) (js_ctx s)" "sink_inv ?k" "sink_phase_ok (js_run s) ?k"
    using inv by (simp_all add: job_inv_but_def inv_sink_phase)
  then have "sound (je_dumps E) ((js_ctx s)\<lparr>wc_sink := k\<rparr>)" "sink_inv k" "sink_phase_ok (js_run s) k"
    using sound_sink_step [OF _ k(2), of "je_dumps E" "js_ctx s"] writer_phase [OF assms(1)]
      sink_step_inv [of ?k "je_dumps E" e]
    by (simp_all add: k(1) [symmetric])
  then show ?thesis
    using inv
    by (simp add: job_inv_but_def inv_input_def inv_books_but_def inv_counts_def inv_rows_def inv_queue_def
        inv_budget_def inv_sink_phase dones_def calls_made_def Let_def)
qed

section \<open>A turn of the runner keeps it\<close>

lemma job_inv_record [simp]:
  "job_inv_but away E rows n (s\<lparr>js_record := r\<rparr>) = job_inv_but away E rows n s"
  "job_inv_but away E rows n (save_record s) = job_inv_but away E rows n s"
  by (simp_all add: job_inv_but_def inv_input_def inv_books_but_def inv_counts_def inv_rows_def inv_queue_def
      inv_budget_def inv_sink_def dones_def save_record_def)

lemma cancel_inv: "job_inv_but away E rows n s \<Longrightarrow> job_inv_but away E rows n (cancel_job_event s)"
  by (simp add: cancel_job_event_def job_inv_but_def inv_input_def inv_books_but_def inv_counts_def
      inv_rows_def inv_queue_def inv_budget_def inv_sink_def dones_def calls_made_def
      sound_def wctx_ok_def sink_linked_def abort_classes_ok_def Let_def)

text \<open>Phases that touch neither the context nor the workers.\<close>

lemma phase_inv:
  assumes "job_inv_but away E rows n s" "putting r = putting (js_run s)"
    and "to_stop n r = to_stop n (js_run s)" "ingesting r \<Longrightarrow> ingesting (js_run s)"
    and "sink_closing r = sink_closing (js_run s)" "sink_closed r = sink_closed (js_run s)"
  shows "job_inv_but away E rows n (s\<lparr>js_run := r\<rparr>)"
  using assms
  by (simp add: job_inv_but_def inv_input_def inv_books_but_def inv_counts_def inv_rows_def inv_queue_def
      inv_budget_def inv_sink_def dones_def Let_def)

lemma drop_row_inv:
  "job_inv_but away E rows n s \<Longrightarrow> \<not> ingesting r \<Longrightarrow> putting r = putting (js_run s) \<Longrightarrow>
   to_stop n r = to_stop n (js_run s) \<Longrightarrow> sink_closing r = sink_closing (js_run s) \<Longrightarrow>
   sink_closed r = sink_closed (js_run s) \<Longrightarrow> js_rows s = p # ps \<Longrightarrow>
   job_inv_but away E rows n (s\<lparr>js_rows := ps, js_run := r\<rparr>)"
  by (simp add: job_inv_but_def inv_input_def inv_books_but_def inv_counts_def inv_rows_def inv_queue_def
      inv_budget_def inv_sink_def dones_def rows_ok_def Let_def)

lemma length_workers_inv: "job_inv_but away E rows n s \<Longrightarrow> length (js_workers s) = n"
  by (simp add: job_inv_but_def inv_queue_def Let_def)

lemma begin_shutdown_inv:
  "job_inv_but away E rows n s \<Longrightarrow> js_run s \<in> {R_ingest, R_persist} \<Longrightarrow> job_inv_but away E rows n (begin_shutdown e s)"
  unfolding begin_shutdown_def
  by (rule phase_inv) (auto simp: length_workers_inv)

lemma after_persist_inv:
  "job_inv_but away E rows n s \<Longrightarrow> js_run s \<in> {R_ingest, R_persist} \<Longrightarrow> job_inv_but away E rows n (after_persist s)"
  by (auto simp: after_persist_def begin_shutdown_inv split: option.splits intro!: phase_inv)

lemma count_row_inv:
  assumes "job_inv_but away E rows n s" "js_run s = R_ingest" "js_rows s = p # ps"
    and c: "c = (js_ctx s)\<lparr>wc_counts := (wc_counts (js_ctx s))
        \<lparr>ingested := ingested (wc_counts (js_ctx s)) + 1, pending := pending (wc_counts (js_ctx s)) + 1\<rparr>,
      wc_budget := (wc_budget (js_ctx s))\<lparr>rb_total_items := ingested (wc_counts (js_ctx s)) + 1\<rparr>\<rparr>"
  shows "job_inv_but away E rows n (s\<lparr>js_rows := ps, js_run := R_put p, js_ctx := c\<rparr>)"
proof -
  let ?i = "ingested (wc_counts (js_ctx s))"
  let ?s = "s\<lparr>js_rows := ps, js_run := R_put p, js_ctx := c\<rparr>"
  have inv: "sound (je_dumps E) (js_ctx s)" "inv_input rows s" "inv_books_but away rows s" "inv_counts s"
    "inv_rows s" "inv_queue n s" "inv_budget s" "inv_sink s"
    using assms(1) by (simp_all add: job_inv_but_def)
  have i: "0 \<le> ?i" "p # ps = drop (nat ?i) rows"
    using inv(2) assms(2,3) by (auto simp: inv_input_def Let_def)
  have lt: "nat ?i < length rows"
    using i(2) [symmetric] by (cases "nat ?i < length rows") simp_all
  have p: "rows ! nat ?i = p"
    by (rule nth_via_drop [OF i(2) [symmetric]])
  have tl: "drop (Suc (nat ?i)) rows = ps"
    using i(2) [symmetric] lt by (simp add: Cons_nth_drop_Suc [symmetric])
  have nat: "nat (?i + 1) = Suc (nat ?i)"
    using i(1) by simp
  have "inv_input rows ?s"
    using i(1) lt nat tl by (simp add: inv_input_def c Let_def)
  moreover have "inv_books_but away rows ?s"
    using inv(3) assms(2) lt p by (simp add: inv_books_but_def c nat take_Suc_conv_app_nth)
  moreover have "inv_counts ?s" "inv_sink ?s" "inv_queue n ?s"
    using inv(4,6,8) assms(2) by (simp_all add: inv_counts_def inv_sink_def inv_queue_def dones_def c Let_def)
  moreover have "inv_rows ?s"
    using inv(5) assms(2,3) by (simp add: inv_rows_def rows_ok_def c)
  moreover have "inv_budget ?s"
    using inv(7) assms(2) i(1)
    by (cases p) (simp_all add: inv_budget_def calls_made_def c Let_def)
  moreover have "rb_limit (wc_budget (js_ctx s)) \<le> rb_limit (wc_budget c)"
    using inv(7) i(1) rb_limit_mono [of "wc_budget (js_ctx s)" "?i + 1"]
    by (simp add: inv_budget_def c Let_def)
  then have "sound (je_dumps E) c"
    using inv(1) by (intro sound_frame [OF inv(1)])
      (simp_all add: c sound_def wctx_ok_def abort_classes_ok_def)
  ultimately show ?thesis
    by (simp add: job_inv_but_def)
qed

lemma ingest_next_inv:
  assumes "job_inv_but away E rows n s" "js_run s = R_ingest"
  shows "job_inv_but away E rows n (ingest_next s)"
proof (cases "js_rows s")
  case Nil
  then show ?thesis
    using assms by (simp add: ingest_next_def begin_shutdown_inv)
next
  case (Cons p ps)
  show ?thesis
  proof (cases "wc_cancel_event (js_ctx s) \<or> wc_abort_event (js_ctx s)")
    case True
    then show ?thesis
      using Cons drop_row_inv [OF assms(1), of "R_shutdown (length (js_workers s)) None" p ps] assms
      by (auto simp: ingest_next_def begin_shutdown_def length_workers_inv)
  next
    case False
    then show ?thesis
      using Cons count_row_inv [OF assms Cons] by (simp add: ingest_next_def Let_def)
  qed
qed

lemma in_bounds_put: "q_put x q = Some q' \<Longrightarrow> aq.in_bounds q \<Longrightarrow> aq.in_bounds q'"
  by (rule aq.put_in_bounds)

lemma put_row_inv:
  assumes inv: "job_inv_but away E rows n s" and run: "js_run s = R_put p"
    and put: "q_put (Q_parsed p) (wc_queue (js_ctx s)) = Some q"
  shows "job_inv_but away E rows n (s\<lparr>js_ctx := (js_ctx s)\<lparr>wc_queue := q\<rparr>, js_run := R_ingest\<rparr>)"
proof -
  let ?s = "s\<lparr>js_ctx := (js_ctx s)\<lparr>wc_queue := q\<rparr>, js_run := R_ingest\<rparr>"
  have q: "q_items q = q_items (wc_queue (js_ctx s)) @ [Q_parsed p]"
    "q_maxsize q = q_maxsize (wc_queue (js_ctx s))"
    "q_unfinished q = Suc (q_unfinished (wc_queue (js_ctx s)))"
    using put by (auto simp: q_put_Some)
  obtain ps m where "q_items (wc_queue (js_ctx s)) = map Q_parsed ps @ replicate m Q_shutdown"
    "m + n + dones s = n" "inv_queue n s"
    using inv run by (auto simp: job_inv_but_def inv_queue_def Let_def)
  then have "q_items q = map Q_parsed (ps @ [p])" "dones ?s = 0" "inv_queue n s"
    by (simp_all add: q dones_def)
  then have "inv_queue n ?s"
    using in_bounds_put [OF put]
    by (auto simp: inv_queue_def q Let_def intro!: exI [of _ "ps @ [p]"])
  then show ?thesis
    using inv run q
    by (auto simp: job_inv_but_def inv_input_def inv_books_but_def inv_counts_def inv_rows_def
        inv_budget_def inv_sink_def calls_made_def Let_def sound_def wctx_ok_def sink_linked_def
        abort_classes_ok_def rows_ok_def)
qed

lemma after_persist_run: "after_persist (s\<lparr>js_run := r\<rparr>) = after_persist s"
  by (auto simp: after_persist_def begin_shutdown_def split: option.splits)

lemma ingest_put_inv:
  assumes "job_inv_but away E rows n s" "js_run s = R_put p" "ingest_put p s = Some s'"
  shows "job_inv_but away E rows n s'"
proof -
  obtain q where put: "q_put (Q_parsed p) (wc_queue (js_ctx s)) = Some q"
    using assms(3) by (auto simp: ingest_put_def split: option.splits)
  let ?s = "s\<lparr>js_ctx := (js_ctx s)\<lparr>wc_queue := q\<rparr>, js_run := R_ingest\<rparr>"
  have inv: "job_inv_but away E rows n ?s"
    by (rule put_row_inv [OF assms(1,2) put])
  have "job_inv_but away E rows n (?s\<lparr>js_run := R_persist\<rparr>)"
    using inv by (rule phase_inv) simp_all
  moreover have "job_inv_but away E rows n (after_persist ?s)"
    using inv by (rule after_persist_inv) simp
  moreover have "after_persist ?s = after_persist (s\<lparr>js_ctx := (js_ctx s)\<lparr>wc_queue := q\<rparr>\<rparr>)"
    using after_persist_run [of R_ingest "s\<lparr>js_ctx := (js_ctx s)\<lparr>wc_queue := q\<rparr>\<rparr>"] by simp
  ultimately show ?thesis
    using assms(3) put by (auto simp: ingest_put_def Let_def split: if_splits)
qed

lemma put_shutdown_inv:
  assumes inv: "job_inv_but away E rows n s" and run: "js_run s = R_shutdown (Suc k) e"
    and "put_shutdown k e s = Some s'"
  shows "job_inv_but away E rows n s'"
proof -
  obtain q where put: "q_put Q_shutdown (wc_queue (js_ctx s)) = Some q"
    and s': "s' = s\<lparr>js_ctx := (js_ctx s)\<lparr>wc_queue := q\<rparr>, js_run := R_shutdown k e\<rparr>"
    using assms(3) by (auto simp: put_shutdown_def split: option.splits)
  have q: "q_items q = q_items (wc_queue (js_ctx s)) @ [Q_shutdown]"
    "q_maxsize q = q_maxsize (wc_queue (js_ctx s))"
    "q_unfinished q = Suc (q_unfinished (wc_queue (js_ctx s)))"
    using put by (auto simp: q_put_Some)
  have iq: "inv_queue n s"
    using inv by (simp add: job_inv_but_def)
  then obtain ps m where shape: "q_items (wc_queue (js_ctx s)) = map Q_parsed ps @ replicate m Q_shutdown"
    "m + Suc k + dones s = n" "0 < dones s \<longrightarrow> ps = []"
    using run by (auto simp: inv_queue_def Let_def)
  have "q_items q = map Q_parsed ps @ replicate (Suc m) Q_shutdown"
    "Suc m + to_stop n (js_run s') + dones s' = n" "0 < dones s' \<longrightarrow> ps = []"
    using shape by (simp_all add: s' dones_def q replicate_append_same)
  then have "\<exists>ps m. q_items q = map Q_parsed ps @ replicate m Q_shutdown \<and>
      m + to_stop n (js_run s') + dones s' = n \<and> (0 < dones s' \<longrightarrow> ps = [])"
    by (intro exI conjI)
  moreover have "length (q_items q) = Suc (length (q_items (wc_queue (js_ctx s))))"
    by (simp add: q)
  ultimately have "inv_queue n s'"
    using in_bounds_put [OF put] q(2,3) iq by (simp add: inv_queue_def s' Let_def)
  then show ?thesis
    using inv run q
    by (auto simp: s' job_inv_but_def inv_input_def inv_books_but_def inv_counts_def inv_rows_def
        inv_budget_def inv_sink_def calls_made_def Let_def sound_def wctx_ok_def sink_linked_def
        abort_classes_ok_def rows_ok_def)
qed

lemma set_sink_inv:
  assumes "job_inv_but away E rows n s" "sound (je_dumps E) ((js_ctx s)\<lparr>wc_sink := k\<rparr>)"
    and "sink_inv k" "sink_phase_ok r k" "list_all worker_finished (js_workers s)"
    and "putting r = putting (js_run s)" "to_stop n r = to_stop n (js_run s)" "\<not> ingesting r"
  shows "job_inv_but away E rows n (s\<lparr>js_ctx := (js_ctx s)\<lparr>wc_sink := k\<rparr>, js_run := r\<rparr>)"
  using assms
  by (simp add: job_inv_but_def inv_input_def inv_books_but_def inv_counts_def inv_rows_def inv_queue_def
      inv_budget_def inv_sink_phase dones_def calls_made_def Let_def)

lemma gather_inv:
  assumes inv: "job_inv_but away E rows n s" and run: "js_run s = R_gather e"
    and "gather_workers e s = Some s'"
  shows "job_inv_but away E rows n s'"
proof -
  let ?k = "sink_close_begin (wc_sink (js_ctx s))"
  have finished: "list_all worker_finished (js_workers s)"
    and s': "s' = s\<lparr>js_ctx := (js_ctx s)\<lparr>wc_sink := ?k\<rparr>, js_run := R_closing e\<rparr>"
    using assms(3) by (simp_all add: gather_workers_def split: if_splits)
  have acc: "sink_accepting (wc_sink (js_ctx s))" "sink_inv (wc_sink (js_ctx s))"
    "sound (je_dumps E) (js_ctx s)"
    using inv run by (simp_all add: job_inv_but_def inv_sink_def Let_def)
  have "sound (je_dumps E) ((js_ctx s)\<lparr>wc_sink := ?k\<rparr>)"
    using sound_sink_step [OF acc(3), of Sk_close] by simp
  moreover have "q_items (sk_queue ?k) = map Some (sink_waiting (wc_sink (js_ctx s))) @ [None]"
    "sk_task_alive ?k"
    using acc(1) by (simp_all add: sink_close_begin_def sink_accepting_def sink_put_unbounded
        sink_waiting_def map_Some_waiting)
  then have "sink_phase_ok (R_closing e) ?k"
    by (auto simp: sink_phase_ok_def)
  ultimately show ?thesis
    unfolding s' using finished acc(2) run
    by (intro set_sink_inv [OF inv]) (simp_all add: sink_close_begin_def)
qed

lemma close_sink_inv:
  assumes inv: "job_inv_but away E rows n s" and run: "js_run s = R_closing e"
    and "close_sink e s = Some s'"
  shows "job_inv_but away E rows n s'"
proof -
  let ?k = "(sink_flush (wc_sink (js_ctx s)))\<lparr>sk_open := False\<rparr>"
  let ?r = "case e of None \<Rightarrow> R_finish | Some x \<Rightarrow> R_raised x"
  have dead: "\<not> sk_task_alive (wc_sink (js_ctx s))"
    and s': "s' = s\<lparr>js_ctx := (js_ctx s)\<lparr>wc_sink := ?k\<rparr>, js_run := ?r\<rparr>"
    using assms(3) by (auto simp: close_sink_def sink_close_end_def split: if_splits option.splits)
  have k: "sink_inv (wc_sink (js_ctx s))" "sink_phase_ok (R_closing e) (wc_sink (js_ctx s))"
    "sound (je_dumps E) (js_ctx s)" "list_all worker_finished (js_workers s)"
    using inv run by (simp_all add: job_inv_but_def inv_sink_phase)
  have "sound (je_dumps E) ((js_ctx s)\<lparr>wc_sink := ?k\<rparr>)" "sink_inv ?k" "sink_phase_ok ?r ?k"
    using k(1-3) dead
    by (simp_all add: sound_def wctx_ok_def sink_linked_def sink_flush_def sink_waiting_def
        abort_classes_ok_def sink_inv_def sink_phase_ok_def split: option.split)
  then show ?thesis
    unfolding s' using k(4) run
    by (intro set_sink_inv [OF inv]) (simp_all split: option.split)
qed

lemma finish_inv:
  assumes inv: "job_inv_but away E rows n s" and run: "js_run s = R_finish"
  shows "job_inv_but away E rows n (finish_job prices now s)"
proof -
  define c where "c = (js_ctx s)\<lparr>wc_usage :=
    (wc_usage (js_ctx s))\<lparr>ut_estimated_cost_usd := usage_cost prices (wc_usage (js_ctx s))\<rparr>\<rparr>"
  have "job_inv_but away E rows n (s\<lparr>js_ctx := c\<rparr>)"
    using inv
    by (simp add: c_def job_inv_but_def inv_input_def inv_books_but_def inv_counts_def inv_rows_def
        inv_queue_def inv_budget_def inv_sink_def dones_def calls_made_def Let_def
        sound_def wctx_ok_def sink_linked_def abort_classes_ok_def)
  then have "job_inv_but away E rows n (s\<lparr>js_ctx := c, js_record := r\<rparr>)" for r
    using job_inv_record(1) [where s = "s\<lparr>js_ctx := c\<rparr>"] by simp
  then have "job_inv_but away E rows n (s\<lparr>js_ctx := c, js_record := r, js_run := R_done\<rparr>)"
    "job_inv_but away E rows n (s\<lparr>js_ctx := c, js_record := r, js_run := R_raised Assertion_error\<rparr>)" for r
    using run by (auto intro!: phase_inv)
  then show ?thesis
    by (simp add: finish_job_def Let_def c_def)
qed

lemma run_step_inv:
  assumes "run_step prices now (js_run s) s = Some s'" "job_inv_but away E rows n s"
  shows "job_inv_but away E rows n s'"
proof (cases "js_run s")
  case (R_put p)
  then show ?thesis using assms ingest_put_inv [OF assms(2)] by simp
next
  case (R_shutdown k e)
  show ?thesis
  proof (cases k)
    case 0
    then show ?thesis
      using assms R_shutdown phase_inv [OF assms(2), of "R_gather e"] by simp
  next
    case (Suc j)
    then show ?thesis using assms R_shutdown put_shutdown_inv [OF assms(2)] by simp
  qed
next
  case (R_gather e)
  then show ?thesis using assms gather_inv [OF assms(2)] by simp
next
  case (R_closing e)
  then show ?thesis using assms close_sink_inv [OF assms(2)] by simp
next
  case R_finish
  then show ?thesis using assms finish_inv [OF assms(2)] by auto
next
  case R_ingest
  then show ?thesis using assms ingest_next_inv [OF assms(2)] by auto
next
  case R_persist
  then show ?thesis using assms after_persist_inv [OF assms(2)] by auto
qed (use assms in simp_all)

section \<open>Every reachable state\<close>

lemma sys_step_inv:
  assumes "sys_step E l s = Some s'" "job_inv_but away E rows n s"
  shows "job_inv_but away E rows n s'"
proof (cases l)
  case (L_run now)
  then show ?thesis using assms run_step_inv by auto
next
  case (L_worker i ev)
  then show ?thesis using assms worker_turn_inv by auto
next
  case (L_sink now)
  then obtain k where "sink_turn (je_dumps E) now (wc_sink (js_ctx s)) = Some k"
    "s' = s\<lparr>js_ctx := (js_ctx s)\<lparr>wc_sink := k\<rparr>\<rparr>"
    using assms(1) by (auto simp: sink_turn_of_def split: option.splits)
  then show ?thesis using writer_inv [OF _ assms(2)] by blast
next
  case (L_sink_timeout now)
  then obtain k where "sink_timeout now (wc_sink (js_ctx s)) = Some k"
    "s' = s\<lparr>js_ctx := (js_ctx s)\<lparr>wc_sink := k\<rparr>\<rparr>"
    using assms(1) by (auto simp: sink_turn_of_def split: option.splits)
  then show ?thesis using writer_inv [OF _ assms(2)] by blast
next
  case L_cancel
  then show ?thesis using assms cancel_inv by auto
qed

lemma reachable_inv: "reachable E s0 s \<Longrightarrow> job_inv_but away E rows n s0 \<Longrightarrow> job_inv_but away E rows n s"
  by (induction rule: reachable.induct) (auto intro: sys_step_inv)

text \<open>The form the properties use.\<close>

lemma job_reachable_inv:
  assumes "reachable E (start_run record rpm cd rb rc prior nb ns rows err) s"
    and "fresh_record record" "rows_ok rows" "0 < rpm"
  shows "job_inv E rows (job_concurrency (jr_config record) rpm) s"
  using reachable_inv [OF assms(1) start_run_inv [OF assms(2-4)]] .

end
