(* ===== verification/JobDemo.thy ===== *)
theory JobDemo
  imports JobInv
begin

text \<open>
  A small job, run to its end, for the examples: three input rows (one already rejected by
  ingestion), one worker, a provider that throttles the first call and answers the others.
\<close>

definition demo_item :: "string \<Rightarrow> prompt_item" where
  "demo_item i = \<lparr>pi_id = i, pi_prompt = ''p'', pi_raw = []\<rparr>"

definition demo_rows :: "parsed list" where
  "demo_rows = [P_item (demo_item ''a''),
     P_error \<lparr>re_item_id = ''b'', re_failure_class = FC_INVALID_INPUT, re_message = ''bad'',
       re_attempt = 1, re_http_status = None\<rparr>,
     P_item (demo_item ''c'')]"

definition demo_config :: job_config where
  "demo_config = \<lparr>jc_input_path = ''in'', jc_model = ''m'', jc_max_tokens = 16,
     jc_concurrency = Some 1, jc_webhook_url = None, jc_max_job_spend_usd = 1, jc_max_items = None\<rparr>"

definition demo_record :: job_record where
  "demo_record = new_job_record ''j'' demo_config JS_QUEUED ''out'' 0 0"

definition demo_env :: job_env where
  "demo_env = \<lparr>je_fmt = (\<lambda>spec x. []), je_exn_repr = (\<lambda>e. []), je_parse_float = (\<lambda>s. None),
     je_dumps = (\<lambda>j. ''{}''), je_prices = \<lparr>cost_per_1m_input = 1, cost_per_1m_output = 1\<rparr>\<rparr>"

definition demo_start :: job_sys where
  "demo_start = start_run demo_record 60 30 (1 / 2) 30 [] 0 0 demo_rows None"

definition demo_at :: "pyfloat \<Rightarrow> readings" where
  "demo_at t = \<lparr>ck_ctx = t, ck_breaker = t, ck_controller = t, ck_bucket = t, ck_wall = t, rnd = 1 / 2\<rparr>"

definition demo_answer :: "int \<Rightarrow> provider_outcome" where
  "demo_answer code = Out_response \<lparr>status_code = code, resp_text = ''r'', resp_input_tokens = 3,
     resp_output_tokens = 4, malformed = False, resp_headers = []\<rparr>"

abbreviation demo_resume :: "pyfloat \<Rightarrow> label" where
  "demo_resume t \<equiv> L_worker 0 (E_resume (demo_at t))"

abbreviation demo_reply :: "pyfloat \<Rightarrow> int \<Rightarrow> label" where
  "demo_reply t code \<equiv> L_worker 0 (E_outcome (demo_at t) (demo_answer code))"

definition demo_labels :: "label list" where
  "demo_labels =
     [L_run 0, L_run 0, L_run 0, L_run 0, L_run 0, L_run 0, L_run 0, L_run 0, L_run 0,
      demo_resume 1, demo_reply 2 429, demo_resume 3, demo_reply 4 200,
      demo_resume 5, demo_resume 6, demo_reply 8 200, demo_resume 9,
      L_run 10, L_sink 10, L_sink 10, L_sink 10, L_sink 10, L_run 11, L_run 12]"

text \<open>The state after the first \<open>k\<close> turns.\<close>

definition demo_state :: "nat \<Rightarrow> job_sys" where
  "demo_state k = the (sys_run demo_env (take k demo_labels) demo_start)"

end
