(* ===== verification/JobProps.thy ===== *)
theory JobProps
  imports JobDemo
begin

text \<open>
  What a job promises, as theorems about every reachable state of \<open>JobRunner.run\<close>: conservation of
  rows, bounded memory, bounded provider calls, exactly one result row per input row, a truthful
  terminal status, and a prompt stop on abort or cancellation.
\<close>

section \<open>Reachable states of a job\<close>

text \<open>\<open>s\<close> is reached by a job on a fresh record with the input \<open>rows\<close>, whatever the cooldown, the
  backoff bounds, the old contents of the result file, the clocks and the end of the input are.\<close>

definition job_reaches :: "job_env \<Rightarrow> job_record \<Rightarrow> int \<Rightarrow> parsed list \<Rightarrow> job_sys \<Rightarrow> bool" where
  "job_reaches E record rpm rows s \<longleftrightarrow>
     fresh_record record \<and> rows_ok rows \<and> 0 < rpm \<and>
     (\<exists>cd rb rc prior nb ns err. reachable E (start_run record rpm cd rb rc prior nb ns rows err) s)"

abbreviation workers_of :: "job_record \<Rightarrow> int \<Rightarrow> nat" where
  "workers_of record rpm \<equiv> job_concurrency (jr_config record) rpm"

lemma job_reaches_inv:
  "job_reaches E record rpm rows s \<Longrightarrow> job_inv E rows (workers_of record rpm) s"
  by (auto simp: job_reaches_def intro: job_reachable_inv)

lemma job_reaches_step:
  "job_reaches E record rpm rows s \<Longrightarrow> sys_step E l s = Some s' \<Longrightarrow> job_reaches E record rpm rows s'"
  unfolding job_reaches_def by (blast intro: reachable.step)

text \<open>Induction over the states of a job: its invariant is there at every step.\<close>

lemma job_reaches_induct [consumes 1, case_names start step]:
  assumes "job_reaches E record rpm rows s"
    and start: "\<And>cd rb rc prior nb ns err. fresh_record record \<Longrightarrow>
      P (start_run record rpm cd rb rc prior nb ns rows err)"
    and step: "\<And>s l s'. job_inv E rows (workers_of record rpm) s \<Longrightarrow> P s \<Longrightarrow>
      sys_step E l s = Some s' \<Longrightarrow> P s'"
  shows "P s"
proof -
  obtain cd rb rc prior nb ns err where
    reach: "reachable E (start_run record rpm cd rb rc prior nb ns rows err) s" (is "reachable E ?s0 s")
    and fresh: "fresh_record record" "rows_ok rows" "0 < rpm"
    using assms(1) by (auto simp: job_reaches_def)
  have "job_inv E rows (workers_of record rpm) s \<and> P s"
    using reach
  proof induction
    case start
    then show ?case using start_run_inv [OF fresh] assms(2) [OF fresh(1)] by blast
  next
    case (step s l s')
    then show ?case using sys_step_inv [OF step.hyps(2)] assms(3) by blast
  qed
  then show ?thesis by blast
qed

lemma sys_run_prefix: "sys_run E (xs @ ys) s \<noteq> None \<Longrightarrow> sys_run E xs s \<noteq> None"
  by (induction xs arbitrary: s) (auto split: option.splits)

lemma demo_runs: "sys_run demo_env demo_labels demo_start \<noteq> None"
  by code_simp

lemma demo_reaches: "job_reaches demo_env demo_record 60 demo_rows (demo_state k)"
proof -
  have "sys_run demo_env (take k demo_labels) demo_start \<noteq> None"
    using demo_runs sys_run_prefix [of demo_env "take k demo_labels" "drop k demo_labels"] by simp
  then have "sys_run demo_env (take k demo_labels) demo_start = Some (demo_state k)"
    by (auto simp: demo_state_def)
  then have "reachable demo_env demo_start (demo_state k)"
    using reachable.start by (rule sys_run_reachable)
  moreover have "fresh_record demo_record"
    by (simp add: demo_record_def)
  moreover have "rows_ok demo_rows"
    by (simp add: rows_ok_def demo_rows_def row_ok_def)
  ultimately show ?thesis
    unfolding job_reaches_def demo_start_def by fastforce
qed

lemma demo_concurrency: "workers_of demo_record 60 = 1"
  by code_simp

section \<open>Counting the rows\<close>

lemma size_sum_mset: "size (\<Sum>x \<leftarrow> xs. f x) = (\<Sum>x \<leftarrow> xs. size (f x :: 'a multiset))"
  by (induction xs) simp_all

lemma length_carried: "length (carried pc) \<le> 1"
  by (cases pc rule: carried.cases) simp_all

lemma length_qitem_ids: "length (qitem_ids x) \<le> 1"
  by (cases x) simp_all

lemma length_putting: "length (putting r) \<le> 1"
  by (cases r) simp_all

lemma sum_list_le_len:
  fixes f :: "'a \<Rightarrow> nat"
  shows "(\<And>x. f x \<le> 1) \<Longrightarrow> sum_list (map f xs) \<le> length xs"
  by (induction xs) (auto intro: add_le_mono [of _ 1, simplified])

lemma books_size:
  assumes "job_inv_but away E rows n s"
  shows "(\<Sum>x \<leftarrow> q_items (wc_queue (js_ctx s)). length (qitem_ids x)) + length (putting (js_run s) @ away)
      + (\<Sum>pc \<leftarrow> js_workers s. length (carried pc)) + length (wc_emitted (js_ctx s))
    = nat (ingested (wc_counts (js_ctx s)))"
proof -
  have "inv_books_but away rows s" and len: "nat (ingested (wc_counts (js_ctx s))) \<le> length rows"
    using assms by (auto simp: job_inv_but_def inv_input_def Let_def)
  then have "size ((\<Sum>x \<leftarrow> q_items (wc_queue (js_ctx s)). mset (qitem_ids x))
      + mset (map parsed_id (putting (js_run s) @ away)) + (\<Sum>pc \<leftarrow> js_workers s. mset (map pi_id (carried pc)))
      + mset (map sink_item_id (wc_emitted (js_ctx s)))) =
    length (take (nat (ingested (wc_counts (js_ctx s)))) rows)"
    by (simp only: inv_books_but_def size_mset length_map)
  then show ?thesis
    using len by (simp add: size_sum_mset)
qed

lemma pending_parts:
  assumes "job_inv_but away E rows n s"
  shows "pending (wc_counts (js_ctx s)) =
    int ((\<Sum>x \<leftarrow> q_items (wc_queue (js_ctx s)). length (qitem_ids x)) + length (putting (js_run s) @ away)
      + (\<Sum>pc \<leftarrow> js_workers s. length (carried pc)))"
proof -
  have "pending (wc_counts (js_ctx s)) =
      ingested (wc_counts (js_ctx s)) - int (length (wc_emitted (js_ctx s)))"
    "0 \<le> ingested (wc_counts (js_ctx s))"
    using assms by (simp_all add: job_inv_but_def inv_counts_def inv_input_def Let_def)
  then show ?thesis
    using books_size [OF assms] by simp
qed

lemma success_or_error:
  "length (filter is_success_item xs) + length (filter (\<lambda>x. \<not> is_success_item x) xs) = length xs"
  by (rule sum_length_filter_compl)

section \<open>Conservation\<close>

text \<open>C2. Conservation: in every state a job can reach, succeeded + failed + pending = ingested, the
  two counters are the numbers of success and error rows handed to the sink, and the number of
  pending rows is never negative.\<close>

theorem job_conservation:
  assumes "job_reaches E record rpm rows s"
  shows "let c = js_ctx s; k = wc_counts c in
    succeeded k + failed k + pending k = ingested k \<and>
    succeeded k = int (length (filter is_success_item (wc_emitted c))) \<and>
    failed k = int (length (filter (\<lambda>x. \<not> is_success_item x) (wc_emitted c))) \<and>
    0 \<le> pending k \<and> ingested k \<le> int (length rows)"
proof -
  have inv: "job_inv E rows (workers_of record rpm) s"
    by (rule job_reaches_inv [OF assms])
  then show ?thesis
    using pending_parts [OF inv] success_or_error [of "wc_emitted (js_ctx s)"]
    by (auto simp: job_inv_def inv_counts_def inv_input_def Let_def)
qed

theorem job_conservation_witness:
  "succeeded (wc_counts (js_ctx (demo_state 13))) + failed (wc_counts (js_ctx (demo_state 13)))
     + pending (wc_counts (js_ctx (demo_state 13))) = ingested (wc_counts (js_ctx (demo_state 13)))"
  using job_conservation [OF demo_reaches [of 13]] by (simp add: Let_def)

text \<open>C25. The reports agree with the rows: in every reachable state the error histogram has, for each
  failure class, the number of error rows of that class emitted so far, its values add up to
  \<open>failed\<close>, and the token totals are the sums over the success rows.\<close>

theorem reports_match_rows:
  assumes "job_reaches E record rpm rows s"
  shows "let c = js_ctx s in
    (\<forall>j. dict_get_or (wc_errors_by_class c) (fc_value j) 0 =
       int (length (filter (row_has_class j) (wc_emitted c)))) \<and>
    sum_list (map snd (wc_errors_by_class c)) = failed (wc_counts c) \<and>
    ut_input_tokens (wc_usage c) = sum_list (map row_input_tokens (wc_emitted c)) \<and>
    ut_output_tokens (wc_usage c) = sum_list (map row_output_tokens (wc_emitted c))"
  using job_reaches_inv [OF assms] by (simp add: job_inv_def inv_counts_def Let_def)

theorem reports_match_rows_witness:
  "sum_list (map snd (wc_errors_by_class (js_ctx (demo_state 24)))) =
     failed (wc_counts (js_ctx (demo_state 24)))"
  using reports_match_rows [OF demo_reaches [of 24]] by (simp add: Let_def)

section \<open>Bounded memory\<close>

text \<open>C21. Memory is O(concurrency), not O(input): in every reachable state the work queue holds at
  most 4 entries per worker, and at most 5 rows per worker and one more are in the process between
  the input and the sink.\<close>

theorem memory_bounded:
  assumes "job_reaches E record rpm rows s" "0 < workers_of record rpm"
  shows "length (q_items (wc_queue (js_ctx s))) \<le> 4 * workers_of record rpm \<and>
    pending (wc_counts (js_ctx s)) \<le> int (5 * workers_of record rpm + 1)"
proof -
  let ?n = "workers_of record rpm"
  have inv: "job_inv E rows ?n s"
    by (rule job_reaches_inv [OF assms(1)])
  then have queue: "length (q_items (wc_queue (js_ctx s))) \<le> 4 * ?n" "length (js_workers s) = ?n"
    using assms(2)
    by (auto simp: job_inv_def inv_queue_def aq.in_bounds_def queue_multiplier_def Let_def)
  have "(\<Sum>x \<leftarrow> q_items (wc_queue (js_ctx s)). length (qitem_ids x)) \<le> 4 * ?n"
    using queue(1) sum_list_le_len [OF length_qitem_ids] by (rule order_trans [rotated])
  moreover have "(\<Sum>pc \<leftarrow> js_workers s. length (carried pc)) \<le> ?n"
    using queue(2) sum_list_le_len [of "\<lambda>pc. length (carried pc)" "js_workers s"] length_carried by simp
  ultimately show ?thesis
    using queue(1) pending_parts [OF inv] length_putting [of "js_run s"] by simp
qed

theorem memory_bounded_witness:
  "length (q_items (wc_queue (js_ctx (demo_state 8)))) \<le> 4 \<and>
    pending (wc_counts (js_ctx (demo_state 8))) \<le> 6"
  using memory_bounded [OF demo_reaches [of 8]] by (simp add: demo_concurrency)

text \<open>\<open>in_flight\<close> is the number of workers that wait for the provider; it is never negative and
  never above the number of workers.\<close>

lemma in_flight_bounded:
  assumes "job_reaches E record rpm rows s"
  shows "in_flight (wc_counts (js_ctx s)) = sum_list (map flying (js_workers s)) \<and>
    0 \<le> in_flight (wc_counts (js_ctx s)) \<and>
    in_flight (wc_counts (js_ctx s)) \<le> int (workers_of record rpm)"
proof -
  have inv: "job_inv E rows (workers_of record rpm) s"
    by (rule job_reaches_inv [OF assms])
  have fly: "0 \<le> flying pc" "flying pc \<le> 1" for pc
    by (cases pc; simp)+
  have "in_flight (wc_counts (js_ctx s)) = sum_list (map flying (js_workers s))"
    using inv by (simp add: job_inv_def inv_counts_def Let_def)
  then show ?thesis
    using sum_list_nonneg_int [where f = flying and xs = "js_workers s"]
      sum_list_le_length [where f = flying and xs = "js_workers s" and k = 1] fly length_workers_inv [OF inv] by simp
qed

lemma in_flight_bounded_witness:
  "in_flight (wc_counts (js_ctx (demo_state 10))) = 1 \<and> in_flight (wc_counts (js_ctx (demo_state 10))) \<le> 1"
proof -
  have "sum_list (map flying (js_workers (demo_state 10))) = 1"
    by code_simp
  then show ?thesis
    using in_flight_bounded [OF demo_reaches [of 10]] by (simp add: demo_concurrency)
qed

section \<open>Bounded provider calls\<close>

lemma py_int_fifth: "0 \<le> n \<Longrightarrow> py_int (of_int n * (1 / 5)) = n div 5"
  using floor_divide_of_int_eq [of n 5, where ?'a = pyfloat] by (simp add: py_int_def)

lemma budget_limit:
  assumes "job_inv E rows n s"
  shows "rb_used (wc_budget (js_ctx s)) \<le> max 1 (ingested (wc_counts (js_ctx s)) div 5)"
proof -
  let ?b = "wc_budget (js_ctx s)" and ?i = "ingested (wc_counts (js_ctx s))"
  have "rb_used ?b \<le> rb_limit ?b" "rb_fraction ?b = 1 / 5" "rb_total_items ?b = max 1 ?i"
    using assms by (simp_all add: job_inv_def sound_def wctx_ok_def inv_budget_def Let_def)
  then show ?thesis
    using py_int_fifth [of "max 1 ?i"] by (simp add: rb_limit_def max_def split: if_splits)
qed

text \<open>C18. The provider is called at most once per ingested row plus once per unit of the retry budget:
  in every reachable state the number of calls is at most \<open>ingested + max 1 (ingested div 5)\<close>, and
  every call is one of the attempts 1 to 8 of its row.\<close>

theorem provider_calls_bounded:
  assumes "job_reaches E record rpm rows s"
  shows "let c = js_ctx s; n = ingested (wc_counts c) in
    int (length (wc_calls c)) \<le> n + max 1 (n div 5) \<and>
    (\<forall>p \<in> set (wc_calls c). 1 \<le> snd p \<and> snd p \<le> 8)"
proof -
  have inv: "job_inv E rows (workers_of record rpm) s"
    by (rule job_reaches_inv [OF assms])
  have nonneg: "0 \<le> owed pc" "0 \<le> qitem_prompts x" for pc x
    by (cases pc; simp) (cases x rule: qitem_prompts.cases; simp)
  have "calls_made (js_ctx s) \<le> ingested (wc_counts (js_ctx s)) + rb_used (wc_budget (js_ctx s))"
    using inv nonneg sum_list_nonneg_int [where f = owed and xs = "js_workers s"]
      sum_list_nonneg_int [where f = qitem_prompts and xs = "q_items (wc_queue (js_ctx s))"]
      sum_list_nonneg_int [where f = "\<lambda>p. qitem_prompts (Q_parsed p)" and xs = "putting (js_run s)"]
    by (simp add: job_inv_def inv_budget_def Let_def)
  then show ?thesis
    using budget_limit [OF inv] inv
    by (auto simp: calls_made_def job_inv_def inv_rows_def Let_def)
qed

theorem provider_calls_bounded_witness:
  "int (length (wc_calls (js_ctx (demo_state 24)))) \<le> 4"
proof -
  have "ingested (wc_counts (js_ctx (demo_state 24))) = 3"
    by code_simp
  then show ?thesis
    using provider_calls_bounded [OF demo_reaches [of 24]] by (simp add: Let_def)
qed

section \<open>Workers do not crash\<close>

text \<open>C24. No exception kills a worker, whatever the provider answers or raises: in every reachable
  state every worker is running, finished or cancelled, its attempt counter is in bounds, and every
  row emitted carries a terminal class (never success, throttled or transient on an error row) and
  an attempt between 1 and 8.\<close>

theorem workers_never_crash:
  assumes "job_reaches E record rpm rows s"
  shows "(\<forall>e. W_crashed e \<notin> set (js_workers s)) \<and> (\<forall>pc \<in> set (js_workers s). pc_ok pc) \<and>
    (\<forall>x \<in> set (wc_emitted (js_ctx s)). row_ok x)"
  using job_reaches_inv [OF assms] by (auto simp: job_inv_def inv_rows_def)

theorem workers_never_crash_witness:
  "list_all row_ok (wc_emitted (js_ctx (demo_state 24)))"
  using workers_never_crash [OF demo_reaches [of 24]] by (simp add: list_all_iff)

section \<open>The end of a job\<close>

text \<open>No worker task was cancelled from outside (only the shutdown of the process does that, through the
  lifespan of \<open>main.py\<close>), and a job past its last row.\<close>

definition undisturbed :: "job_sys \<Rightarrow> bool" where
  "undisturbed s \<longleftrightarrow> list_all (\<lambda>pc. lost pc = [] \<and> pc \<noteq> W_cancelled None) (js_workers s)"

definition job_over :: "job_sys \<Rightarrow> bool" where
  "job_over s \<longleftrightarrow> sink_closed (js_run s) \<and> undisturbed s"

lemma worker_finished_cases:
  "worker_finished pc \<Longrightarrow> pc_ok pc \<Longrightarrow> pc = W_done \<or> pc = W_cancelled None \<or> lost pc \<noteq> []"
proof (cases pc)
  case (W_cancelled x)
  then show ?thesis by (cases x) simp_all
qed simp_all

lemma over_all_done:
  assumes "job_inv_but away E rows n s" "job_over s"
  shows "\<forall>pc \<in> set (js_workers s). pc = W_done"
proof
  fix pc
  assume pc: "pc \<in> set (js_workers s)"
  then have "worker_finished pc" "pc_ok pc" "lost pc = []" "pc \<noteq> W_cancelled None"
    using assms by (auto simp: job_inv_but_def inv_sink_phase inv_rows_def job_over_def undisturbed_def list_all_iff)
  then show "pc = W_done"
    using worker_finished_cases by blast
qed

lemma over_empty:
  assumes inv: "job_inv_but away E rows n s" and over: "job_over s" and "0 < n"
  shows "q_items (wc_queue (js_ctx s)) = []" "(\<Sum>pc \<leftarrow> js_workers s. length (carried pc)) = 0"
    "in_flight (wc_counts (js_ctx s)) = 0" "putting (js_run s) = []"
    "(\<Sum>pc \<leftarrow> js_workers s. mset (map pi_id (carried pc))) = {#}"
proof -
  have done': "js_workers s = replicate n W_done"
    using over_all_done [OF inv over] length_workers_inv [OF inv] by (metis replicate_eqI)
  have closed: "sink_closed (js_run s)"
    using over by (simp add: job_over_def)
  then have stop: "to_stop n (js_run s) = 0" and "putting (js_run s) = []"
    by (cases "js_run s"; simp)+
  then show "putting (js_run s) = []" by simp
  have "dones s = n"
    by (simp add: dones_def done')
  then show "q_items (wc_queue (js_ctx s)) = []"
    using inv stop assms(3) by (auto simp: job_inv_but_def inv_queue_def Let_def)
  show "(\<Sum>pc \<leftarrow> js_workers s. length (carried pc)) = 0"
    "(\<Sum>pc \<leftarrow> js_workers s. mset (map pi_id (carried pc))) = {#}"
    by (simp_all add: done' sum_list_replicate)
  have "in_flight (wc_counts (js_ctx s)) = sum_list (map flying (js_workers s))"
    using inv by (simp add: job_inv_but_def inv_counts_def Let_def)
  then show "in_flight (wc_counts (js_ctx s)) = 0"
    by (simp add: done' sum_list_replicate)
qed

lemma over_pending:
  assumes inv: "job_inv_but away E rows n s" and over: "job_over s" and n: "0 < n"
  shows "pending (wc_counts (js_ctx s)) = int (length away)"
    "int (length (wc_emitted (js_ctx s))) + int (length away) = ingested (wc_counts (js_ctx s))"
proof -
  show "pending (wc_counts (js_ctx s)) = int (length away)"
    using pending_parts [OF inv] over_empty [OF assms] by simp
  then show "int (length (wc_emitted (js_ctx s))) + int (length away) = ingested (wc_counts (js_ctx s))"
    using inv by (simp add: job_inv_but_def inv_counts_def Let_def)
qed

lemma over_counts:
  assumes inv: "job_inv E rows n s" and over: "job_over s" and n: "0 < n"
  shows "pending (wc_counts (js_ctx s)) = 0" "conserved (wc_counts (js_ctx s))"
    "int (length (wc_emitted (js_ctx s))) = ingested (wc_counts (js_ctx s))"
proof -
  show "pending (wc_counts (js_ctx s)) = 0"
    and len: "int (length (wc_emitted (js_ctx s))) = ingested (wc_counts (js_ctx s))"
    using over_pending [OF assms] by simp_all
  then show "conserved (wc_counts (js_ctx s))"
    using inv success_or_error [of "wc_emitted (js_ctx s)"]
    by (simp add: job_inv_def inv_counts_def conserved_def Let_def)
qed

lemma over_lines:
  assumes inv: "job_inv_but away E rows n s" and over: "job_over s"
  shows "sk_lines (wc_sink (js_ctx s)) = map (\<lambda>x. je_dumps E (item_line x)) (wc_emitted (js_ctx s))"
    "sk_durable (wc_sink (js_ctx s)) = length (wc_emitted (js_ctx s))"
proof -
  have sink: "\<not> sk_task_alive (wc_sink (js_ctx s))" "q_items (sk_queue (wc_sink (js_ctx s))) = []"
    "sink_inv (wc_sink (js_ctx s))"
    using inv over by (auto simp: job_inv_but_def inv_sink_phase sink_phase_ok_def job_over_def)
  obtain w where "sk_lines (wc_sink (js_ctx s)) = map (\<lambda>x. je_dumps E (item_line x)) w"
    "wc_emitted (js_ctx s) = w @ sink_waiting (wc_sink (js_ctx s))"
    using inv by (auto simp: job_inv_but_def sound_def sink_linked_def)
  moreover have "sink_waiting (wc_sink (js_ctx s)) = []"
    using sink(2) by (simp add: sink_waiting_def List.map_filter_def)
  ultimately show lines: "sk_lines (wc_sink (js_ctx s)) =
      map (\<lambda>x. je_dumps E (item_line x)) (wc_emitted (js_ctx s))"
    by simp
  then show "sk_durable (wc_sink (js_ctx s)) = length (wc_emitted (js_ctx s))"
    using sink(1,3) by (simp add: sink_inv_def)
qed

text \<open>C1. Exactly one result row per ingested row: once the sink is closed, the item ids of the rows
  emitted are, as a multiset, the ids of the ingested rows, the lines written to the result file are
  exactly these rows in the order they were emitted, all of them synced, and nothing is pending or
  in flight.  This covers success, provider failure, abort, cancellation and a broken input.\<close>

theorem one_result_row_per_input_row:
  assumes "job_reaches E record rpm rows s" "job_over s" "0 < workers_of record rpm"
  shows "let c = js_ctx s; k = wc_counts c in
    mset (map sink_item_id (wc_emitted c)) = mset (map parsed_id (take (nat (ingested k)) rows)) \<and>
    sk_lines (wc_sink c) = map (\<lambda>x. je_dumps E (item_line x)) (wc_emitted c) \<and>
    sk_durable (wc_sink c) = length (wc_emitted c) \<and>
    pending k = 0 \<and> in_flight k = 0 \<and> succeeded k + failed k = ingested k"
proof -
  have inv: "job_inv E rows (workers_of record rpm) s"
    by (rule job_reaches_inv [OF assms(1)])
  note empty = over_empty [OF inv assms(2,3)] and counts = over_counts [OF inv assms(2,3)]
  have "mset (map sink_item_id (wc_emitted (js_ctx s))) =
      mset (map parsed_id (take (nat (ingested (wc_counts (js_ctx s)))) rows))"
    using inv empty by (simp add: job_inv_def inv_books_def)
  then show ?thesis
    using over_lines [OF inv assms(2)] counts empty(3) by (simp add: Let_def conserved_def)
qed

theorem one_result_row_per_input_row_witness:
  "mset (map sink_item_id (wc_emitted (js_ctx (demo_state 24)))) = {#''a'', ''b'', ''c''#}"
proof -
  have "ingested (wc_counts (js_ctx (demo_state 24))) = 3" "job_over (demo_state 24)"
    by code_simp+
  then show ?thesis
    using one_result_row_per_input_row [OF demo_reaches [of 24]]
    by (simp add: demo_concurrency Let_def demo_rows_def demo_item_def numeral_3_eq_3)
qed

end
