(* ===== verification/JobEnd.thy ===== *)
theory JobEnd
  imports JobProps
begin

text \<open>
  How a job ends: what is ingested when it does, the item cap, the terminal record, and the stop
  after an abort or a cancellation.
\<close>

section \<open>What a turn leaves alone\<close>

lemma worker_turn_frame:
  assumes "worker_turn E i ev s = Some s'" "job_inv_but away E rows n s"
  shows "js_run s' = js_run s" "js_rows s' = js_rows s" "js_record s' = js_record s"
    "wc_config (js_ctx s') = wc_config (js_ctx s)"
    "wc_cancel_event (js_ctx s') = wc_cancel_event (js_ctx s)"
    "ingested (wc_counts (js_ctx s')) = ingested (wc_counts (js_ctx s))"
    "wc_abort_event (js_ctx s) \<Longrightarrow> wc_abort_event (js_ctx s')"
  by (rule worker_turn_books [OF assms]; simp add: step_books_def tally_def)+

lemma sink_turn_of_frame:
  assumes "sink_turn_of k s = Some s'"
  shows "js_run s' = js_run s" "js_rows s' = js_rows s" "js_workers s' = js_workers s"
    "wc_config (js_ctx s') = wc_config (js_ctx s)" "wc_counts (js_ctx s') = wc_counts (js_ctx s)"
    "wc_cancel_event (js_ctx s') = wc_cancel_event (js_ctx s)"
    "wc_abort_event (js_ctx s') = wc_abort_event (js_ctx s)" "wc_calls (js_ctx s') = wc_calls (js_ctx s)"
  using assms by (auto simp: sink_turn_of_def split: option.splits)

lemmas run_defs = ingest_next_def ingest_put_def after_persist_def begin_shutdown_def
  put_shutdown_def gather_workers_def close_sink_def finish_job_def save_record_def

lemma run_step_frame:
  assumes "run_step prices now (js_run s) s = Some s'"
  shows "wc_config (js_ctx s') = wc_config (js_ctx s)" "wc_calls (js_ctx s') = wc_calls (js_ctx s)"
    "wc_cancel_event (js_ctx s') = wc_cancel_event (js_ctx s)"
    "wc_abort_event (js_ctx s') = wc_abort_event (js_ctx s)" "js_workers s' = js_workers s"
  using assms
  by (cases "(prices, now, js_run s, s)" rule: run_step.cases;
      auto simp: run_defs Let_def split: list.splits option.splits if_splits)+

section \<open>The input is read to its end\<close>

definition cap_ok :: "job_sys \<Rightarrow> bool" where
  "cap_ok s \<longleftrightarrow>
     (case jc_max_items (wc_config (js_ctx s)) of None \<Rightarrow> True
      | Some m \<Rightarrow> ingested (wc_counts (js_ctx s)) \<le> max 1 m \<and>
          (js_run s = R_ingest \<longrightarrow> ingested (wc_counts (js_ctx s)) < max 1 m))"

text \<open>How many of \<open>n\<close> rows a job with a cap reads: the cap is checked after a row, so the first one is always
  read.\<close>

definition rows_to_read :: "int option \<Rightarrow> nat \<Rightarrow> int" where
  "rows_to_read cap n = (case cap of None \<Rightarrow> int n | Some m \<Rightarrow> min (int n) (max 1 m))"

definition input_read :: "parsed list \<Rightarrow> job_sys \<Rightarrow> bool" where
  "input_read rows s \<longleftrightarrow>
     (\<not> ingesting (js_run s) \<longrightarrow>
        wc_cancel_event (js_ctx s) \<or> wc_abort_event (js_ctx s) \<or>
        ingested (wc_counts (js_ctx s)) = rows_to_read (jc_max_items (wc_config (js_ctx s))) (length rows)) \<and>
     (ingesting (js_run s) \<and> js_run s \<noteq> R_ingest \<longrightarrow> 1 \<le> ingested (wc_counts (js_ctx s)))"

lemma run_step_input:
  assumes "run_step prices now (js_run s) s = Some s'" "job_inv E rows n s"
    and "cap_ok s" "input_read rows s"
  shows "cap_ok s' \<and> input_read rows s'"
proof (cases "ingesting (js_run s)")
  case False
  then show ?thesis
    using assms(1,3,4)
    by (cases "js_run s"; cases "(prices, now, js_run s, s)" rule: run_step.cases)
      (auto simp: run_defs cap_ok_def input_read_def Let_def split: option.splits if_splits)
next
  case True
  have "0 \<le> ingested (wc_counts (js_ctx s)) \<and> ingested (wc_counts (js_ctx s)) \<le> int (length rows) \<and>
      js_rows s = drop (nat (ingested (wc_counts (js_ctx s)))) rows"
    using assms(2) True by (simp add: job_inv_def inv_input_def Let_def)
  then show ?thesis
    using True assms(1,3,4)
    by (cases "js_run s")
      (auto simp: run_defs cap_ok_def input_read_def rows_to_read_def Let_def
        split: option.splits if_splits list.splits)
qed

lemma sys_step_input:
  assumes step: "sys_step E l s = Some s'" and inv: "job_inv E rows n s"
    and ok: "cap_ok s" "input_read rows s"
  shows "cap_ok s' \<and> input_read rows s'"
proof (cases l)
  case (L_run now)
  then show ?thesis using step run_step_input [OF _ inv ok] by simp
next
  case (L_worker i ev)
  then have "worker_turn E i ev s = Some s'" using step by simp
  from worker_turn_frame [OF this inv] ok show ?thesis
    by (auto simp: cap_ok_def input_read_def split: option.splits)
next
  case (L_sink now)
  then show ?thesis
    using step ok sink_turn_of_frame [of "sink_turn (je_dumps E) now (wc_sink (js_ctx s))" s s']
    by (auto simp: cap_ok_def input_read_def split: option.splits)
next
  case (L_sink_timeout now)
  then show ?thesis
    using step ok sink_turn_of_frame [of "sink_timeout now (wc_sink (js_ctx s))" s s']
    by (auto simp: cap_ok_def input_read_def split: option.splits)
next
  case L_cancel
  then show ?thesis
    using step ok by (auto simp: cap_ok_def input_read_def cancel_job_event_def split: option.splits)
qed

lemma reachable_input:
  assumes "job_reaches E record rpm rows s"
  shows "cap_ok s" "input_read rows s" "wc_config (js_ctx s) = jr_config record"
proof -
  have "cap_ok s \<and> input_read rows s \<and> wc_config (js_ctx s) = jr_config record"
    using assms
  proof (induction rule: job_reaches_induct)
    case (start cd rb rc prior nb ns err)
    then show ?case
      by (auto simp: start_run_def cap_ok_def input_read_def Let_def save_record_def
          fresh_record_def init_counts_def split: option.split)
  next
    case (step s l s')
    have "wc_config (js_ctx s') = wc_config (js_ctx s)"
      using step.hyps(2) worker_turn_frame(4) [OF _ step.hyps(1)]
      by (cases l) (auto dest: run_step_frame sink_turn_of_frame simp: cancel_job_event_def)
    then show ?case
      using step.IH sys_step_input [OF step.hyps(2,1)] by auto
  qed
  then show "cap_ok s" "input_read rows s" "wc_config (js_ctx s) = jr_config record"
    by simp_all
qed

text \<open>C23. No row is skipped, and the cap stops a job where it says: when a job is past its input and was
  neither cancelled nor aborted, it has ingested every row, or with an item cap \<open>m\<close> exactly the first
  \<open>max 1 m\<close> of them when there are more; in no state, whatever happens, has it ingested more than
  \<open>max 1 m\<close>.  (A cap below 1 still lets one row in, since it is checked after a row.)\<close>

theorem input_read_completely:
  assumes "job_reaches E record rpm rows s"
  shows "(\<not> ingesting (js_run s) \<longrightarrow> wc_cancel_event (js_ctx s) \<or> wc_abort_event (js_ctx s) \<or>
      ingested (wc_counts (js_ctx s)) =
        (case jc_max_items (jr_config record) of
           None \<Rightarrow> int (length rows) | Some m \<Rightarrow> min (int (length rows)) (max 1 m))) \<and>
    (\<forall>m. jc_max_items (jr_config record) = Some m \<longrightarrow> ingested (wc_counts (js_ctx s)) \<le> max 1 m)"
  using reachable_input [OF assms] by (auto simp: cap_ok_def input_read_def rows_to_read_def)

theorem input_read_completely_witness:
  "ingested (wc_counts (js_ctx (demo_state 24))) = 3"
proof -
  have "\<not> wc_cancel_event (js_ctx (demo_state 24))" "\<not> wc_abort_event (js_ctx (demo_state 24))"
    "\<not> ingesting (js_run (demo_state 24))" "jc_max_items (jr_config demo_record) = None"
    "length demo_rows = 3"
    by code_simp+
  then show ?thesis
    using input_read_completely [OF demo_reaches [of 24]] by simp
qed

section \<open>The terminal record\<close>

lemma final_status_rows:
  assumes inv: "job_inv E rows n s" and counts: "int (length xs) = ingested (wc_counts (js_ctx s))"
    and xs: "xs = wc_emitted (js_ctx s)"
  shows "final_status c a (wc_counts (js_ctx s)) =
    (if c then JS_CANCELLED else if a then JS_FAILED
     else if list_all is_success_item xs then JS_SUCCEEDED
     else if list_ex is_success_item xs then JS_PARTIAL else JS_FAILED)"
proof -
  have k: "succeeded (wc_counts (js_ctx s)) = int (length (filter is_success_item xs))"
    "failed (wc_counts (js_ctx s)) = int (length (filter (\<lambda>x. \<not> is_success_item x) xs))"
    using inv by (simp_all add: job_inv_def inv_counts_def xs Let_def)
  have "failed (wc_counts (js_ctx s)) = 0 \<longleftrightarrow> list_all is_success_item xs"
    "succeeded (wc_counts (js_ctx s)) = 0 \<longleftrightarrow> \<not> list_ex is_success_item xs"
    by (simp_all add: k filter_empty_conv list_all_iff list_ex_iff)
  moreover have "ingested (wc_counts (js_ctx s)) = 0 \<Longrightarrow> xs = []"
    using counts by simp
  ultimately show ?thesis
    by (auto simp: final_status_def)
qed

text \<open>C17. The last turn of \<open>run\<close> never fails its conservation assertion when no worker task was cancelled
  from outside, and the record it saves tells the truth: cancelled or failed when the job was cancelled
  or aborted, else succeeded exactly when every row succeeded, partial exactly when some did and
  some did not, failed when none did; an aborted job carries its first abort reason.\<close>

theorem terminal_record_truthful:
  assumes "job_reaches E record rpm rows s" "js_run s = R_finish" "job_over s"
    and "0 < workers_of record rpm" "sys_step E (L_run now) s = Some s'"
  shows "let c = js_ctx s; xs = wc_emitted c; r = the_record s' in
    js_run s' = R_done \<and> js_saves s' = js_saves s @ [r] \<and> conserved (jr_counts r) \<and>
    jr_status r = (if wc_cancel_event c then JS_CANCELLED else if wc_abort_event c then JS_FAILED
      else if list_all is_success_item xs then JS_SUCCEEDED
      else if list_ex is_success_item xs then JS_PARTIAL else JS_FAILED) \<and>
    (wc_abort_event c \<longrightarrow> jr_abort_reason r = Some (hd (wc_abort_reason c))) \<and>
    jt_finished_at (jr_timing r) = Some now \<and>
    ut_estimated_cost_usd (jr_usage r) = usage_cost (je_prices E) (wc_usage c)"
proof -
  have inv: "job_inv E rows (workers_of record rpm) s"
    by (rule job_reaches_inv [OF assms(1)])
  note counts = over_counts [OF inv assms(3,4)]
  have s': "s' = finish_job (je_prices E) now s"
    using assms(2,5) by simp
  have "wc_abort_event (js_ctx s) \<Longrightarrow> wc_abort_reason (js_ctx s) \<noteq> []"
    using inv by (simp add: job_inv_def sound_def wctx_ok_def)
  then show ?thesis
    using counts(2) final_status_rows [OF inv counts(3) refl, of "wc_cancel_event (js_ctx s)"
        "wc_abort_event (js_ctx s)"]
    unfolding s' finish_job_def Let_def save_record_def the_record_def
    by (auto split: list.split)
qed

theorem terminal_record_truthful_witness:
  "jr_status (the_record (demo_state 24)) = JS_PARTIAL"
proof -
  have "js_run (demo_state 23) = R_finish" "job_over (demo_state 23)"
    "\<not> wc_cancel_event (js_ctx (demo_state 23))" "\<not> wc_abort_event (js_ctx (demo_state 23))"
    "\<not> list_all is_success_item (wc_emitted (js_ctx (demo_state 23)))"
    "list_ex is_success_item (wc_emitted (js_ctx (demo_state 23)))"
    by code_simp+
  moreover have "sys_step demo_env (L_run 12) (demo_state 23) = Some (demo_state 24)"
    by code_simp
  ultimately show ?thesis
    using terminal_record_truthful [OF demo_reaches [of 23], of 12 "demo_state 24"]
    by (simp add: demo_concurrency Let_def del: sys_step.simps)
qed

end
