(* ===== verification/JobSaves.thy ===== *)
theory JobSaves
  imports JobEnd Store
begin

text \<open>
  What a job writes to the store: every record it saves is about the same job, can be written as JSON,
  and the last one is the record of a job that has ended, which nothing changes any more.
\<close>

section \<open>The identity of a job\<close>

definition same_job :: "job_record \<Rightarrow> job_record \<Rightarrow> bool" where
  "same_job r r' \<longleftrightarrow> jr_job_id r' = jr_job_id r \<and> jr_config r' = jr_config r \<and>
     jr_result_path r' = jr_result_path r \<and> jr_submitted_at r' = jr_submitted_at r"

lemma same_job_refl [simp]: "same_job r r"
  by (simp add: same_job_def)

text \<open>The backpressure of a record is empty or a snapshot, and no class of errors is there twice, so that the
  record has a JSON form.\<close>

definition backpressure_ok :: "json pydict \<Rightarrow> bool" where
  "backpressure_ok bp \<longleftrightarrow> bp = [] \<or> (\<exists>c. bp = current_backpressure c)"

lemma backpressure_ok_intros [simp]: "backpressure_ok []" "backpressure_ok (current_backpressure c)"
  by (auto simp: backpressure_ok_def)

definition record_json_ok :: "job_record \<Rightarrow> bool" where
  "record_json_ok r \<longleftrightarrow> backpressure_ok (jr_backpressure r) \<and> dict_ok (jr_errors_by_class r)"

lemma current_backpressure_json [simp]: "json_ok (JObj (current_backpressure c))"
  by (simp add: current_backpressure_def snapshot_asdict_def dict_set_def dict_ok_def)

lemma record_json_dicts: "record_json_ok r \<Longrightarrow> record_dicts_ok r"
  by (auto simp: record_json_ok_def record_dicts_ok_def backpressure_ok_def simp del: json_ok.simps)
    (simp add: dict_ok_def)

text \<open>One turn saves nothing or the record as it then is.\<close>

definition saves_one :: "job_sys \<Rightarrow> job_sys \<Rightarrow> bool" where
  "saves_one s s' \<longleftrightarrow> js_saves s' = js_saves s \<or> js_saves s' = js_saves s @ [the_record s']"

lemma save_record_saves [simp]:
  "js_saves (save_record s) = js_saves s @ [the_record s]" "the_record (save_record s) = the_record s"
  "js_record (save_record s) = js_record s" "js_run (save_record s) = js_run s"
  by (simp_all add: save_record_def the_record_def)

lemma finish_job_saves:
  "saves_one s (finish_job prices now s)" "same_job (js_record s) (js_record (finish_job prices now s))"
  by (cases "wc_abort_reason (js_ctx s)"; cases "conserved (wc_counts (js_ctx s))";
      simp add: finish_job_def saves_one_def same_job_def Let_def)+

definition terminal_status :: "job_status \<Rightarrow> bool" where
  "terminal_status c \<longleftrightarrow> c \<noteq> JS_QUEUED \<and> c \<noteq> JS_RUNNING"

lemma final_status_terminal [simp]: "terminal_status (final_status c a k)"
  by (simp add: final_status_def terminal_status_def)

lemma finish_job_record:
  "terminal_status (jr_status (js_record (finish_job prices now s)))"
  "backpressure_ok (jr_backpressure (js_record (finish_job prices now s)))"
  "js_run (finish_job prices now s) = R_done \<Longrightarrow>
     js_saves (finish_job prices now s) = js_saves s @ [the_record (finish_job prices now s)]"
  by (cases "wc_abort_reason (js_ctx s)"; cases "conserved (wc_counts (js_ctx s))";
      simp add: finish_job_def Let_def)+

lemma run_step_saves:
  assumes "run_step prices now (js_run s) s = Some s'"
  shows "saves_one s s' \<and> same_job (js_record s) (js_record s') \<and>
    (backpressure_ok (jr_backpressure (js_record s)) \<longrightarrow> backpressure_ok (jr_backpressure (js_record s'))) \<and>
    (js_run s' = R_done \<longrightarrow> js_saves s' = js_saves s @ [the_record s'] \<and>
       terminal_status (jr_status (the_record s')))"
proof (cases "js_run s = R_finish")
  case True
  moreover have "jr_status (the_record x) = jr_status (js_record x)" for x
    by (simp add: the_record_def)
  ultimately show ?thesis
    using assms finish_job_saves finish_job_record by auto
next
  case False
  then show ?thesis
    using assms
    by (cases "(prices, now, js_run s, s)" rule: run_step.cases;
        auto simp: ingest_next_def ingest_put_def after_persist_def begin_shutdown_def put_shutdown_def
          gather_workers_def close_sink_def saves_one_def same_job_def Let_def
          split: list.splits option.splits if_splits)
qed

section \<open>After the end\<close>

lemma finished_worker_stuck: "worker_finished pc \<Longrightarrow> worker_step xr pf osc ev ctx pc = None"
  by (cases pc; cases ev) simp_all

lemma ended_turns:
  assumes "job_inv E rows n s" "js_run s = R_done \<or> js_run s = R_raised e" "sys_step E l s = Some s'"
  shows "l = L_cancel \<and> s' = cancel_job_event s"
proof -
  have closed: "sink_closed (js_run s)" using assms(2) by auto
  then have dead: "\<not> sk_task_alive (wc_sink (js_ctx s))" "list_all worker_finished (js_workers s)"
    using assms(1) by (simp_all add: job_inv_def inv_sink_def Let_def)
  have "worker_turn E i ev s = None" for i ev
    using dead(2) by (simp add: worker_turn_def list_all_length finished_worker_stuck)
  then show ?thesis
    using assms(2,3) dead(1) by (cases l) (auto simp: sink_turn_def sink_timeout_def sink_turn_of_def)
qed

lemma the_record_cancel [simp]: "the_record (cancel_job_event s) = the_record s"
  by (simp add: the_record_def cancel_job_event_def)

section \<open>The saves of a job\<close>

definition saves_inv :: "job_record \<Rightarrow> job_sys \<Rightarrow> bool" where
  "saves_inv record s \<longleftrightarrow>
     same_job record (js_record s) \<and> backpressure_ok (jr_backpressure (js_record s)) \<and> js_saves s \<noteq> [] \<and>
     list_all (\<lambda>r. same_job record r \<and> record_json_ok r) (js_saves s) \<and>
     (js_run s = R_done \<longrightarrow> last (js_saves s) = the_record s \<and>
        terminal_status (jr_status (the_record s)))"

lemma the_record_ok:
  assumes "job_inv E rows n s" "backpressure_ok (jr_backpressure (js_record s))"
  shows "record_json_ok (the_record s)"
  using assms by (simp add: record_json_ok_def the_record_def job_inv_def sound_def wctx_ok_def)

lemma same_job_the_record: "same_job r (js_record s) \<Longrightarrow> same_job r (the_record s)"
  by (simp add: same_job_def the_record_def)

lemma sys_step_saves:
  assumes "sys_step E l s = Some s'" "job_inv E rows n s"
  shows "saves_one s s' \<and> same_job (js_record s) (js_record s') \<and>
    (backpressure_ok (jr_backpressure (js_record s)) \<longrightarrow> backpressure_ok (jr_backpressure (js_record s')))"
proof (cases l)
  case (L_run now)
  then show ?thesis using assms(1) run_step_saves by auto
next
  case (L_worker i ev)
  then have "worker_turn E i ev s = Some s'" using assms(1) by simp
  then obtain c' pc' where "s' = worker_moved i c' pc' s"
    using worker_turn_books [OF _ assms(2)] by metis
  then show ?thesis by (simp add: saves_one_def)
qed (use assms(1) in \<open>auto simp: cancel_job_event_def sink_turn_of_def saves_one_def split: option.splits\<close>)

lemma sys_step_saves_inv:
  assumes step: "sys_step E l s = Some s'" and inv: "job_inv E rows n s" and saved: "saves_inv record s"
  shows "saves_inv record s'"
proof -
  note one = sys_step_saves [OF step inv]
  have same: "same_job record (js_record s')" "backpressure_ok (jr_backpressure (js_record s'))"
    using one saved by (auto simp: saves_inv_def same_job_def)
  have "job_inv E rows n s'" by (rule sys_step_inv [OF step inv])
  then have "record_json_ok (the_record s')" by (rule the_record_ok [OF _ same(2)])
  then have saves: "js_saves s' \<noteq> []" "list_all (\<lambda>r. same_job record r \<and> record_json_ok r) (js_saves s')"
    using one saved same_job_the_record [OF same(1)] by (auto simp: saves_inv_def saves_one_def)
  have "last (js_saves s') = the_record s' \<and> terminal_status (jr_status (the_record s'))" if ended: "js_run s' = R_done"
  proof (cases "js_run s = R_done")
    case True
    then have "s' = cancel_job_event s" using ended_turns [OF inv _ step] by blast
    then show ?thesis using saved True by (simp add: saves_inv_def) (simp add: cancel_job_event_def)
  next
    case False
    have "js_run s' = js_run s" if "\<forall>now. l \<noteq> L_run now"
      using that step worker_turn_frame(1) [OF _ inv] sink_turn_of_frame(1)
      by (cases l) (auto simp: cancel_job_event_def)
    then obtain now where "l = L_run now"
      using False ended by metis
    then show ?thesis
      using step ended run_step_saves [of "je_prices E" now s s'] by simp
  qed
  with same saves show ?thesis by (simp add: saves_inv_def)
qed

lemma job_reaches_saves:
  assumes "job_reaches E record rpm rows s" "jr_backpressure record = []"
  shows "saves_inv record s"
  using assms(1)
proof (induction rule: job_reaches_induct)
  case (start cd rb rc prior nb ns err)
  then show ?case
    using assms(2)
    by (simp add: saves_inv_def start_run_def Let_def same_job_def record_json_ok_def fresh_record_def)
      (simp add: the_record_def)
next
  case (step s l s')
  then show ?case using sys_step_saves_inv by blast
qed

end
