(* ===== verification/ApiJobs.thy ===== *)
theory ApiJobs
  imports Api JobEnd
begin

text \<open>
  The routes and the job they serve, together: what a client of the HTTP interface can rely on in every
  state a job reaches.
\<close>

section \<open>The record of a running job\<close>

text \<open>Until the last turn of \<open>run\<close> the record says \<open>running\<close> and no cost, in memory and in every save;
  its backpressure is empty or a snapshot.\<close>

definition before_end :: "run_pc \<Rightarrow> bool" where
  "before_end pc \<longleftrightarrow> pc \<noteq> R_done \<and> pc \<noteq> R_raised Assertion_error"

definition record_inv :: "job_sys \<Rightarrow> bool" where
  "record_inv s \<longleftrightarrow>
     (jr_backpressure (js_record s) = [] \<or> (\<exists>c. jr_backpressure (js_record s) = current_backpressure c)) \<and>
     (before_end (js_run s) \<longrightarrow> jr_status (js_record s) = JS_RUNNING \<and>
        list_all (\<lambda>r. jr_status r = JS_RUNNING) (js_saves s) \<and>
        ut_estimated_cost_usd (wc_usage (js_ctx s)) = 0)"

lemma finish_job_ends:
  "js_run (finish_job prices now s) =
     (if conserved (wc_counts (js_ctx s)) then R_done else R_raised Assertion_error)"
  "jr_backpressure (js_record (finish_job prices now s)) = current_backpressure (js_ctx s)"
  by (cases "wc_abort_reason (js_ctx s)"; cases "conserved (wc_counts (js_ctx s))";
      simp add: finish_job_def save_record_def Let_def)+

lemma run_step_record:
  assumes "run_step prices now (js_run s) s = Some s'" "record_inv s"
  shows "record_inv s'"
proof (cases "js_run s = R_finish")
  case True
  then have "js_run s' = R_done \<or> js_run s' = R_raised Assertion_error"
    "jr_backpressure (js_record s') = current_backpressure (js_ctx s)"
    using assms(1) finish_job_ends [of prices now s] by (auto split: if_splits)
  then show ?thesis by (auto simp: record_inv_def before_end_def)
next
  case False
  then show ?thesis
    using assms
    by (cases "(prices, now, js_run s, s)" rule: run_step.cases;
        auto simp: run_defs record_inv_def before_end_def the_record_def Let_def
          split: list.splits option.splits if_splits)
qed

lemma worker_turn_record:
  assumes "worker_turn E i ev s = Some s'" "job_inv_but away E rows n s" "record_inv s"
  shows "record_inv s'"
proof -
  obtain c' pc' taken new where "s' = worker_moved i c' pc' s"
    "step_books taken new (js_ctx s) (js_workers s ! i) c' pc'"
    by (rule worker_turn_books [OF assms(1,2)])
  then show ?thesis
    using assms(3) by (simp add: record_inv_def step_books_def)
qed

lemma sys_step_record:
  assumes "sys_step E l s = Some s'" "job_inv_but away E rows n s" "record_inv s"
  shows "record_inv s'"
proof (cases l)
  case (L_run now)
  then show ?thesis using assms run_step_record by simp
next
  case (L_worker i ev)
  then show ?thesis using assms(1,3) worker_turn_record [OF _ assms(2)] by simp
qed (use assms in \<open>auto simp: record_inv_def cancel_job_event_def sink_turn_of_def split: option.splits\<close>)

lemma reachable_record:
  assumes "job_reaches E record rpm rows s" "jr_backpressure record = []"
  shows "record_inv s"
  using assms(1)
proof (induction rule: job_reaches_induct)
  case (start cd rb rc prior nb ns err)
  then show ?case
    using assms(2)
    by (simp add: record_inv_def start_run_def Let_def save_record_def the_record_def
        fresh_record_def init_usage_def)
next
  case (step s l s')
  then show ?case using sys_step_record by blast
qed

section \<open>The status of a job\<close>

lemma reached_counts:
  assumes "job_reaches E record rpm rows s"
  shows "0 \<le> succeeded (wc_counts (js_ctx s))" "0 \<le> failed (wc_counts (js_ctx s))"
    "0 \<le> pending (wc_counts (js_ctx s))"
    "succeeded (wc_counts (js_ctx s)) + failed (wc_counts (js_ctx s)) + pending (wc_counts (js_ctx s)) =
      ingested (wc_counts (js_ctx s))"
proof -
  have inv: "job_inv E rows (workers_of record rpm) s"
    by (rule job_reaches_inv [OF assms])
  then show "0 \<le> succeeded (wc_counts (js_ctx s))" "0 \<le> failed (wc_counts (js_ctx s))"
    "succeeded (wc_counts (js_ctx s)) + failed (wc_counts (js_ctx s)) + pending (wc_counts (js_ctx s)) =
      ingested (wc_counts (js_ctx s))"
    using success_or_error [of "wc_emitted (js_ctx s)"]
    by (simp_all add: job_inv_def inv_counts_def Let_def)
  show "0 \<le> pending (wc_counts (js_ctx s))"
    using pending_parts [OF inv] by simp
qed

lemma the_record_fields [simp]:
  "jr_counts (the_record s) = wc_counts (js_ctx s)" "jr_usage (the_record s) = wc_usage (js_ctx s)"
  "jr_status (the_record s) = jr_status (js_record s)"
  "jr_backpressure (the_record s) = jr_backpressure (js_record s)"
  "jr_job_id (the_record s) = jr_job_id (js_record s)"
  "jr_result_path (the_record s) = jr_result_path (js_record s)"
  by (simp_all add: the_record_def)

lemma progress_bounds:
  assumes "0 \<le> succeeded k" "0 \<le> failed k" "succeeded k + failed k \<le> ingested k"
  shows "0 \<le> progress_of k \<and> progress_of k \<le> 100"
proof (cases "0 < ingested k")
  case True
  have "(of_int (succeeded k + failed k) :: pyfloat) \<le> of_int (ingested k)"
    using assms(3) by (simp only: of_int_le_iff)
  then have "(of_int (succeeded k + failed k) / of_int (ingested k) * 100 :: pyfloat) \<le> of_int 100"
    using True by (simp add: divide_le_eq)
  moreover have "0 \<le> (of_int (succeeded k + failed k) / of_int (ingested k) * 100 :: pyfloat)"
    using assms True by simp
  ultimately show ?thesis
    using py_round_le [of _ 100 1] py_round_nonneg [of _ 1] True by (simp add: progress_of_def)
qed (simp add: progress_of_def)

lemma py_round_int: "py_round (of_int k) n = of_int k"
proof -
  have "(of_int k * 10 ^ n :: pyfloat) = of_int (k * 10 ^ n)" by simp
  then have "round_half_even (of_int k * 10 ^ n :: pyfloat) = k * 10 ^ n"
    by (simp only: round_half_even_def floor_of_int) simp
  then show ?thesis by (simp add: py_round_def)
qed

lemma throughput_nonneg:
  assumes "0 \<le> succeeded (jr_counts r)" "0 \<le> failed (jr_counts r)"
  shows "0 \<le> throughput_of now r"
  using assms by (simp add: throughput_of_def Let_def)

text \<open>The runner of \<open>job_id\<close> holds the job in state \<open>s\<close>.\<close>

definition serves :: "app_state \<Rightarrow> string \<Rightarrow> job_sys \<Rightarrow> bool" where
  "serves st job_id s \<longleftrightarrow>
     (case dict_get (ap_runners st) job_id of None \<Rightarrow> False | Some ru \<Rightarrow> ru_job ru = Some s)"

lemma get_record_serves: "serves st job_id s \<Longrightarrow> get_record A now job_id st = Inr (the_record s)"
  by (auto simp: serves_def get_record_def runner_record_def split: option.splits)

text \<open>The status route never fails for a job of this process and reports numbers that make sense in
  every reachable state: progress is between 0 and 100 percent and 100 when ingested rows are all
  resolved, throughput and estimated time are never negative, and the counters add up.\<close>

lemma status_in_bounds:
  assumes "serves st job_id s" "job_reaches E record rpm rows s"
  shows "\<exists>resp. get_status A now job_id st = Inr resp \<and>
    0 \<le> sr_progress_pct resp \<and> sr_progress_pct resp \<le> 100 \<and>
    (pending (sr_counts resp) = 0 \<and> 0 < ingested (sr_counts resp) \<longrightarrow> sr_progress_pct resp = 100) \<and>
    0 \<le> sr_throughput_rps resp \<and> (\<forall>eta. sr_eta_s resp = Some eta \<longrightarrow> 0 \<le> eta) \<and>
    succeeded (sr_counts resp) + failed (sr_counts resp) + pending (sr_counts resp) =
      ingested (sr_counts resp)"
proof -
  note k = reached_counts [OF assms(2)]
  have through: "0 \<le> throughput_of now (the_record s)"
    using k by (simp add: throughput_nonneg)
  have eta: "0 \<le> eta" if "eta_of now (the_record s) = Some eta" for eta
  proof -
    let ?k = "wc_counts (js_ctx s)"
    have "(0 :: pyfloat) \<le> of_int (max 0 (ingested ?k - (succeeded ?k + failed ?k)) + pending ?k)"
      using k by (simp only: of_int_0_le_iff)
    then have "0 \<le> of_int (max 0 (ingested ?k - (succeeded ?k + failed ?k)) + pending ?k)
        / throughput_of now (the_record s)"
      using through by (rule divide_nonneg_nonneg)
    then show ?thesis
      using that by (auto simp: eta_of_def Let_def intro!: py_round_nonneg split: if_splits)
  qed
  have full: "progress_of (wc_counts (js_ctx s)) = 100"
    if "pending (wc_counts (js_ctx s)) = 0" "0 < ingested (wc_counts (js_ctx s))"
    using that k(4) py_round_int [of 100 1] by (simp add: progress_of_def)
  show ?thesis
    using progress_bounds [of "wc_counts (js_ctx s)"] k through eta full
    by (simp add: get_status_def get_record_serves [OF assms(1)] py_round_nonneg)
qed


text \<open>A process that serves the demo job.\<close>

definition demo_api :: api_env where
  "demo_api = \<lparr>ae_dumps = (\<lambda>v. ''{}''), ae_loads = (\<lambda>s. None), ae_parse_float = (\<lambda>s. None),
     ae_urlparse = (\<lambda>u. Inr (''https'', Some u)), ae_fmt = (\<lambda>spec x. []),
     ae_path_join = (\<lambda>d f. d @ ''/'' @ f), ae_set_order = (\<lambda>ids. ids)\<rparr>"

definition demo_app :: "nat \<Rightarrow> app_state" where
  "demo_app k =
     (let st = (new_app_state default_settings None)\<lparr>ap_has_client := True, ap_store := Some []\<rparr> in
      st\<lparr>ap_runners := [(''j'',
        (new_runner st demo_record (Prov_mock (new_mock_provider default_mock_config)))
          \<lparr>ru_job := Some (demo_state k)\<rparr>)]\<rparr>)"

lemma demo_serves: "serves (demo_app k) ''j'' (demo_state k)"
  by (simp add: serves_def demo_app_def Let_def dict_get_def)

lemma status_in_bounds_witness:
  "sr_progress_pct (projr (get_status demo_api 9 ''j'' (demo_app 24))) = 100"
proof -
  have "pending (wc_counts (js_ctx (demo_state 24))) = 0" "0 < ingested (wc_counts (js_ctx (demo_state 24)))"
    by code_simp+
  moreover have "sr_counts (projr (get_status demo_api 9 ''j'' (demo_app 24))) = wc_counts (js_ctx (demo_state 24))"
    by (simp add: get_status_def get_record_serves [OF demo_serves])
  ultimately show ?thesis
    using status_in_bounds [OF demo_serves demo_reaches, of demo_api 9 24] by auto
qed

text \<open>The estimated time counts the remaining rows twice: while a job runs, \<open>ingested - done\<close> and
  \<open>pending\<close> are the same rows in every reachable state, and the route divides their sum by the
  throughput, so the estimate is that of twice the remaining rows.\<close>

lemma eta_counts_rows_twice:
  assumes "job_reaches E record rpm rows s" "jr_status (the_record s) = JS_RUNNING"
    and "0 < throughput_of now (the_record s)"
  shows "eta_of now (the_record s) =
    Some (py_round (of_int (2 * pending (wc_counts (js_ctx s))) / throughput_of now (the_record s)) 1)"
proof -
  let ?k = "wc_counts (js_ctx s)"
  have "max 0 (ingested ?k - (succeeded ?k + failed ?k)) + pending ?k = 2 * pending ?k"
    using reached_counts [OF assms(1)] by simp
  then show ?thesis
    using assms(2,3) by (simp add: eta_of_def Let_def)
qed

lemma eta_counts_rows_twice_witness:
  "pending (wc_counts (js_ctx (demo_state 14))) = 1 \<and> throughput_of 10 (the_record (demo_state 14)) = 1 / 5 \<and>
   eta_of 10 (the_record (demo_state 14)) = Some 10"
proof -
  have facts: "pending (wc_counts (js_ctx (demo_state 14))) = 1" "jr_status (the_record (demo_state 14)) = JS_RUNNING"
    "throughput_of 10 (the_record (demo_state 14)) = 1 / 5"
    by code_simp+
  have "eta_of 10 (the_record (demo_state 14)) = Some (py_round 10 1)"
    using eta_counts_rows_twice [OF demo_reaches [of 14] facts(2), of 10] unfolding facts(1,3) by simp
  then show ?thesis
    using facts(1,3) py_round_int [of 10 1] by simp
qed

section \<open>Types of the response\<close>

fun is_int_value :: "json \<Rightarrow> bool" where
  "is_int_value (JInt i) = True" | "is_int_value _ = False"

fun is_float_value :: "json \<Rightarrow> bool" where
  "is_float_value (JFloat x) = True" | "is_float_value _ = False"

fun is_str_value :: "json \<Rightarrow> bool" where
  "is_str_value (JStr s) = True" | "is_str_value _ = False"

text \<open>The fields of \<open>JobBackpressureResponse\<close> with their types.\<close>

definition backpressure_fields :: "(string \<times> (json \<Rightarrow> bool)) list" where
  "backpressure_fields =
     [(''current_rate_limit_rps'', is_float_value), (''configured_max_rps'', is_float_value),
      (''throttle_events_429'', is_int_value), (''retries_issued'', is_int_value),
      (''retry_budget_remaining'', is_int_value), (''circuit_state'', is_str_value),
      (''observed_mean_latency_s'', is_float_value),
      (''littles_law_optimal_concurrency'', is_int_value)]"

lemma current_backpressure_items:
  "current_backpressure c =
     snapshot_asdict (ac_snapshot (wc_controller c) (cb_state_value (cb_state (wc_breaker c))))
       @ [(''retry_budget_remaining'', JInt (rb_remaining (wc_budget c)))]"
  by (simp add: current_backpressure_def snapshot_asdict_def dict_set_def)

text \<open>C33. Types: whatever the job does, the backpressure section of its status has exactly the declared
  fields in their order, each with a value of the declared type, so the response model never rejects it.\<close>

theorem status_backpressure_typed:
  assumes "job_reaches E record rpm rows s" "jr_backpressure record = []"
  shows "list_all2 (\<lambda>(k, v) (k', ty). k = k' \<and> ty v)
    (status_backpressure cfg (the_record s)) backpressure_fields"
proof -
  have "jr_backpressure (js_record s) = [] \<or> (\<exists>c. jr_backpressure (js_record s) = current_backpressure c)"
    using reachable_record [OF assms] by (simp add: record_inv_def)
  then show ?thesis
    by (auto simp: status_backpressure_def backpressure_fields_def current_backpressure_items
        snapshot_asdict_def dict_get_or_def dict_get_def Let_def)
qed

theorem status_backpressure_typed_witness:
  "map fst (status_backpressure default_settings (the_record (demo_state 24))) = map fst backpressure_fields"
proof -
  have "jr_backpressure demo_record = []" by (simp add: demo_record_def new_job_record_def)
  from status_backpressure_typed [OF demo_reaches [of 24] this, of default_settings]
  show ?thesis
    by (induction rule: list_all2_induct) (auto split: prod.splits)
qed

section \<open>A job that raises\<close>

text \<open>C34. A syntax error in a JSON array input leaves the job running forever: when the parser's exception
  leaves \<open>run\<close>, the record and every save still say \<open>running\<close>, and the cost is still 0, so that even a
  live job whose rows were paid for adds nothing to the spend ledger.\<close>

theorem broken_input_never_terminal:
  assumes "job_reaches E record rpm rows s" "jr_backpressure record = []" "js_run s = R_raised e"
    and "e \<noteq> Assertion_error" "load_total_spend (ae_loads A) (ae_parse_float A) (ap_ledger st) = Inr x"
  shows "jr_status (the_record s) = JS_RUNNING \<and> list_all (\<lambda>r. jr_status r = JS_RUNNING) (js_saves s) \<and>
    fst (run_and_settle A True (the_record s) st) = None \<and>
    ap_ledger (snd (run_and_settle A True (the_record s) st)) =
      Some (ae_dumps A (JObj [(''total_spend_usd'', JFloat x)]))"
proof -
  have "before_end (js_run s)" using assms(3,4) by (simp add: before_end_def)
  then show ?thesis
    using reachable_record [OF assms(1,2)] assms(5)
    by (simp add: record_inv_def run_and_settle_def record_spend_def Let_def)
qed

definition demo_broken :: job_sys where
  "demo_broken = the (sys_run demo_env (take 23 demo_labels)
     (start_run demo_record 60 30 (1 / 2) 30 [] 0 0 demo_rows (Some (JSON_decode_error ''array''))))"

lemma demo_broken_reaches: "job_reaches demo_env demo_record 60 demo_rows demo_broken"
proof -
  let ?s0 = "start_run demo_record 60 30 (1 / 2) 30 [] 0 0 demo_rows (Some (JSON_decode_error ''array''))"
  have "sys_run demo_env (take 23 demo_labels) ?s0 \<noteq> None" by code_simp
  then have "sys_run demo_env (take 23 demo_labels) ?s0 = Some demo_broken"
    by (auto simp: demo_broken_def)
  then have "reachable demo_env ?s0 demo_broken"
    using reachable.start by (rule sys_run_reachable)
  moreover have "fresh_record demo_record" "rows_ok demo_rows"
    by (simp_all add: demo_record_def rows_ok_def demo_rows_def row_ok_def)
  ultimately show ?thesis
    unfolding job_reaches_def by fastforce
qed

theorem broken_input_never_terminal_witness:
  "jr_status (the_record demo_broken) = JS_RUNNING \<and>
   0 < usage_cost (je_prices demo_env) (jr_usage (the_record demo_broken)) \<and>
   ap_ledger (snd (run_and_settle demo_api True (the_record demo_broken) (demo_app 0))) = Some ''{}''"
proof -
  have run: "js_run demo_broken = R_raised (JSON_decode_error ''array'')"
    "0 < usage_cost (je_prices demo_env) (jr_usage (the_record demo_broken))"
    by code_simp+
  have "jr_backpressure demo_record = []" by (simp add: demo_record_def new_job_record_def)
  from broken_input_never_terminal [OF demo_broken_reaches this run(1), of demo_api "demo_app 0" 0]
  show ?thesis
    using run(2) by (simp add: demo_api_def demo_app_def new_app_state_def load_total_spend_def Let_def)
qed

end
