(* ===== verification/ApiRoutes.thy ===== *)
theory ApiRoutes
  imports ApiJobs
begin

text \<open>
  What the routes promise about a request: when a job is accepted, what a refused request leaves behind,
  how many items a live job may cost, and what a restart keeps.
\<close>

section \<open>Submission\<close>

lemma check_spend_live:
  assumes "check_spend A s ledger = Inr cap" "is_live s"
  shows "cap = Some (min (st_live_sample_size s) (st_max_live_items s)) \<and>
    (\<exists>x. load_total_spend (ae_loads A) (ae_parse_float A) ledger = Inr x \<and> x < st_max_total_spend_usd s)"
  using assms
  by (auto simp: check_spend_def and_then_Inr lift_exn_def split: sum.splits if_splits)

lemma submit_checks_Inr:
  assumes "submit_checks A fs b st = Inr config"
  obtains f cap where "fs (sq_input_path b) = Some f" "fi_readable f"
    "check_spend A (ap_settings st) (ap_ledger st) = Inr cap"
    "config = submit_config (ap_settings st) cap b"
  using assms
  by (auto simp: submit_checks_def and_then_Inr check_input_def split: option.splits if_splits)

text \<open>The record a submission creates.\<close>

definition submitted_record ::
    "api_env \<Rightarrow> string \<Rightarrow> pyfloat \<Rightarrow> pyfloat \<Rightarrow> job_config \<Rightarrow> app_state \<Rightarrow> job_record" where
  "submitted_record A job_id t0 t1 config st = new_job_record job_id config JS_QUEUED
     (ae_path_join A (st_results_dir (ap_settings st)) (job_id @ ''.jsonl'')) t0 t1"

lemma submit_job_Inr:
  assumes "submit_job A fs job_id t0 t1 b st = (Inr resp, st')"
  obtains config db p where "submit_checks A fs b st = Inr config"
    "dict_get (ap_runners st') job_id = Some (new_runner st (submitted_record A job_id t0 t1 config st) p)"
    "ap_store st' = Some (sqlite_create (ae_dumps A) (submitted_record A job_id t0 t1 config st) db)"
    "sp_job_id resp = job_id"
    "\<forall>k. k \<noteq> job_id \<longrightarrow> dict_get (ap_runners st') k = dict_get (ap_runners st) k"
  using assms
  by (auto simp: submit_job_def submitted_record_def the_store_def Let_def new_runner_def
      split: sum.splits option.splits)

text \<open>An accepted job is really there: \<open>POST /job\<close> answers \<open>queued\<close> only when the input file exists and
  is readable, and then \<open>GET /job/{id}/status\<close> answers \<open>queued\<close> at once with empty counters, the same
  record is in the store, and no other job of the process is touched.\<close>

lemma submit_accepted:
  assumes "submit_job A fs job_id t0 t1 b st = (Inr resp, st')"
  shows "(\<exists>f. fs (sq_input_path b) = Some f \<and> fi_readable f) \<and> sp_job_id resp = job_id \<and>
    (\<exists>r db. get_record A now job_id st' = Inr r \<and> jr_status r = JS_QUEUED \<and> fresh_record r \<and>
      jc_input_path (jr_config r) = sq_input_path b \<and> ap_store st' = Some db \<and>
      dict_get db job_id = Some (record_to_json (ae_dumps A) r) \<and>
      (\<exists>s. get_status A now job_id st' = Inr s \<and> sr_status s = ''queued'' \<and> sr_counts s = init_counts)) \<and>
    (\<forall>k. k \<noteq> job_id \<longrightarrow> dict_get (ap_runners st') k = dict_get (ap_runners st) k)"
proof -
  obtain config db p where job: "submit_checks A fs b st = Inr config"
    "dict_get (ap_runners st') job_id = Some (new_runner st (submitted_record A job_id t0 t1 config st) p)"
    "ap_store st' = Some (sqlite_create (ae_dumps A) (submitted_record A job_id t0 t1 config st) db)"
    "sp_job_id resp = job_id" "\<forall>k. k \<noteq> job_id \<longrightarrow> dict_get (ap_runners st') k = dict_get (ap_runners st) k"
    by (rule submit_job_Inr [OF assms])
  obtain f cap where input: "fs (sq_input_path b) = Some f" "fi_readable f"
    and config: "config = submit_config (ap_settings st) cap b"
    by (rule submit_checks_Inr [OF job(1)])
  let ?r = "submitted_record A job_id t0 t1 config st"
  have get: "get_record A now job_id st' = Inr ?r"
    using job(2) by (simp add: get_record_def runner_record_def new_runner_def Let_def)
  moreover have "jr_status ?r = JS_QUEUED" "jr_counts ?r = init_counts" "jr_job_id ?r = job_id"
    "jc_input_path (jr_config ?r) = sq_input_path b" "fresh_record ?r"
    by (simp_all add: submitted_record_def new_job_record_def config submit_config_def fresh_record_def)
  moreover have "\<exists>s. get_status A now job_id st' = Inr s \<and> sr_status s = ''queued'' \<and> sr_counts s = init_counts"
    using get by (simp add: get_status_def submitted_record_def new_job_record_def)
  ultimately show ?thesis
    using input job(3-5) by (simp add: sqlite_create_def sqlite_save_def)
qed

definition demo_request :: submit_request where
  "demo_request = \<lparr>sq_input_path = ''in'', sq_model = None, sq_concurrency = Some 2, sq_max_tokens = None,
     sq_webhook_url = None\<rparr>"

definition demo_files :: file_system where
  "demo_files = (\<lambda>p. if p = ''in'' then Some \<lparr>fi_readable = True, fi_text = []\<rparr> else None)"

definition demo_live :: app_state where
  "demo_live = (new_app_state (default_settings\<lparr>st_do_inference_key := Some ''key''\<rparr>) None)
     \<lparr>ap_has_client := True, ap_store := Some []\<rparr>"

definition demo_submitted :: app_state where
  "demo_submitted = snd (submit_job demo_api demo_files ''id'' 1 1 demo_request demo_live)"

lemma demo_submit:
  obtains resp where "submit_job demo_api demo_files ''id'' 1 1 demo_request demo_live = (Inr resp, demo_submitted)"
proof -
  have "isl (fst (submit_job demo_api demo_files ''id'' 1 1 demo_request demo_live)) = False"
    by code_simp
  then show ?thesis
    using that
    by (cases "submit_job demo_api demo_files ''id'' 1 1 demo_request demo_live";
        cases "fst (submit_job demo_api demo_files ''id'' 1 1 demo_request demo_live)")
      (simp_all add: demo_submitted_def)
qed

lemma submit_accepted_witness:
  "sr_status (projr (get_status demo_api 5 ''id'' demo_submitted)) = ''queued''"
proof -
  obtain resp where resp: "submit_job demo_api demo_files ''id'' 1 1 demo_request demo_live = (Inr resp, demo_submitted)"
    by (rule demo_submit)
  from submit_accepted [OF resp, of 5] show ?thesis
    by (elim conjE exE) simp
qed

text \<open>C32. A refused request leaves no trace: when the process has its HTTP client, as the lifespan
  arranges, any answer but 202 leaves the store, the runners, the tasks and the ledger as they were;
  and a live process refuses with 402 exactly the well-formed requests that find the ledger at or above
  the total cap.\<close>

theorem submit_refused:
  assumes "submit_job A fs job_id t0 t1 b st = (Inl e, st')" "ap_has_client st"
  shows "st' = st \<and>
    ((\<exists>x. load_total_spend (ae_loads A) (ae_parse_float A) (ap_ledger st) = Inr x \<and>
        st_max_total_spend_usd (ap_settings st) \<le> x) \<and> is_live (ap_settings st) \<and>
      check_input fs (sq_input_path b) = Inr () \<and> check_webhook A (sq_webhook_url b) = Inr ()
      \<longleftrightarrow> (\<exists>msg. e = Http_error 402 msg))"
proof -
  have total: "submit_provider st'' config \<noteq> Inl x" if "ap_has_client st''" for st'' config x
    using that by (auto simp: submit_provider_def Let_def split: option.splits)
  have "st' = st \<and> (submit_checks A fs b st = Inl e \<or>
      (\<exists>config. submit_checks A fs b st = Inr config) \<and> e = Api_raise Assertion_error)"
    using assms total
    by (auto simp: submit_job_def the_store_def Let_def split: sum.splits option.splits)
  moreover have "\<nexists>msg. e = Http_error 402 msg"
    if "check_input fs (sq_input_path b) = Inl e \<or> check_webhook A (sq_webhook_url b) = Inl e"
    using that
    by (auto simp: check_input_def check_webhook_def and_then_def lift_exn_def
        split: option.splits if_splits sum.splits prod.splits)
  ultimately show ?thesis
    unfolding submit_checks_def
    by (cases "check_input fs (sq_input_path b)"; cases "check_webhook A (sq_webhook_url b)";
        cases "load_total_spend (ae_loads A) (ae_parse_float A) (ap_ledger st)")
      (auto simp: check_spend_def and_then_def lift_exn_def split: if_splits)
qed

definition demo_spent :: app_state where
  "demo_spent = demo_live\<lparr>ap_ledger := Some ''1.5''\<rparr>"

definition demo_spent_api :: api_env where
  "demo_spent_api = demo_api\<lparr>ae_loads := (\<lambda>s. Some (JObj [(''total_spend_usd'', JFloat (3 / 2))]))\<rparr>"

theorem submit_refused_witness:
  "\<exists>msg. submit_job demo_spent_api demo_files ''id'' 1 1 demo_request demo_spent = (Inl (Http_error 402 msg), demo_spent)"
proof -
  have facts: "isl (fst (submit_job demo_spent_api demo_files ''id'' 1 1 demo_request demo_spent))"
    "load_total_spend (ae_loads demo_spent_api) (ae_parse_float demo_spent_api) (ap_ledger demo_spent) = Inr (3 / 2)"
    "is_live (ap_settings demo_spent)" "check_input demo_files (sq_input_path demo_request) = Inr ()"
    "check_webhook demo_spent_api (sq_webhook_url demo_request) = Inr ()" "ap_has_client demo_spent"
    "st_max_total_spend_usd (ap_settings demo_spent) \<le> 3 / 2"
    by code_simp+
  obtain e st' where e: "submit_job demo_spent_api demo_files ''id'' 1 1 demo_request demo_spent = (Inl e, st')"
    using facts(1)
    by (cases "submit_job demo_spent_api demo_files ''id'' 1 1 demo_request demo_spent") (auto simp: isl_def)
  have "\<exists>x. load_total_spend (ae_loads demo_spent_api) (ae_parse_float demo_spent_api) (ap_ledger demo_spent) =
      Inr x \<and> st_max_total_spend_usd (ap_settings demo_spent) \<le> x"
    using facts(2,7) by (intro exI [of _ "3 / 2"] conjI)
  with submit_refused [OF e facts(6)] facts(3-5) show ?thesis
    using e by blast
qed

section \<open>The item cap of live jobs\<close>

text \<open>C19. A live job is small and within budget: it is accepted only while the ledger is below the total
  cap, and whatever its input holds, in every state it reaches it has ingested at most \<open>max 1 m\<close> items,
  where \<open>m\<close> is the smaller of \<open>LIVE_SAMPLE_SIZE\<close> and \<open>MAX_LIVE_ITEMS\<close>.  (The cap is checked after an
  item, so a setting of 0 still lets one item through.)\<close>

theorem live_job_capped:
  assumes "submit_job A fs job_id t0 t1 b st = (Inr resp, st')" "is_live (ap_settings st)"
    and "dict_get (ap_runners st') job_id = Some ru" "rows_ok rows" "0 < st_rate_limit_rpm (ap_settings st)"
    and "ru_job (runner_start prior nb ns rows err ru) = Some s0" "reachable E s0 s"
  shows "ingested (wc_counts (js_ctx s)) \<le>
      max 1 (min (st_live_sample_size (ap_settings st)) (st_max_live_items (ap_settings st))) \<and>
    (\<exists>x. load_total_spend (ae_loads A) (ae_parse_float A) (ap_ledger st) = Inr x \<and>
      x < st_max_total_spend_usd (ap_settings st))"
proof -
  obtain config p where job: "submit_checks A fs b st = Inr config"
    "dict_get (ap_runners st') job_id = Some (new_runner st (submitted_record A job_id t0 t1 config st) p)"
    using submit_job_Inr [OF assms(1)] by metis
  obtain f cap where check: "check_spend A (ap_settings st) (ap_ledger st) = Inr cap"
    and config: "config = submit_config (ap_settings st) cap b"
    by (rule submit_checks_Inr [OF job(1)])
  note live = check_spend_live [OF check assms(2)]
  let ?r = "submitted_record A job_id t0 t1 config st"
  have ru: "ru = new_runner st ?r p"
    using assms(3) job(2) by simp
  have s0: "s0 = start_run ?r (st_rate_limit_rpm (ap_settings st)) (st_circuit_cooldown_s (ap_settings st))
      (st_retry_base_s (ap_settings st)) (st_retry_cap_s (ap_settings st)) prior nb ns rows err"
    using assms(6) by (simp add: runner_start_def ru new_runner_def Let_def)
  have "job_reaches E ?r (st_rate_limit_rpm (ap_settings st)) rows s"
  proof -
    have "fresh_record ?r" by (simp add: submitted_record_def)
    then show ?thesis
      unfolding job_reaches_def using assms(4,5) assms(7) [unfolded s0] by blast
  qed
  from reachable_input(1,3) [OF this] show ?thesis
    using live by (auto simp: cap_ok_def config submit_config_def submitted_record_def new_job_record_def)
qed

theorem live_job_capped_witness:
  "ingested (wc_counts (js_ctx (the (ru_job (runner_start [] 0 0 demo_rows None
     (the (dict_get (ap_runners demo_submitted) ''id'')))))))  \<le> 50"
proof -
  obtain resp where resp: "submit_job demo_api demo_files ''id'' 1 1 demo_request demo_live = (Inr resp, demo_submitted)"
    by (rule demo_submit)
  have facts: "is_live (ap_settings demo_live)" "0 < st_rate_limit_rpm (ap_settings demo_live)"
    "dict_get (ap_runners demo_submitted) ''id'' \<noteq> None"
    "st_live_sample_size (ap_settings demo_live) = 50" "st_max_live_items (ap_settings demo_live) = 1000"
    by code_simp+
  have rows: "rows_ok demo_rows"
    by (simp add: rows_ok_def demo_rows_def row_ok_def)
  obtain ru where ru: "dict_get (ap_runners demo_submitted) ''id'' = Some ru"
    using facts(3) by blast
  obtain s0 where s0: "ru_job (runner_start [] 0 0 demo_rows None ru) = Some s0"
    by (simp add: runner_start_def Let_def)
  show ?thesis
    using live_job_capped [OF resp facts(1) ru rows facts(2) s0 reachable.start] facts(4,5) ru s0
    by simp
qed

section \<open>Restart\<close>

lemma last_save_wins:
  assumes "storable dumps loads r"
  shows "sqlite_get loads now (jr_job_id r) (fold (sqlite_save dumps) (rs @ [r]) db) = Inr (Some r)"
  using sql.get_saved [OF assms] by simp

text \<open>A finished job survives a restart of the process: once \<open>run\<close> has returned, a new process that
  opens the database the job's saves went to answers \<open>/status\<close> exactly as the old one did, and answers
  a cancellation with 409.\<close>

lemma status_survives_restart:
  assumes "js_run s = R_finish" "sys_step E (L_run now) s = Some s'" "js_run s' = R_done"
    and "serves st job_id s'" "job_id = jr_job_id (the_record s')"
    and "storable (ae_dumps A) (ae_loads A) (the_record s')"
    and "ap_store st2 = Some (fold (sqlite_save (ae_dumps A)) (js_saves s') db)" "ap_runners st2 = []"
    and "ap_settings st2 = ap_settings st"
  shows "get_status A t job_id st2 = get_status A t job_id st \<and>
    (\<exists>msg. cancel_job A t job_id st2 = (Inl (Http_error 409 msg), st2))"
proof -
  have "s' = finish_job (je_prices E) now s" "conserved (wc_counts (js_ctx s))"
    using assms(1-3) finish_job_ends(1) [of "je_prices E" now s] by (auto split: if_splits)
  then have "js_saves s' = js_saves s @ [the_record s']"
    by (cases "wc_abort_reason (js_ctx s)") (simp_all add: finish_job_def save_record_def Let_def the_record_def)
  then have stored: "stored_record A t job_id st2 = Inr (the_record s')"
    using last_save_wins [OF assms(6), of t "js_saves s" db] assms(5,7)
    by (simp add: stored_record_def the_store_def lift_exn_def)
  then have "get_record A t job_id st2 = get_record A t job_id st"
    using assms(8) get_record_serves [OF assms(4)] by (simp add: get_record_def)
  then show ?thesis
    using stored assms(8,9) by (simp add: get_status_def cancel_job_def)
qed

definition restart_api :: api_env where
  "restart_api = demo_api\<lparr>ae_loads := (\<lambda>s. Some (record_payload (the_record (demo_state 24))))\<rparr>"

definition restarted_app :: app_state where
  "restarted_app = (new_app_state default_settings None)\<lparr>ap_store :=
     Some (fold (sqlite_save (ae_dumps restart_api)) (js_saves (demo_state 24)) [])\<rparr>"

lemma status_survives_restart_witness:
  "sr_status (projr (get_status restart_api 20 ''j'' restarted_app)) = ''partial''"
proof -
  have facts: "js_run (demo_state 23) = R_finish" "js_run (demo_state 24) = R_done"
    "sys_step demo_env (L_run 12) (demo_state 23) = Some (demo_state 24)"
    "jr_job_id (the_record (demo_state 24)) = ''j''" "jr_status (the_record (demo_state 24)) = JS_PARTIAL"
    by code_simp+
  have ok: "storable (ae_dumps restart_api) (ae_loads restart_api) (the_record (demo_state 24))"
    by (simp add: storable_def restart_api_def)
  have "get_status restart_api 20 ''j'' restarted_app = get_status restart_api 20 ''j'' (demo_app 24)"
    using status_survives_restart [OF facts(1,3,2) demo_serves facts(4) [symmetric] ok, of restarted_app "[]"]
    by (simp add: restarted_app_def demo_app_def new_app_state_def Let_def)
  then show ?thesis
    using facts(5) get_record_serves [OF demo_serves] by (simp add: get_status_def)
qed

end
