(* ===== verification/Bridge.thy ===== *)
theory Bridge
  imports Ingest
begin

text \<open>
  \<open>stream_items\<close>: a thread runs the parser and puts each row into a queue of 64; the async
  generator takes them out and yields them.  The two sides take turns in any order; a step that
  would block is \<open>None\<close>.  When the consumer of the generator stops early, it closes the
  generator, which tells the thread to stop and drains the queue until the thread is done.
\<close>

section \<open>State\<close>

datatype producer_pc = Pr_next | Pr_put parsed | Pr_sentinel | Pr_done

datatype consumer_pc =
    Co_get
  | Co_yielded
  | Co_drain bool
  | Co_end bool "py_exn option"

record bridge =
  br_rows :: "parsed list"
  br_err :: "py_exn option"
  br_queue :: "parsed option pyqueue"
  br_stop :: bool
  br_error_box :: "py_exn list"
  br_out :: "parsed list"
  br_prod :: producer_pc
  br_cons :: consumer_pc

definition stream_start :: "parsed list \<times> py_exn option \<Rightarrow> bridge" where
  "stream_start input =
     \<lparr>br_rows = fst input, br_err = snd input, br_queue = new_queue 64, br_stop = False,
      br_error_box = [], br_out = [], br_prod = Pr_next, br_cons = Co_get\<rparr>"

section \<open>Steps\<close>

text \<open>The thread: next row, check of the stop signal, put; at the end the sentinel.\<close>

definition producer_step :: "bridge \<Rightarrow> bridge option" where
  "producer_step b =
     (case br_prod b of
        Pr_next \<Rightarrow>
          (case br_rows b of
             [] \<Rightarrow>
               (case br_err b of
                  None \<Rightarrow> Some (b\<lparr>br_prod := Pr_sentinel\<rparr>)
                | Some e \<Rightarrow> Some (b\<lparr>br_error_box := br_error_box b @ [e], br_prod := Pr_sentinel\<rparr>))
           | p # ps \<Rightarrow>
               Some (b\<lparr>br_rows := ps, br_prod := (if br_stop b then Pr_sentinel else Pr_put p)\<rparr>))
      | Pr_put p \<Rightarrow>
          (case q_put (Some p) (br_queue b) of
             None \<Rightarrow> None
           | Some q \<Rightarrow> Some (b\<lparr>br_queue := q, br_prod := Pr_next\<rparr>))
      | Pr_sentinel \<Rightarrow>
          (case q_put None (br_queue b) of
             None \<Rightarrow> None
           | Some q \<Rightarrow> Some (b\<lparr>br_queue := q, br_prod := Pr_done\<rparr>))
      | Pr_done \<Rightarrow> None)"

text \<open>The generator, when its consumer asks for the next row, while it drains, and at its end.  The flag
  of \<open>Co_drain\<close> and \<open>Co_end\<close> says whether the loop saw the sentinel (or was closed).\<close>

definition consumer_step :: "bridge \<Rightarrow> bridge option" where
  "consumer_step b =
     (case br_cons b of
        Co_get \<Rightarrow>
          (case q_get (br_queue b) of
             None \<Rightarrow> None
           | Some (None, q) \<Rightarrow> Some (b\<lparr>br_queue := q, br_stop := True, br_cons := Co_drain True\<rparr>)
           | Some (Some p, q) \<Rightarrow>
               Some (b\<lparr>br_queue := q, br_out := br_out b @ [p], br_cons := Co_yielded\<rparr>))
      | Co_yielded \<Rightarrow> Some (b\<lparr>br_cons := Co_get\<rparr>)
      | Co_drain ended \<Rightarrow>
          (if br_prod b = Pr_done then
             Some (b\<lparr>br_cons := Co_end ended (if ended then
                (case br_error_box b of [] \<Rightarrow> None | e # _ \<Rightarrow> Some e) else None)\<rparr>)
           else
             (case q_get (br_queue b) of
                None \<Rightarrow> Some b
              | Some (x, q) \<Rightarrow> Some (b\<lparr>br_queue := q\<rparr>)))
      | Co_end ended e \<Rightarrow> None)"

text \<open>\<open>aclose()\<close>: the consumer leaves its loop after a row.\<close>

definition stream_close :: "bridge \<Rightarrow> bridge option" where
  "stream_close b =
     (if br_cons b = Co_yielded then Some (b\<lparr>br_stop := True, br_cons := Co_drain False\<rparr>) else None)"

datatype bridge_turn = Br_producer | Br_consumer | Br_close

fun bridge_step :: "bridge_turn \<Rightarrow> bridge \<Rightarrow> bridge option" where
  "bridge_step Br_producer b = producer_step b"
| "bridge_step Br_consumer b = consumer_step b"
| "bridge_step Br_close b = stream_close b"

inductive bridge_reaches :: "parsed list \<times> py_exn option \<Rightarrow> bridge \<Rightarrow> bool" for input where
  br_start: "bridge_reaches input (stream_start input)"
| br_step: "bridge_reaches input b \<Longrightarrow> bridge_step t b = Some b' \<Longrightarrow> bridge_reaches input b'"

fun bridge_run :: "bridge_turn list \<Rightarrow> bridge \<Rightarrow> bridge option" where
  "bridge_run [] b = Some b"
| "bridge_run (t # ts) b = (case bridge_step t b of None \<Rightarrow> None | Some b' \<Rightarrow> bridge_run ts b')"

lemma bridge_run_reaches: "bridge_run ts b = Some b' \<Longrightarrow> bridge_reaches input b \<Longrightarrow> bridge_reaches input b'"
  by (induction ts arbitrary: b) (auto split: option.splits intro: br_step)

section \<open>The invariant\<close>

fun prod_rows :: "producer_pc \<Rightarrow> parsed list" where
  "prod_rows (Pr_put p) = [p]"
| "prod_rows _ = []"

text \<open>While nobody has stopped, every row is yielded, queued, in the thread's hand or unread, in order.
  The sentinel is last, and the thread is done once it is in the queue.\<close>

definition box_of :: "py_exn option \<Rightarrow> py_exn list" where
  "box_of e' = (case e' of None \<Rightarrow> [] | Some e \<Rightarrow> [e])"

definition feed_ok :: "parsed list \<times> py_exn option \<Rightarrow> bridge \<Rightarrow> bool" where
  "feed_ok input b \<longleftrightarrow>
     \<not> br_stop b \<and>
     (\<exists>ps. q_items (br_queue b) = map Some ps @ (if br_prod b = Pr_done then [None] else []) \<and>
        fst input = br_out b @ ps @ prod_rows (br_prod b) @ br_rows b) \<and>
     (br_prod b \<in> {Pr_sentinel, Pr_done} \<longrightarrow> br_rows b = []) \<and>
     br_error_box b = (if br_prod b \<in> {Pr_sentinel, Pr_done} then box_of (snd input) else [])"

definition all_out :: "parsed list \<times> py_exn option \<Rightarrow> bridge \<Rightarrow> bool" where
  "all_out input b \<longleftrightarrow>
     br_prod b = Pr_done \<and> br_out b = fst input \<and> br_error_box b = box_of (snd input)"

fun phase_inv :: "parsed list \<times> py_exn option \<Rightarrow> bridge \<Rightarrow> consumer_pc \<Rightarrow> bool" where
  "phase_inv input b Co_get = feed_ok input b"
| "phase_inv input b Co_yielded = feed_ok input b"
| "phase_inv input b (Co_drain True) = all_out input b"
| "phase_inv input b (Co_drain False) = True"
| "phase_inv input b (Co_end True e) = (br_out b = fst input \<and> e = snd input)"
| "phase_inv input b (Co_end False e) = (e = None)"

definition bridge_inv :: "parsed list \<times> py_exn option \<Rightarrow> bridge \<Rightarrow> bool" where
  "bridge_inv input b \<longleftrightarrow>
     aq.in_bounds (br_queue b) \<and> q_maxsize (br_queue b) = 64 \<and> br_err b = snd input \<and>
     (\<exists>rest. fst input = br_out b @ rest) \<and> phase_inv input b (br_cons b)"

lemma bridge_inv_start: "bridge_inv input (stream_start input)"
  by (simp add: bridge_inv_def stream_start_def new_queue_def aq.in_bounds_def feed_ok_def)

lemma producer_feed:
  assumes "producer_step b = Some b'" "feed_ok input b" "br_err b = snd input"
  shows "feed_ok input b'"
proof -
  obtain ps where ps: "q_items (br_queue b) = map Some ps @ (if br_prod b = Pr_done then [None] else [])"
    "fst input = br_out b @ ps @ prod_rows (br_prod b) @ br_rows b"
    using assms(2) by (auto simp: feed_ok_def)
  have rest: "\<not> br_stop b" "br_prod b \<in> {Pr_sentinel, Pr_done} \<longrightarrow> br_rows b = []"
    "br_error_box b = (if br_prod b \<in> {Pr_sentinel, Pr_done} then box_of (snd input) else [])"
    using assms(2) by (simp_all add: feed_ok_def)
  show ?thesis
  proof (cases "br_prod b")
    case Pr_next
    then show ?thesis
      using assms(1,3) ps rest
      by (auto simp: producer_step_def feed_ok_def box_of_def split: list.splits option.splits)
  next
    case (Pr_put p)
    then obtain q where q: "q_put (Some p) (br_queue b) = Some q"
      "b' = b\<lparr>br_queue := q, br_prod := Pr_next\<rparr>"
      using assms(1) by (auto simp: producer_step_def split: option.splits)
    have "q_items q = map Some (ps @ [p])"
      using aq.put_contents [OF q(1)] ps(1) Pr_put by simp
    then have "\<exists>ps. q_items q = map Some ps \<and> fst input = br_out b @ ps @ br_rows b"
      using ps(2) Pr_put by (intro exI [of _ "ps @ [p]"]) simp
    then show ?thesis
      using rest Pr_put by (simp add: feed_ok_def q(2))
  next
    case Pr_sentinel
    then obtain q where q: "q_put None (br_queue b) = Some q" "b' = b\<lparr>br_queue := q, br_prod := Pr_done\<rparr>"
      using assms(1) by (auto simp: producer_step_def split: option.splits)
    have "q_items q = map Some ps @ [None]"
      using aq.put_contents [OF q(1)] ps(1) Pr_sentinel by simp
    then show ?thesis
      using ps(2) rest Pr_sentinel by (auto simp: feed_ok_def q(2))
  next
    case Pr_done
    then show ?thesis using assms(1) by (simp add: producer_step_def)
  qed
qed

lemma producer_frame:
  assumes "producer_step b = Some b'"
  shows "br_out b' = br_out b" "br_err b' = br_err b" "br_cons b' = br_cons b"
    "q_maxsize (br_queue b') = q_maxsize (br_queue b)"
    "aq.in_bounds (br_queue b) \<Longrightarrow> aq.in_bounds (br_queue b')" "br_prod b \<noteq> Pr_done"
  using assms
  by (auto simp: producer_step_def aq.put_capacity aq.put_in_bounds
      split: producer_pc.splits list.splits option.splits)

lemma producer_inv:
  assumes "producer_step b = Some b'" "bridge_inv input b"
  shows "bridge_inv input b'"
proof -
  have "phase_inv input b' (br_cons b)"
    using assms producer_feed [OF assms(1)] producer_frame [OF assms(1)]
    by (cases "(input, b, br_cons b)" rule: phase_inv.cases) (auto simp: bridge_inv_def all_out_def)
  then show ?thesis
    using assms(2) producer_frame [OF assms(1)] by (simp add: bridge_inv_def)
qed

lemma consumer_get:
  assumes "br_cons b = Co_get" "consumer_step b = Some b'" "feed_ok input b"
  shows "phase_inv input b' (br_cons b') \<and> (\<exists>rest. fst input = br_out b' @ rest)"
proof -
  obtain x q where q: "q_get (br_queue b) = Some (x, q)"
    using assms(1,2) by (auto simp: consumer_step_def split: option.splits)
  have items: "q_items (br_queue b) = x # q_items q"
    by (rule aq.get_contents [OF q])
  obtain ps where ps: "q_items (br_queue b) = map Some ps @ (if br_prod b = Pr_done then [None] else [])"
    "fst input = br_out b @ ps @ prod_rows (br_prod b) @ br_rows b"
    using assms(3) by (auto simp: feed_ok_def)
  show ?thesis
  proof (cases ps)
    case Nil
    then have "x = None" "br_prod b = Pr_done"
      using ps(1) items by (auto split: if_splits)
    then show ?thesis
      using assms q ps(2) Nil by (auto simp: consumer_step_def feed_ok_def all_out_def)
  next
    case (Cons p ps')
    then have x: "x = Some p" "q_items q = map Some ps' @ (if br_prod b = Pr_done then [None] else [])"
      using ps(1) items by auto
    then have b': "b' = b\<lparr>br_queue := q, br_out := br_out b @ [p], br_cons := Co_yielded\<rparr>"
      using assms(1,2) q by (simp add: consumer_step_def)
    have "fst input = (br_out b @ [p]) @ ps' @ prod_rows (br_prod b) @ br_rows b"
      using ps(2) Cons by simp
    then show ?thesis
      using assms(3) x(2) unfolding b' by (auto simp: feed_ok_def)
  qed
qed

lemma consumer_frame:
  assumes "consumer_step b = Some b'"
  shows "br_err b' = br_err b" "br_prod b' = br_prod b"
    "q_maxsize (br_queue b') = q_maxsize (br_queue b)"
    "aq.in_bounds (br_queue b) \<Longrightarrow> aq.in_bounds (br_queue b')"
  using assms
  by (auto simp: consumer_step_def aq.get_capacity aq.get_in_bounds
      split: consumer_pc.splits option.splits if_splits)

lemma consumer_inv:
  assumes "consumer_step b = Some b'" "bridge_inv input b"
  shows "bridge_inv input b'"
proof -
  have inv: "phase_inv input b (br_cons b)" "\<exists>rest. fst input = br_out b @ rest"
    using assms(2) by (simp_all add: bridge_inv_def)
  have "phase_inv input b' (br_cons b') \<and> (\<exists>rest. fst input = br_out b' @ rest)"
  proof (cases "br_cons b")
    case Co_get
    then show ?thesis using consumer_get [OF _ assms(1)] inv by simp
  next
    case (Co_drain ended)
    then show ?thesis
      using assms(1) inv
      by (cases ended) (auto simp: consumer_step_def all_out_def box_of_def
          split: if_splits option.splits)
  qed (use assms(1) inv in \<open>auto simp: consumer_step_def feed_ok_def\<close>)
  then show ?thesis
    using assms(2) consumer_frame [OF assms(1)] by (simp add: bridge_inv_def)
qed

lemma close_inv: "stream_close b = Some b' \<Longrightarrow> bridge_inv input b \<Longrightarrow> bridge_inv input b'"
  by (auto simp: stream_close_def bridge_inv_def split: if_splits)

lemma bridge_reaches_inv: "bridge_reaches input b \<Longrightarrow> bridge_inv input b"
proof (induction rule: bridge_reaches.induct)
  case br_start
  then show ?case by (rule bridge_inv_start)
next
  case (br_step b t b')
  then show ?case using producer_inv consumer_inv close_inv by (cases t) auto
qed

section \<open>Progress\<close>

fun prod_rank :: "producer_pc \<Rightarrow> nat" where
  "prod_rank Pr_next = 4" | "prod_rank (Pr_put p) = 7" | "prod_rank Pr_sentinel = 3"
| "prod_rank Pr_done = 0"

fun cons_rank :: "consumer_pc \<Rightarrow> nat" where
  "cons_rank Co_get = 2" | "cons_rank Co_yielded = 3" | "cons_rank (Co_drain e) = 1"
| "cons_rank (Co_end e x) = 0"

definition bridge_rank :: "bridge \<Rightarrow> nat" where
  "bridge_rank b = 4 * length (br_rows b) + prod_rank (br_prod b)
     + 2 * length (q_items (br_queue b)) + cons_rank (br_cons b)"

lemma producer_rank: "producer_step b = Some b' \<Longrightarrow> bridge_rank b' < bridge_rank b"
  by (auto simp: producer_step_def bridge_rank_def q_put_Some
      split: producer_pc.splits list.splits option.splits)

text \<open>Only a drain of an empty queue, while the thread still works, changes nothing.\<close>

definition drain_waits :: "bridge \<Rightarrow> bool" where
  "drain_waits b \<longleftrightarrow>
     br_prod b \<noteq> Pr_done \<and> q_items (br_queue b) = [] \<and> (\<exists>ended. br_cons b = Co_drain ended)"

lemma consumer_rank:
  "consumer_step b = Some b' \<Longrightarrow> \<not> drain_waits b \<Longrightarrow> bridge_rank b' < bridge_rank b"
  by (auto simp: consumer_step_def drain_waits_def bridge_rank_def q_get_def
      split: consumer_pc.splits list.splits option.splits if_splits)

lemma close_rank: "stream_close b = Some b' \<Longrightarrow> bridge_rank b' < bridge_rank b"
  by (auto simp: stream_close_def bridge_rank_def split: if_splits)

lemma consumer_enabled:
  assumes "\<forall>ended e. br_cons b \<noteq> Co_end ended e" "br_cons b = Co_get \<longrightarrow> q_items (br_queue b) \<noteq> []"
  shows "consumer_step b \<noteq> None"
  using assms
  by (auto simp: consumer_step_def q_get_def split: consumer_pc.splits list.splits option.splits)

section \<open>Properties\<close>

text \<open>C38. The generator yields the parsed rows in order, each once, and never more than 64 of them wait
  in the queue; when its loop ends by itself every row was yielded and the parser's exception, if
  any, is raised, and when it is closed early no exception is.\<close>

theorem stream_yields_input:
  assumes "bridge_reaches input b"
  shows "(\<exists>rest. fst input = br_out b @ rest) \<and> length (q_items (br_queue b)) \<le> 64 \<and>
    (\<forall>e. br_cons b = Co_end True e \<longrightarrow> br_out b = fst input \<and> e = snd input) \<and>
    (\<forall>e. br_cons b = Co_end False e \<longrightarrow> e = None)"
  using bridge_reaches_inv [OF assms] by (auto simp: bridge_inv_def aq.in_bounds_def)

definition demo_input :: "parsed list \<times> py_exn option" where
  "demo_input = ([P_item \<lparr>pi_id = ''a'', pi_prompt = ''p'', pi_raw = []\<rparr>], Some Value_error)"

definition demo_turns :: "bridge_turn list" where
  "demo_turns = [Br_producer, Br_producer, Br_consumer, Br_producer, Br_consumer, Br_producer,
     Br_consumer, Br_consumer]"

theorem stream_yields_input_witness:
  "br_out (the (bridge_run demo_turns (stream_start demo_input))) = fst demo_input"
proof -
  let ?b = "the (bridge_run demo_turns (stream_start demo_input))"
  have run: "bridge_run demo_turns (stream_start demo_input) \<noteq> None"
    "br_cons ?b = Co_end True (Some Value_error)"
    by code_simp+
  then have "bridge_run demo_turns (stream_start demo_input) = Some ?b"
    by auto
  then have "bridge_reaches demo_input ?b"
    by (rule bridge_run_reaches) (rule br_start)
  then show ?thesis
    using stream_yields_input [of demo_input ?b] run(2) by auto
qed



end
