(* ===== verification/Pipeline.thy ===== *)
theory Pipeline
  imports Bridge JobEnd
begin

text \<open>
  From the input file to the result file: the parser's thread, the generator that bridges it to the event
  loop, the job and the sink, put together.  \<open>stream_job\<close> is a job that reads its rows from the generator
  while the thread still parses; it refines the job of \<open>Scheduler\<close>, which has all its rows in a list.
\<close>

lemma ingest_rows_ok:
  assumes "\<forall>p \<in> set rows. ingest_error_ok p"
  shows "rows_ok rows"
proof -
  have "qitem_ok (Q_parsed p)" if "ingest_error_ok p" for p
    using that by (cases p) (auto simp: ingest_error_ok_def row_ok_def)
  then show ?thesis
    using assms by (simp add: rows_ok_def)
qed

lemma parsed_input_ok: "rows_ok (fst (iter_items_sync py_repr loads ijson_items content))"
  using iter_items_ok [of py_repr loads ijson_items content]
  by (intro ingest_rows_ok) (metis prod.collapse)

text \<open>A job that is over has one synced line for each row it read, and it read all its cap allows unless it
  was cancelled or aborted.\<close>

lemma rows_read_to_lines:
  assumes "job_reaches E record rpm rows s" "job_over s" "0 < workers_of record rpm"
  shows "let n = length (sk_lines (wc_sink (js_ctx s))) in
    n \<le> length rows \<and> sk_durable (wc_sink (js_ctx s)) = n \<and>
    mset (map sink_item_id (wc_emitted (js_ctx s))) = mset (map parsed_id (take n rows)) \<and>
    (wc_cancel_event (js_ctx s) \<or> wc_abort_event (js_ctx s) \<or>
       int n = rows_to_read (jc_max_items (jr_config record)) (length rows))"
proof -
  let ?i = "ingested (wc_counts (js_ctx s))"
  have inv: "job_inv E rows (workers_of record rpm) s" by (rule job_reaches_inv [OF assms(1)])
  have "\<not> ingesting (js_run s)"
    using assms(2) by (cases "js_run s") (simp_all add: job_over_def)
  then have all: "wc_cancel_event (js_ctx s) \<or> wc_abort_event (js_ctx s) \<or>
      ?i = rows_to_read (jc_max_items (jr_config record)) (length rows)"
    using reachable_input(2,3) [OF assms(1)] by (auto simp: input_read_def)
  have n: "int (length (sk_lines (wc_sink (js_ctx s)))) = ?i"
    using over_lines [OF inv assms(2)] over_counts(3) [OF inv assms(2,3)] by simp
  have "mset (map sink_item_id (wc_emitted (js_ctx s))) = mset (map parsed_id (take (nat ?i) rows))" "?i \<le> int (length rows)"
    using inv over_empty [OF inv assms(2,3)] by (simp_all add: job_inv_def inv_books_def inv_input_def Let_def)
  then show ?thesis
    using over_lines(2) [OF inv assms(2)] over_lines(1) [OF inv assms(2)] all n by (simp add: Let_def flip: n)
qed

lemma rows_to_lines:
  assumes "job_reaches E record rpm rows s" "job_over s" "0 < workers_of record rpm"
    and "jc_max_items (jr_config record) = None"
    and "\<not> wc_cancel_event (js_ctx s)" "\<not> wc_abort_event (js_ctx s)"
  shows "length (sk_lines (wc_sink (js_ctx s))) = length rows \<and>
    sk_durable (wc_sink (js_ctx s)) = length (sk_lines (wc_sink (js_ctx s))) \<and>
    mset (map sink_item_id (wc_emitted (js_ctx s))) = mset (map parsed_id rows)"
  using rows_read_to_lines [OF assms(1-3)] assms(4-6) by (simp add: Let_def rows_to_read_def)

section \<open>The streamed job\<close>

text \<open>The parser's thread, the generator and the job together.  In \<open>Scheduler\<close> a job reads its rows from a
  list; here that list is empty, and the row \<open>async for\<close> gets is what the generator has just yielded.  The
  generator runs only while the job asks for a row, or closes it after its last one, and no sentinel is put
  before it is closed.\<close>

record stream_job =
  sj_gen :: bridge
  sj_job :: job_sys

datatype stream_label = SJ_thread | SJ_gen | SJ_job label

definition hand_over :: "parsed list \<Rightarrow> py_exn option \<Rightarrow> job_sys \<Rightarrow> job_sys" where
  "hand_over rows e s = s\<lparr>js_rows := rows, js_source_error := e\<rparr>"

fun gen_ended :: "consumer_pc \<Rightarrow> bool" where
  "gen_ended (Co_end ended e) = True"
| "gen_ended _ = False"

definition with_gen :: "stream_job \<Rightarrow> bridge option \<Rightarrow> stream_job option" where
  "with_gen x b' = map_option (\<lambda>b. x\<lparr>sj_gen := b\<rparr>) b'"

text \<open>A turn of the generator inside \<open>_ingest_and_dispatch\<close>, up to where the loop body suspends.\<close>

definition gen_turn :: "stream_job \<Rightarrow> stream_job option" where
  "gen_turn x =
     (let b = sj_gen x; s = sj_job x in
      case br_cons b of
        Co_get \<Rightarrow>
          if js_run s = R_ingest then
            (case consumer_step b of
               None \<Rightarrow> None
             | Some b' \<Rightarrow>
                 Some (x\<lparr>sj_gen := b', sj_job :=
                   (if br_cons b' = Co_yielded then ingest_next (hand_over [last (br_out b')] None s) else s)\<rparr>))
          else None
      | Co_yielded \<Rightarrow>
          if js_run s = R_ingest then with_gen x (consumer_step b)
          else if \<not> ingesting (js_run s) then with_gen x (stream_close b)
          else None
      | Co_drain ended \<Rightarrow> with_gen x (consumer_step b)
      | Co_end ended e \<Rightarrow>
          if js_run s = R_ingest then Some (x\<lparr>sj_job := ingest_next (hand_over [] e s)\<rparr>) else None)"

text \<open>A turn of the rest of the job: not of \<open>run\<close> while it waits for the generator or for its end.\<close>

fun waits_for_gen :: "label \<Rightarrow> stream_job \<Rightarrow> bool" where
  "waits_for_gen (L_run now) x \<longleftrightarrow>
     js_run (sj_job x) = R_ingest \<or> (\<not> ingesting (js_run (sj_job x)) \<and> \<not> gen_ended (br_cons (sj_gen x)))"
| "waits_for_gen _ x \<longleftrightarrow> False"

fun stream_step :: "job_env \<Rightarrow> stream_label \<Rightarrow> stream_job \<Rightarrow> stream_job option" where
  "stream_step E SJ_thread x = with_gen x (producer_step (sj_gen x))"
| "stream_step E SJ_gen x = gen_turn x"
| "stream_step E (SJ_job l) x =
     (if waits_for_gen l x then None
      else map_option (\<lambda>s. x\<lparr>sj_job := s\<rparr>) (sys_step E l (sj_job x)))"

inductive stream_reaches :: "job_env \<Rightarrow> stream_job \<Rightarrow> stream_job \<Rightarrow> bool" for E x0 where
  sj_start: "stream_reaches E x0 x0"
| sj_step: "stream_reaches E x0 x \<Longrightarrow> stream_step E l x = Some x' \<Longrightarrow> stream_reaches E x0 x'"

fun stream_run :: "job_env \<Rightarrow> stream_label list \<Rightarrow> stream_job \<Rightarrow> stream_job option" where
  "stream_run E [] x = Some x"
| "stream_run E (l # ls) x =
     (case stream_step E l x of None \<Rightarrow> None | Some x' \<Rightarrow> stream_run E ls x')"

lemma stream_run_reaches:
  "stream_run E ls x = Some x' \<Longrightarrow> stream_reaches E x0 x \<Longrightarrow> stream_reaches E x0 x'"
  by (induction ls arbitrary: x) (auto split: option.splits intro: sj_step)

section \<open>It refines the job over the whole input\<close>

text \<open>What is left of the input matters only to the turn that reads the next row.\<close>

lemma hand_over_simps [simp]:
  "js_run (hand_over R e s) = js_run s" "js_ctx (hand_over R e s) = js_ctx s"
  "js_workers (hand_over R e s) = js_workers s" "js_rows (hand_over R e s) = R"
  "js_source_error (hand_over R e s) = e" "js_saves (hand_over R e s) = js_saves s"
  "js_record (hand_over R e s) = js_record s" "hand_over R e (hand_over R' e' s) = hand_over R e s"
  by (simp_all add: hand_over_def)

lemma run_step_hand:
  "js_run s \<noteq> R_ingest \<Longrightarrow>
   run_step prices now (js_run s) (hand_over R e s) = map_option (hand_over R e) (run_step prices now (js_run s) s)"
  by (cases "(prices, now, js_run s, s)" rule: run_step.cases)
    (auto simp: run_defs hand_over_def the_record_def Let_def split: option.splits list.splits)

lemma sys_step_hand:
  assumes "\<forall>now. l = L_run now \<longrightarrow> js_run s \<noteq> R_ingest"
  shows "sys_step E l (hand_over R e s) = map_option (hand_over R e) (sys_step E l s)"
proof (cases l)
  case (L_run now)
  then show ?thesis using assms run_step_hand by simp
qed (auto simp: hand_over_def worker_turn_def sink_turn_of_def cancel_job_event_def split: option.splits)

lemma ingest_next_hand:
  "ingest_next (hand_over (p # ps) e s) = hand_over ps e (ingest_next (hand_over [p] e' s))"
  by (auto simp: ingest_next_def hand_over_def begin_shutdown_def Let_def)

lemma ingest_end_hand: "ingest_next (hand_over [] e s) = hand_over [] e (begin_shutdown e s)"
  by (simp add: ingest_next_def hand_over_def begin_shutdown_def)

lemma ingest_next_run: "js_run s = R_ingest \<Longrightarrow> js_run (ingest_next s) \<noteq> R_ingest"
  by (auto simp: ingest_next_def begin_shutdown_def Let_def split: list.split)

fun gen_open :: "consumer_pc \<Rightarrow> bool" where
  "gen_open (Co_drain False) = False"
| "gen_open (Co_end False e) = False"
| "gen_open _ = True"

definition refines :: "job_env \<Rightarrow> parsed list \<times> py_exn option \<Rightarrow> job_sys \<Rightarrow> stream_job \<Rightarrow> bool" where
  "refines E input s0 x \<longleftrightarrow> bridge_reaches input (sj_gen x) \<and>
     (\<exists>R. reachable E s0 (hand_over R (snd input) (sj_job x)) \<and>
        (ingesting (js_run (sj_job x)) \<longrightarrow>
           gen_open (br_cons (sj_gen x)) \<and> R = drop (length (br_out (sj_gen x))) (fst input)))"

lemma never_ingests_again:
  "sys_step E l s = Some s' \<Longrightarrow> ingesting (js_run s') \<Longrightarrow> ingesting (js_run s)"
proof (cases l)
  case (L_run now)
  assume "sys_step E l s = Some s'" "ingesting (js_run s')"
  then show ?thesis
    using L_run
    by (cases "(je_prices E, now, js_run s, s)" rule: run_step.cases)
      (auto simp: put_shutdown_def gather_workers_def close_sink_def finish_job_def save_record_def Let_def
        split: option.splits if_splits)
qed (auto simp: worker_turn_def sink_turn_of_def cancel_job_event_def split: option.splits if_splits)

lemma refines_job:
  assumes "refines E input s0 x" "sys_step E l (sj_job x) = Some s'" "\<not> waits_for_gen l x"
  shows "refines E input s0 (x\<lparr>sj_job := s'\<rparr>)"
proof -
  obtain R where R: "reachable E s0 (hand_over R (snd input) (sj_job x))"
    "ingesting (js_run (sj_job x)) \<longrightarrow>
       gen_open (br_cons (sj_gen x)) \<and> R = drop (length (br_out (sj_gen x))) (fst input)"
    using assms(1) by (auto simp: refines_def)
  have "sys_step E l (hand_over R (snd input) (sj_job x)) = Some (hand_over R (snd input) s')"
    using assms(2,3) sys_step_hand [of l "sj_job x" E R "snd input"] by (cases l) auto
  then have "reachable E s0 (hand_over R (snd input) s')"
    by (rule reachable.step [OF R(1)])
  then show ?thesis
    using assms(1) R(2) never_ingests_again [OF assms(2)] by (auto simp: refines_def)
qed

lemma refines_gen:
  assumes ref: "refines E input s0 x" and turn: "gen_turn x = Some x'"
  shows "refines E input s0 x'"
proof -
  let ?b = "sj_gen x" and ?s = "sj_job x" and ?err = "snd input"
  have bridge: "bridge_reaches input ?b"
    using ref by (simp add: refines_def)
  obtain R where R: "reachable E s0 (hand_over R ?err ?s)"
    "ingesting (js_run ?s) \<longrightarrow> gen_open (br_cons ?b) \<and> R = drop (length (br_out ?b)) (fst input)"
    using ref by (auto simp: refines_def)
  have same_job: "refines E input s0 (x\<lparr>sj_gen := b'\<rparr>)"
    if "bridge_step t ?b = Some b'" "br_out b' = br_out ?b"
      "ingesting (js_run ?s) \<longrightarrow> gen_open (br_cons b')" for t b'
    using that R br_step [OF bridge that(1)] by (auto simp: refines_def)
  show ?thesis
  proof (cases "br_cons ?b")
    case Co_get
    then have run: "js_run ?s = R_ingest"
      using turn by (simp add: gen_turn_def Let_def split: if_splits)
    obtain b' where b': "consumer_step ?b = Some b'"
      using turn Co_get run by (auto simp: gen_turn_def Let_def split: option.splits)
    show ?thesis
    proof (cases "br_cons b' = Co_yielded")
      case False
      then have "br_out b' = br_out ?b" "gen_open (br_cons b')" "x' = x\<lparr>sj_gen := b'\<rparr>"
        using b' Co_get turn run by (auto simp: consumer_step_def gen_turn_def Let_def split: option.splits)
      then show ?thesis
        using same_job [of Br_consumer b'] b' by simp
    next
      case True
      then obtain p where p: "br_out b' = br_out ?b @ [p]"
        using b' Co_get by (auto simp: consumer_step_def split: option.splits)
      have reach': "bridge_reaches input b'"
        using br_step [OF bridge, of Br_consumer b'] b' by simp
      then obtain rest where "fst input = br_out b' @ rest"
        using bridge_reaches_inv [OF reach'] by (auto simp: bridge_inv_def)
      then have rows: "R = p # rest" "rest = drop (length (br_out b')) (fst input)"
        using R(2) run p by simp_all
      let ?s' = "ingest_next (hand_over [p] None ?s)"
      have "sys_step E (L_run 0) (hand_over R ?err ?s) = Some (hand_over rest ?err ?s')"
        using run ingest_next_hand [of p rest ?err ?s None] by (simp add: rows(1))
      then have "reachable E s0 (hand_over rest ?err ?s')"
        by (rule reachable.step [OF R(1)])
      moreover have "x' = x\<lparr>sj_gen := b', sj_job := ?s'\<rparr>"
        using turn Co_get run b' True p by (simp add: gen_turn_def Let_def)
      ultimately show ?thesis
        using reach' True rows(2) by (auto simp: refines_def)
    qed
  next
    case Co_yielded
    show ?thesis
    proof (cases "js_run ?s = R_ingest")
      case True
      then show ?thesis
        using turn Co_yielded same_job [of Br_consumer "?b\<lparr>br_cons := Co_get\<rparr>"]
        by (simp add: gen_turn_def with_gen_def consumer_step_def)
    next
      case False
      then show ?thesis
        using turn Co_yielded same_job [of Br_close "?b\<lparr>br_stop := True, br_cons := Co_drain False\<rparr>"]
        by (simp add: gen_turn_def with_gen_def stream_close_def Let_def split: if_splits)
    qed
  next
    case (Co_drain ended)
    then obtain b' where b': "consumer_step ?b = Some b'" "x' = x\<lparr>sj_gen := b'\<rparr>"
      using turn by (auto simp: gen_turn_def with_gen_def Let_def)
    then have "br_out b' = br_out ?b" "gen_open (br_cons ?b) \<longrightarrow> gen_open (br_cons b')"
      using Co_drain by (cases ended; auto simp: consumer_step_def split: option.splits if_splits)+
    then show ?thesis
      using same_job [of Br_consumer b'] b' R(2) by simp
  next
    case (Co_end ended e)
    then have run: "js_run ?s = R_ingest" and x': "x' = x\<lparr>sj_job := ingest_next (hand_over [] e ?s)\<rparr>"
      using turn by (simp_all add: gen_turn_def Let_def split: if_splits)
    have ended: ended
      using R(2) run Co_end by (cases ended) simp_all
    then have "br_out ?b = fst input" "e = ?err"
      using bridge_reaches_inv [OF bridge] Co_end by (simp_all add: bridge_inv_def)
    then have "sys_step E (L_run 0) (hand_over R ?err ?s) = Some (hand_over [] ?err (ingest_next (hand_over [] e ?s)))"
      using R(2) run by (simp add: ingest_end_hand)
    then have "reachable E s0 (hand_over [] ?err (ingest_next (hand_over [] e ?s)))"
      by (rule reachable.step [OF R(1)])
    moreover have "\<not> ingesting (js_run (ingest_next (hand_over [] e ?s)))"
      by (simp add: ingest_end_hand begin_shutdown_def)
    ultimately show ?thesis
      using bridge by (auto simp: refines_def x')
  qed
qed

lemma refines_step:
  assumes "refines E input s0 x" "stream_step E l x = Some x'"
  shows "refines E input s0 x'"
proof (cases l)
  case SJ_thread
  then obtain b' where b': "producer_step (sj_gen x) = Some b'" "x' = x\<lparr>sj_gen := b'\<rparr>"
    using assms(2) by (auto simp: with_gen_def)
  then show ?thesis
    using assms(1) producer_frame [OF b'(1)] br_step [of input "sj_gen x" Br_producer b']
    by (auto simp: refines_def)
next
  case SJ_gen
  then show ?thesis using assms refines_gen by simp
next
  case (SJ_job l')
  then show ?thesis
    using assms refines_job [OF assms(1), of l'] by (auto split: if_splits)
qed

text \<open>The start: the parser has read nothing, and the job has no rows.\<close>

definition stream_job_start :: "parsed list \<times> py_exn option \<Rightarrow> job_sys \<Rightarrow> stream_job" where
  "stream_job_start input s = \<lparr>sj_gen = stream_start input, sj_job = s\<rparr>"

lemma start_run_hand:
  "start_run record rpm cd rb rc prior nb ns rows err =
   hand_over rows err (start_run record rpm cd rb rc prior nb ns [] None)"
  by (simp add: start_run_def hand_over_def save_record_def the_record_def Let_def)

lemma stream_job_refines:
  assumes "stream_reaches E (stream_job_start input (start_run record rpm cd rb rc prior nb ns [] None)) x"
  shows "\<exists>R. reachable E (start_run record rpm cd rb rc prior nb ns (fst input) (snd input))
    (hand_over R (snd input) (sj_job x))"
proof -
  let ?s0 = "start_run record rpm cd rb rc prior nb ns (fst input) (snd input)"
  have "refines E input ?s0 x"
    using assms
  proof induction
    case sj_start
    have "reachable E ?s0 (hand_over (fst input) (snd input) (start_run record rpm cd rb rc prior nb ns [] None))"
      using reachable.start [of E ?s0] start_run_hand by metis
    then show ?case
      by (auto simp: refines_def stream_job_start_def br_start) (auto simp: stream_start_def)
  next
    case (sj_step x l x')
    then show ?case using refines_step by blast
  qed
  then show ?thesis by (auto simp: refines_def)
qed

section \<open>End to end\<close>

text \<open>C3. End to end over a JSON Lines file, for every interleaving of the parser's thread, the generator,
  the runner, the workers and the writer: once the job is over its result file holds one synced line for
  each row it read, and these are the first rows of the file in the sense that their ids are those of as
  many non-blank lines from its beginning, lines that are no JSON or carry no prompt included.  Unless the
  job was cancelled or aborted these are all non-blank lines, or with an item cap \<open>m\<close> the first
  \<open>max 1 m\<close> of them.\<close>

theorem jsonl_batch_end_to_end:
  assumes "stream_reaches E (stream_job_start (iter_items_sync py_repr loads ijson_items content)
      (start_run record rpm cd rb rc prior nb ns [] None)) x"
    and "\<not> sniff_is_json_array content" "fresh_record record" "0 < rpm" "0 < workers_of record rpm"
    and "job_over (sj_job x)"
  shows "let c = js_ctx (sj_job x); n = length (sk_lines (wc_sink c));
      rows = jsonl_items py_repr loads 0 (file_lines content);
      all = length (filter (\<lambda>l. py_strip l \<noteq> []) (file_lines content)) in
    length rows = all \<and> n \<le> all \<and> sk_durable (wc_sink c) = n \<and>
    mset (map sink_item_id (wc_emitted c)) = mset (map parsed_id (take n rows)) \<and>
    (wc_cancel_event c \<or> wc_abort_event c \<or>
       int n = (case jc_max_items (jr_config record) of
                  None \<Rightarrow> int all | Some m \<Rightarrow> min (int all) (max 1 m)))"
proof -
  let ?input = "iter_items_sync py_repr loads ijson_items content"
  obtain R where "reachable E (start_run record rpm cd rb rc prior nb ns (fst ?input) (snd ?input))
      (hand_over R (snd ?input) (sj_job x))"
    using stream_job_refines [OF assms(1)] by blast
  then have reach: "job_reaches E record rpm (fst ?input) (hand_over R (snd ?input) (sj_job x))"
    using assms(3,4) parsed_input_ok unfolding job_reaches_def by blast
  have over: "job_over (hand_over R (snd ?input) (sj_job x))"
    using assms(6) by (simp add: job_over_def undisturbed_def)
  have "fst ?input = jsonl_items py_repr loads 0 (file_lines content)"
    using assms(2) by (simp add: iter_items_sync_def)
  then show ?thesis
    using rows_read_to_lines [OF reach over assms(5)]
    by (simp add: Let_def length_jsonl_items rows_to_read_def)
qed

text \<open>A file with one broken line and one blank line, streamed while the job runs.\<close>

definition demo_content :: string where
  "demo_content = ''no json'' @ [newline, newline]"

definition demo_parse :: "parsed list \<times> py_exn option" where
  "demo_parse = iter_items_sync (\<lambda>v. []) (\<lambda>l. Inl ''bad'') (\<lambda>c. ([], None)) demo_content"

definition demo_stream_labels :: "stream_label list" where
  "demo_stream_labels =
     [SJ_thread, SJ_thread, SJ_gen, SJ_job (L_run 0), SJ_gen, SJ_thread, SJ_thread, SJ_gen, SJ_gen, SJ_gen]
     @ map SJ_job [L_run 0, L_run 0, demo_resume 1, demo_resume 2, L_run 3, L_sink 4, L_sink 4, L_run 5, L_run 6]"

definition demo_streamed :: stream_job where
  "demo_streamed = the (stream_run demo_env demo_stream_labels
     (stream_job_start demo_parse (start_run demo_record 60 30 (1 / 2) 30 [] 0 0 [] None)))"

theorem jsonl_batch_end_to_end_witness:
  "length (sk_lines (wc_sink (js_ctx (sj_job demo_streamed)))) = 1"
proof -
  let ?x0 = "stream_job_start demo_parse (start_run demo_record 60 30 (1 / 2) 30 [] 0 0 [] None)"
  have "stream_run demo_env demo_stream_labels ?x0 \<noteq> None"
    by code_simp
  then have "stream_run demo_env demo_stream_labels ?x0 = Some demo_streamed"
    by (auto simp: demo_streamed_def)
  then have reach: "stream_reaches demo_env ?x0 demo_streamed"
    using sj_start by (rule stream_run_reaches)
  have facts: "\<not> sniff_is_json_array demo_content" "job_over (sj_job demo_streamed)"
    "\<not> wc_cancel_event (js_ctx (sj_job demo_streamed))" "\<not> wc_abort_event (js_ctx (sj_job demo_streamed))"
    "length (filter (\<lambda>l. py_strip l \<noteq> []) (file_lines demo_content)) = 1"
    "jc_max_items (jr_config demo_record) = None"
    by code_simp+
  have "fresh_record demo_record"
    by (simp add: demo_record_def)
  from jsonl_batch_end_to_end [OF reach [unfolded demo_parse_def] facts(1) this _ _ facts(2)] show ?thesis
    using facts(3-6) by (simp add: demo_concurrency Let_def)
qed

end
