(* ===== verification/ProcessInv.thy ===== *)
theory ProcessInv
  imports Process JobSaves ApiRoutes Pipeline
begin

text \<open>
  The invariant of the whole service: every row of the table reads back, every runner's job is in a state
  that job reaches when it runs alone, and the row of its id is the last record it saved.  The lemmas are
  one per kind of turn.
\<close>

section \<open>The json module\<close>

text \<open>The records of the jobs and the ledger read back as what was written.\<close>

lemma python_json_storable: "python_json A \<Longrightarrow> record_json_ok r \<Longrightarrow> storable (ae_dumps A) (ae_loads A) r"
  by (metis python_json_def storable_python record_json_dicts)

lemma python_json_ledger: "python_json A \<Longrightarrow> ledger_json_ok (ae_dumps A) (ae_loads A)"
  by (metis python_json_def ledger_python)

section \<open>The parts of the invariant\<close>

definition stored :: "proc_env \<Rightarrow> app_state \<Rightarrow> string \<Rightarrow> job_record \<Rightarrow> bool" where
  "stored P st job_id r \<longleftrightarrow>
     (\<exists>db. ap_store st = Some db \<and> dict_get db job_id = Some (record_to_json (ae_dumps (pe_api P)) r))"

definition store_ok :: "proc_env \<Rightarrow> app_state \<Rightarrow> bool" where
  "store_ok P st \<longleftrightarrow>
     (\<exists>db. ap_store st = Some db \<and>
       (\<forall>k raw. dict_get db k = Some raw \<longrightarrow>
         (\<exists>r. raw = record_to_json (ae_dumps (pe_api P)) r \<and> jr_job_id r = k \<and> record_json_ok r)))"

text \<open>The job of a runner is one of the states it reaches alone.\<close>

definition runs_job :: "proc_env \<Rightarrow> job_runner \<Rightarrow> job_sys \<Rightarrow> bool" where
  "runs_job P ru s \<longleftrightarrow>
     (\<exists>rows. job_reaches (job_env_of P ru) (ru_record ru) (ru_rate_limit_rpm ru) rows s)"

text \<open>The record a runner is made for.\<close>

definition submitted_ok :: "string \<Rightarrow> job_runner \<Rightarrow> bool" where
  "submitted_ok job_id ru \<longleftrightarrow>
     jr_job_id (ru_record ru) = job_id \<and> fresh_record (ru_record ru) \<and>
     jr_backpressure (ru_record ru) = [] \<and> jr_status (ru_record ru) = JS_QUEUED \<and>
     0 < ru_rate_limit_rpm ru \<and> 0 < workers_of (ru_record ru) (ru_rate_limit_rpm ru)"

definition task_ok :: "proc_env \<Rightarrow> app_state \<Rightarrow> string \<Rightarrow> job_runner \<Rightarrow> bool" where
  "task_ok P st job_id ru \<longleftrightarrow>
     submitted_ok job_id ru \<and>
     (case ru_job ru of
        None \<Rightarrow> stored P st job_id (ru_record ru)
      | Some s \<Rightarrow> runs_job P ru s \<and> stored P st job_id (last (js_saves s)))"

definition runners_ok :: "proc_env \<Rightarrow> app_state \<Rightarrow> bool" where
  "runners_ok P st \<longleftrightarrow>
     (\<forall>job_id ru. dict_get (ap_runners st) job_id = Some ru \<longrightarrow> task_ok P st job_id ru)"

definition app_inv :: "proc_env \<Rightarrow> app_state \<Rightarrow> bool" where
  "app_inv P st \<longleftrightarrow>
     ap_has_client st \<and> 0 < st_rate_limit_rpm (ap_settings st) \<and> store_ok P st \<and> runners_ok P st"

lemma app_invD:
  assumes "app_inv P st" "dict_get (ap_runners st) job_id = Some ru"
  shows "task_ok P st job_id ru"
  using assms by (simp add: app_inv_def runners_ok_def)

lemma store_ok_get:
  assumes "store_ok P st" "python_json (pe_api P)" "stored P st job_id r0"
  obtains r where "stored_record (pe_api P) now job_id st = Inr r" "jr_job_id r = job_id"
proof -
  obtain db where db: "ap_store st = Some db" "dict_get db job_id = Some (record_to_json (ae_dumps (pe_api P)) r0)"
    using assms(3) by (auto simp: stored_def)
  then obtain r where r: "dict_get db job_id = Some (record_to_json (ae_dumps (pe_api P)) r)"
    "jr_job_id r = job_id" "record_json_ok r"
    using assms(1) by (auto simp: store_ok_def)
  then have "storable (ae_dumps (pe_api P)) (ae_loads (pe_api P)) r"
    using assms(2) by (simp add: python_json_storable)
  then have "stored_record (pe_api P) now job_id st = Inr r"
    using db(1) r(1) by (simp add: stored_record_def the_store_def sqlite_get_def record_from_to lift_exn_def)
  with r(2) that show ?thesis by blast
qed

lemma stored_read:
  assumes "stored P st job_id r" "record_json_ok r" "python_json (pe_api P)"
  shows "stored_record (pe_api P) now job_id st = Inr r"
proof -
  have "storable (ae_dumps (pe_api P)) (ae_loads (pe_api P)) r"
    using assms(2,3) by (simp add: python_json_storable)
  then show ?thesis
    using assms(1)
    by (auto simp: stored_def stored_record_def the_store_def sqlite_get_def record_from_to lift_exn_def)
qed

section \<open>Saving and replacing a runner\<close>

lemma fold_saves_get:
  assumes "list_all (\<lambda>r. jr_job_id r = job_id) rs"
  shows "dict_get (fold (sqlite_save dumps) rs db) k =
    (if k = job_id \<and> rs \<noteq> [] then Some (record_to_json dumps (last rs)) else dict_get db k)"
  using assms
  by (induction rs rule: rev_induct) (auto simp: sqlite_save_def)

lemma save_records_simps [simp]:
  "ap_runners (save_records P rs st) = ap_runners st" "ap_settings (save_records P rs st) = ap_settings st"
  "ap_has_client (save_records P rs st) = ap_has_client st" "ap_tasks (save_records P rs st) = ap_tasks st"
  "ap_ledger (save_records P rs st) = ap_ledger st"
  by (simp_all add: save_records_def)

lemma put_runner_simps [simp]:
  "ap_runners (put_runner k ru st) = dict_set k ru (ap_runners st)" "ap_store (put_runner k ru st) = ap_store st"
  "ap_settings (put_runner k ru st) = ap_settings st" "ap_has_client (put_runner k ru st) = ap_has_client st"
  "ap_tasks (put_runner k ru st) = ap_tasks st" "ap_ledger (put_runner k ru st) = ap_ledger st"
  by (simp_all add: put_runner_def)

lemma stored_put_runner [simp]: "stored P (put_runner k ru st) job_id r = stored P st job_id r"
  by (simp add: stored_def)

lemma store_ok_put_runner [simp]: "store_ok P (put_runner k ru st) = store_ok P st"
  by (simp add: store_ok_def)

lemma stored_save_records:
  assumes "list_all (\<lambda>r. jr_job_id r = job_id) rs"
  shows "k \<noteq> job_id \<or> rs = [] \<Longrightarrow> stored P (save_records P rs st) k r = stored P st k r"
    and "rs \<noteq> [] \<Longrightarrow> store_ok P st \<Longrightarrow> stored P (save_records P rs st) job_id (last rs)"
  using fold_saves_get [OF assms] by (auto simp: stored_def save_records_def store_ok_def)

lemma store_ok_save_records:
  assumes "store_ok P st" "list_all (\<lambda>r. jr_job_id r = job_id \<and> record_json_ok r) rs"
  shows "store_ok P (save_records P rs st)"
proof -
  obtain db where db: "ap_store st = Some db" and ok: "\<And>k raw. dict_get db k = Some raw \<Longrightarrow>
      \<exists>r. raw = record_to_json (ae_dumps (pe_api P)) r \<and> jr_job_id r = k \<and> record_json_ok r"
    using assms(1) by (auto simp: store_ok_def)
  have ids: "list_all (\<lambda>r. jr_job_id r = job_id) rs" using assms(2) by (simp add: list_all_iff)
  have "rs \<noteq> [] \<Longrightarrow> jr_job_id (last rs) = job_id \<and> record_json_ok (last rs)"
    using assms(2) by (simp add: list_all_iff)
  then show ?thesis
    using db ok by (auto simp: store_ok_def save_records_def fold_saves_get [OF ids] split: if_splits)
qed

text \<open>A turn of one job: its runner is replaced and records of it are saved.\<close>

lemma task_ok_put_runner [simp]: "task_ok P (put_runner k ru st) job_id ru' = task_ok P st job_id ru'"
  by (simp add: task_ok_def split: option.split)

lemma task_turn_inv:
  assumes "app_inv P st" "list_all (\<lambda>r. jr_job_id r = job_id \<and> record_json_ok r) rs"
    and "task_ok P (save_records P rs st) job_id ru"
  shows "app_inv P (put_runner job_id ru (save_records P rs st))"
proof -
  have ids: "list_all (\<lambda>r. jr_job_id r = job_id) rs" using assms(2) by (simp add: list_all_iff)
  have others: "task_ok P (save_records P rs st) k ru'"
    if "k \<noteq> job_id" "dict_get (ap_runners st) k = Some ru'" for k ru'
    using app_invD [OF assms(1) that(2)] stored_save_records(1) [OF ids] that(1)
    by (auto simp: task_ok_def split: option.splits)
  have "store_ok P (save_records P rs st)"
    using assms(1) store_ok_save_records [OF _ assms(2)] by (simp add: app_inv_def)
  then show ?thesis
    using assms(1,3) others by (simp add: app_inv_def runners_ok_def)
qed

section \<open>Submission\<close>

lemma submit_provider_total:
  assumes "ap_has_client st"
  obtains p where "submit_provider st config = Inr p"
  using assms that
  by (cases "is_live (ap_settings st)"; cases "ap_mock_factory st") (auto simp: submit_provider_def Let_def)

lemma submit_job_cases:
  assumes "ap_has_client st" "ap_store st = Some db"
  obtains e where "submit_checks A fs b st = Inl e" "submit_job A fs job_id t0 t1 b st = (Inl e, st)"
  | config p resp where "submit_checks A fs b st = Inr config"
    "submit_job A fs job_id t0 t1 b st = (Inr resp,
       st\<lparr>ap_store := Some (sqlite_save (ae_dumps A) (submitted_record A job_id t0 t1 config st) db),
         ap_runners := dict_set job_id (new_runner st (submitted_record A job_id t0 t1 config st) p) (ap_runners st),
         ap_tasks := dict_set job_id (is_live (ap_settings st)) (ap_tasks st)\<rparr>)"
proof (cases "submit_checks A fs b st")
  case (Inl e)
  then show ?thesis using that(1) by (simp add: submit_job_def)
next
  case (Inr config)
  obtain p where "submit_provider (st\<lparr>ap_store := Some (sqlite_create (ae_dumps A)
      (submitted_record A job_id t0 t1 config st) db)\<rparr>) config = Inr p"
    using submit_provider_total [of "st\<lparr>ap_store := Some (sqlite_create (ae_dumps A)
      (submitted_record A job_id t0 t1 config st) db)\<rparr>" config] assms(1) by auto
  then show ?thesis
    using that(2) [OF Inr] Inr assms(2)
    by (simp add: submit_job_def the_store_def submitted_record_def sqlite_create_def new_runner_def Let_def)
qed

lemma concurrency_positive:
  assumes "submit_request_valid b"
  shows "0 < job_concurrency (submit_config s cap b) rpm"
proof -
  have "2 \<le> default_concurrency rpm" by (simp add: default_concurrency_def Let_def)
  then show ?thesis
    using assms
    by (auto simp: job_concurrency_def submit_config_def submit_request_valid_def py_or_int_def
        split: option.splits)
qed

lemma submitted_task_ok:
  assumes "submit_checks A fs b st = Inr config" "submit_request_valid b" "0 < st_rate_limit_rpm (ap_settings st)"
  shows "submitted_ok job_id (new_runner st (submitted_record A job_id t0 t1 config st) p)"
    "record_json_ok (submitted_record A job_id t0 t1 config st)"
    "jr_job_id (submitted_record A job_id t0 t1 config st) = job_id"
proof -
  obtain cap where "config = submit_config (ap_settings st) cap b"
    using submit_checks_Inr [OF assms(1)] by blast
  then show "submitted_ok job_id (new_runner st (submitted_record A job_id t0 t1 config st) p)"
    using assms(3) concurrency_positive [OF assms(2)]
    by (simp add: submitted_ok_def new_runner_def submitted_record_def new_job_record_def fresh_record_def Let_def)
  show "record_json_ok (submitted_record A job_id t0 t1 config st)"
    "jr_job_id (submitted_record A job_id t0 t1 config st) = job_id"
    by (simp_all add: submitted_record_def new_job_record_def record_json_ok_def)
qed

text \<open>An accepted submission is a save of its record and a new runner.\<close>

lemma submit_as_turn:
  assumes "ap_store st = Some db"
  shows "st\<lparr>ap_store := Some (sqlite_save (ae_dumps (pe_api P)) r db),
       ap_runners := dict_set job_id ru (ap_runners st), ap_tasks := ts\<rparr> =
    (put_runner job_id ru (save_records P [r] st))\<lparr>ap_tasks := ts\<rparr>"
  using assms by (simp add: put_runner_def save_records_def)

lemma app_inv_tasks [simp]:
  "app_inv P (st\<lparr>ap_tasks := ts\<rparr>) = app_inv P st" "app_inv P (st\<lparr>ap_ledger := ledger\<rparr>) = app_inv P st"
  by (simp_all add: app_inv_def runners_ok_def store_ok_def task_ok_def stored_def split: option.split)

lemma submit_app_inv:
  assumes "app_inv P st" "submit_request_valid b"
  shows "app_inv P (snd (submit_job (pe_api P) fs job_id t0 t1 b st))"
proof -
  obtain db where db: "ap_store st = Some db" and client: "ap_has_client st"
    and rpm: "0 < st_rate_limit_rpm (ap_settings st)"
    using assms(1) by (auto simp: app_inv_def store_ok_def)
  show ?thesis
  proof (rule submit_job_cases [OF client db, of "pe_api P" fs b job_id t0 t1])
    fix config p resp
    assume job: "submit_checks (pe_api P) fs b st = Inr config"
      "submit_job (pe_api P) fs job_id t0 t1 b st = (Inr resp,
       st\<lparr>ap_store := Some (sqlite_save (ae_dumps (pe_api P)) (submitted_record (pe_api P) job_id t0 t1 config st) db),
         ap_runners := dict_set job_id (new_runner st (submitted_record (pe_api P) job_id t0 t1 config st) p) (ap_runners st),
         ap_tasks := dict_set job_id (is_live (ap_settings st)) (ap_tasks st)\<rparr>)"
    let ?r = "submitted_record (pe_api P) job_id t0 t1 config st"
    let ?ru = "new_runner st ?r p"
    note ok = submitted_task_ok [OF job(1) assms(2) rpm, of job_id t0 t1]
    have "stored P (save_records P [?r] st) job_id ?r"
      by (simp add: stored_def save_records_def db sqlite_save_def ok(3))
    moreover have "ru_job ?ru = None" "ru_record ?ru = ?r"
      by (simp_all add: new_runner_def Let_def)
    ultimately have "task_ok P (save_records P [?r] st) job_id ?ru"
      using ok(1) by (simp add: task_ok_def)
    then show ?thesis
      using task_turn_inv [OF assms(1), of job_id "[?r]" ?ru] ok(2,3)
      by (simp add: job(2) submit_as_turn [OF db])
  qed (simp add: assms(1))
qed

section \<open>The turns of a job\<close>

lemma parsed_ok:
  "iter_items_sync py_repr loads ijson_items content = (rows, err) \<Longrightarrow> rows_ok rows"
  using iter_items_ok by (intro ingest_rows_ok) blast

lemma runner_start_job:
  assumes "submitted_ok job_id ru" "ru_job ru = None" "rows_ok rows"
  obtains s where "ru_job (runner_start prior nb ns rows err ru) = Some s"
    "runs_job P (runner_start prior nb ns rows err ru) s" "length (js_saves s) = 1"
    "submitted_ok job_id (runner_start prior nb ns rows err ru)"
    "job_reaches (job_env_of P ru) (ru_record ru) (ru_rate_limit_rpm ru) rows s"
proof -
  let ?begun = "start_run (ru_record ru) (ru_rate_limit_rpm ru) (ru_circuit_cooldown_s ru)
    (ru_retry_base_s ru) (ru_retry_cap_s ru) prior nb ns rows err"
  let ?first = "if ru_cancelled ru then cancel_job_event ?begun else ?begun"
  have start: "job_reaches E (ru_record ru) (ru_rate_limit_rpm ru) rows ?begun" for E
    using assms(1,3) unfolding job_reaches_def submitted_ok_def by (blast intro: reachable.start)
  have reach: "job_reaches E (ru_record ru) (ru_rate_limit_rpm ru) rows ?first" for E
    using start job_reaches_step [OF start, of E L_cancel] by simp
  have "length (js_saves ?first) = 1"
    by (simp add: start_run_def Let_def cancel_job_event_def)
  then show ?thesis
    using that [of ?first] reach assms(1)
    by (auto simp: runner_start_def Let_def runs_job_def submitted_ok_def)
qed

lemma job_saves:
  assumes "runs_job P ru s" "submitted_ok job_id ru"
  shows "saves_inv (ru_record ru) s"
    "list_all (\<lambda>r. jr_job_id r = job_id \<and> record_json_ok r) (js_saves s)"
proof -
  show inv: "saves_inv (ru_record ru) s"
    using assms job_reaches_saves by (auto simp: runs_job_def submitted_ok_def)
  then show "list_all (\<lambda>r. jr_job_id r = job_id \<and> record_json_ok r) (js_saves s)"
    using assms(2) by (auto simp: saves_inv_def same_job_def submitted_ok_def list_all_iff)
qed

lemma start_app_inv:
  assumes "app_inv P (pr_app p)" "start_task P job_id prior nb ns content p = Some p'"
  shows "app_inv P (pr_app p')"
proof -
  obtain ru where ru: "dict_get (ap_runners (pr_app p)) job_id = Some ru" "ru_job ru = None"
    using assms(2) by (auto simp: start_task_def split: option.splits if_splits)
  obtain rows err where rows: "iter_items_sync (pe_py_repr P) (pe_json_line P) (pe_ijson P) content = (rows, err)"
    by fastforce
  have task: "submitted_ok job_id ru"
    using app_invD [OF assms(1) ru(1)] by (simp add: task_ok_def)
  obtain s where s: "ru_job (runner_start prior nb ns rows err ru) = Some s"
    "runs_job P (runner_start prior nb ns rows err ru) s" "length (js_saves s) = 1"
    "submitted_ok job_id (runner_start prior nb ns rows err ru)"
    by (rule runner_start_job [OF task ru(2) parsed_ok [OF rows], where P = P])
  let ?ru = "runner_start prior nb ns rows err ru"
  note saves = job_saves(2) [OF s(2,4)]
  have store: "store_ok P (pr_app p)" using assms(1) by (simp add: app_inv_def)
  have "js_saves s \<noteq> []" using s(3) by auto
  then have "stored P (save_records P (js_saves s) (pr_app p)) job_id (last (js_saves s))"
    using saves store by (intro stored_save_records(2)) (auto simp: list_all_iff)
  then have "task_ok P (save_records P (js_saves s) (pr_app p)) job_id ?ru"
    using s by (simp add: task_ok_def)
  then show ?thesis
    using task_turn_inv [OF assms(1) saves, of ?ru] assms(2) ru rows s(1)
    by (auto simp: start_task_def on_app_def)
qed

lemma running_jobD:
  assumes "running_job p job_id = Some (ru, s)"
  shows "dict_get (ap_runners (pr_app p)) job_id = Some ru" "ru_job ru = Some s" "job_id \<notin> set (pr_ended p)"
  using assms by (auto simp: running_job_def split: if_splits option.splits)

lemma job_env_of_job [simp]:
  "job_env_of P (ru\<lparr>ru_job := j\<rparr>) = job_env_of P ru" "job_env_of P (ru\<lparr>ru_cancelled := c\<rparr>) = job_env_of P ru"
  by (simp_all add: job_env_of_def)

text \<open>What a turn of the job saves, and that its runner stays one.\<close>

lemma sys_step_task:
  assumes "sys_step (job_env_of P ru) l s = Some s'" "runs_job P ru s" "submitted_ok job_id ru"
  shows "runs_job P (ru\<lparr>ru_job := Some s'\<rparr>) s'" "submitted_ok job_id (ru\<lparr>ru_job := Some s'\<rparr>)"
    "drop (length (js_saves s)) (js_saves s') = [] \<and> js_saves s' = js_saves s \<or>
     drop (length (js_saves s)) (js_saves s') = [last (js_saves s')]"
proof -
  obtain rows where reach: "job_reaches (job_env_of P ru) (ru_record ru) (ru_rate_limit_rpm ru) rows s"
    using assms(2) by (auto simp: runs_job_def)
  show "runs_job P (ru\<lparr>ru_job := Some s'\<rparr>) s'"
    using job_reaches_step [OF reach assms(1)] by (auto simp: runs_job_def)
  show "submitted_ok job_id (ru\<lparr>ru_job := Some s'\<rparr>)"
    using assms(3) by (simp add: submitted_ok_def)
  have "saves_one s s'"
    using sys_step_saves [OF assms(1) job_reaches_inv [OF reach]] by blast
  then show "drop (length (js_saves s)) (js_saves s') = [] \<and> js_saves s' = js_saves s \<or>
     drop (length (js_saves s)) (js_saves s') = [last (js_saves s')]"
    by (auto simp: saves_one_def)
qed

lemma turn_app_inv:
  assumes "app_inv P (pr_app p)" "job_turn P job_id l p = Some p'"
  shows "app_inv P (pr_app p')"
proof -
  obtain ru s s' where run: "running_job p job_id = Some (ru, s)"
    and step: "sys_step (job_env_of P ru) l s = Some s'"
    and p': "pr_app p' = put_runner job_id (ru\<lparr>ru_job := Some s'\<rparr>)
      (save_records P (drop (length (js_saves s)) (js_saves s')) (pr_app p))"
    using assms(2) by (auto simp: job_turn_def on_app_def split: option.splits)
  have task: "submitted_ok job_id ru" "runs_job P ru s" "stored P (pr_app p) job_id (last (js_saves s))"
    using app_invD [OF assms(1) running_jobD(1) [OF run]] running_jobD(2) [OF run] by (simp_all add: task_ok_def)
  note turn = sys_step_task [OF step task(2,1)]
  let ?new = "drop (length (js_saves s)) (js_saves s')"
  have saves: "list_all (\<lambda>r. jr_job_id r = job_id \<and> record_json_ok r) ?new"
    using job_saves(2) [OF turn(1,2)] by (auto simp: list_all_iff dest: in_set_dropD)
  then have ids: "list_all (\<lambda>r. jr_job_id r = job_id) ?new"
    by (simp add: list_all_iff)
  have store: "store_ok P (pr_app p)" using assms(1) by (simp add: app_inv_def)
  have "stored P (save_records P ?new (pr_app p)) job_id (last (js_saves s'))"
    using turn(3)
  proof
    assume "?new = [] \<and> js_saves s' = js_saves s"
    then show ?thesis using stored_save_records(1) [OF ids] task(3) by simp
  next
    assume "?new = [last (js_saves s')]"
    then show ?thesis using stored_save_records(2) [OF ids _ store] by simp
  qed
  then have "task_ok P (save_records P ?new (pr_app p)) job_id (ru\<lparr>ru_job := Some s'\<rparr>)"
    using turn(1,2) by (simp add: task_ok_def)
  then show ?thesis
    using task_turn_inv [OF assms(1) saves] by (simp add: p')
qed

section \<open>Cancellation\<close>

lemma save_no_records: "ap_store st \<noteq> None \<Longrightarrow> save_records P [] st = st"
  by (cases st) (auto simp: save_records_def)

lemma cancel_job_state:
  "snd (cancel_job A now job_id st) =
     (case dict_get (ap_runners st) job_id of None \<Rightarrow> st | Some ru \<Rightarrow> put_runner job_id (runner_cancel ru) st)"
  by (auto simp: cancel_job_def put_runner_def split: option.split sum.split)

lemma cancel_task_ok:
  assumes "task_ok P st job_id ru"
  shows "task_ok P st job_id (runner_cancel ru)"
proof (cases "ru_job ru")
  case None
  then show ?thesis using assms by (simp add: task_ok_def runner_cancel_def submitted_ok_def)
next
  case (Some s)
  then obtain rows where "job_reaches (job_env_of P ru) (ru_record ru) (ru_rate_limit_rpm ru) rows s"
    using assms by (auto simp: task_ok_def runs_job_def)
  from job_reaches_step [OF this, of L_cancel] have "runs_job P (runner_cancel ru) (cancel_job_event s)"
    by (auto simp: runs_job_def runner_cancel_def)
  then show ?thesis
    using assms Some by (simp add: task_ok_def runner_cancel_def submitted_ok_def cancel_job_event_def)
qed

lemma cancel_app_inv:
  assumes "app_inv P st"
  shows "app_inv P (snd (cancel_job A now job_id st))"
proof (cases "dict_get (ap_runners st) job_id")
  case None
  then show ?thesis using assms by (simp add: cancel_job_state)
next
  case (Some ru)
  have keep: "save_records P [] st = st"
    using assms by (intro save_no_records) (auto simp: app_inv_def store_ok_def)
  from cancel_task_ok [OF app_invD [OF assms Some]] show ?thesis
    using task_turn_inv [OF assms, of job_id "[]"] Some by (simp add: cancel_job_state keep)
qed

section \<open>The end of a task and of the process\<close>

text \<open>The ledger is all that changes.\<close>

definition only_ledger :: "app_state \<Rightarrow> app_state \<Rightarrow> bool" where
  "only_ledger st st' \<longleftrightarrow> st' = st\<lparr>ap_ledger := ap_ledger st'\<rparr>"

lemma only_ledger_refl [simp]: "only_ledger st st"
  by (cases st) (simp add: only_ledger_def)

lemma only_ledger_trans: "only_ledger st1 st2 \<Longrightarrow> only_ledger st2 st3 \<Longrightarrow> only_ledger st1 st3"
  by (cases st1; cases st2; cases st3) (simp add: only_ledger_def)

lemma only_ledger_inv: "only_ledger st st' \<Longrightarrow> app_inv P st' = app_inv P st"
  unfolding only_ledger_def by (metis app_inv_tasks(2))

lemma only_ledger_fields:
  assumes "only_ledger st st'"
  shows "ap_store st' = ap_store st" "ap_runners st' = ap_runners st" "ap_settings st' = ap_settings st"
    "ap_tasks st' = ap_tasks st" "ap_has_client st' = ap_has_client st"
  using assms by (cases st; cases st'; simp add: only_ledger_def)+

lemma settle_only_ledger: "only_ledger st (snd (run_and_settle A live r st))"
proof (cases "record_spend (ae_dumps A) (ae_loads A) (ae_parse_float A) (ut_estimated_cost_usd (jr_usage r)) (ap_ledger st)")
  case (Inl e)
  then show ?thesis by (simp add: run_and_settle_def)
next
  case (Inr x)
  then show ?thesis by (cases x) (simp add: run_and_settle_def only_ledger_def)
qed

lemma settle_task_ledger: "only_ledger (pr_app p) (pr_app (settle_task P job_id ru p))"
  using settle_only_ledger [of "pr_app p" "pe_api P" "dict_get (ap_tasks (pr_app p)) job_id = Some True" "runner_record ru"]
  by (simp add: settle_task_def Let_def case_prod_beta)

lemma stop_task_ledger: "only_ledger (pr_app p) (pr_app (stop_task P job_id p))"
  by (simp add: stop_task_def settle_task_ledger split: option.split)

lemma stop_tasks_ledger: "only_ledger (pr_app p) (pr_app (fold (stop_task P) ids p))"
proof (induction ids arbitrary: p)
  case (Cons k ids)
  then show ?case using only_ledger_trans [OF stop_task_ledger Cons] by simp
qed simp

lemma lifespan_stop_ledger: "only_ledger (pr_app p) (pr_app (lifespan_stop P p))"
  by (simp add: lifespan_stop_def stop_tasks_ledger)

lemma proc_restart_app:
  "\<exists>ledger. pr_app (proc_restart P graceful s p) = lifespan_start s (ap_store (pr_app p)) ledger"
  using only_ledger_fields(1) [OF lifespan_stop_ledger [of p P]]
  by (cases graceful) (auto simp: proc_restart_def Let_def)

lemma lifespan_start_inv:
  assumes "0 < st_rate_limit_rpm s"
  shows "app_inv P (lifespan_start s None ledger)"
    and "app_inv P st \<Longrightarrow> app_inv P (lifespan_start s (ap_store st) ledger)"
  using assms
  by (auto simp: app_inv_def lifespan_start_def new_app_state_def store_ok_def runners_ok_def sqlite_init_def)

lemma finish_app_inv:
  assumes "app_inv P (pr_app p)" "finish_task P job_id ans draw p = Some p'"
  shows "app_inv P (pr_app p')"
proof -
  obtain ru posts where "p' = settle_task P job_id ru (p\<lparr>pr_posts := pr_posts p @ [(job_id, posts)]\<rparr>)"
    using assms(2) by (auto simp: finish_task_def Let_def split: option.splits if_splits)
  then show ?thesis
    using assms(1) only_ledger_inv [OF settle_task_ledger [of "p\<lparr>pr_posts := pr_posts p @ [(job_id, posts)]\<rparr>" P job_id ru]]
    by simp
qed

section \<open>Every reachable state\<close>

lemma proc_step_inv:
  assumes "proc_step P l p = Some p'" "label_ok p l" "app_inv P (pr_app p)"
  shows "app_inv P (pr_app p')"
proof (cases l)
  case (PL_submit fs job_id t0 t1 b)
  then show ?thesis using assms submit_app_inv by (auto simp: on_app_def split: if_splits)
next
  case (PL_start job_id prior nb ns content)
  then show ?thesis using assms start_app_inv by simp
next
  case (PL_turn job_id l)
  then show ?thesis using assms turn_app_inv by (auto split: if_splits)
next
  case (PL_finish job_id ans draw)
  then show ?thesis using assms finish_app_inv by simp
next
  case (PL_cancel job_id now)
  then show ?thesis using assms cancel_app_inv by (auto simp: on_app_def)
next
  case (PL_restart graceful s)
  then have rpm: "0 < st_rate_limit_rpm s" and p': "p' = proc_restart P graceful s p"
    using assms by auto
  obtain ledger where "pr_app p' = lifespan_start s (ap_store (pr_app p)) ledger"
    using proc_restart_app p' by blast
  then show ?thesis using lifespan_start_inv(2) [OF rpm assms(3)] by simp
qed

lemma proc_reaches_inv:
  "proc_reaches P p0 p \<Longrightarrow> app_inv P (pr_app p0) \<Longrightarrow> app_inv P (pr_app p)"
  by (induction rule: proc_reaches.induct) (auto intro: proc_step_inv)

text \<open>A service that starts without a database, and what it reaches.\<close>

definition service_reaches :: "proc_env \<Rightarrow> settings \<Rightarrow> string option \<Rightarrow> process \<Rightarrow> bool" where
  "service_reaches P s ledger p \<longleftrightarrow>
     0 < st_rate_limit_rpm s \<and> proc_reaches P (proc_start s None ledger) p"

lemma service_inv: "service_reaches P s ledger p \<Longrightarrow> app_inv P (pr_app p)"
  using proc_reaches_inv lifespan_start_inv(1) by (auto simp: service_reaches_def proc_start_def)

lemma service_reaches_step:
  "service_reaches P s ledger p \<Longrightarrow> label_ok p l \<Longrightarrow> proc_step P l p = Some p' \<Longrightarrow> service_reaches P s ledger p'"
  unfolding service_reaches_def by (blast intro: proc_reaches.step)

lemma service_reaches_later:
  "service_reaches P s ledger p \<Longrightarrow> proc_reaches P p p' \<Longrightarrow> service_reaches P s ledger p'"
  unfolding service_reaches_def by (blast intro: proc_reaches_trans)

end
