(* ===== verification/ProcessDemo.thy ===== *)
theory ProcessDemo
  imports ProcessInv
begin

text \<open>
  A service for the examples: two live jobs are submitted, one of them runs over an empty file to its end,
  the process restarts before the other has begun.
\<close>

section \<open>The service\<close>

definition public_hooks :: hook_env where
  "public_hooks = demo_hooks\<lparr>he_getaddrinfo := (\<lambda>h. Inr [IPv6
     \<lparr>ip_is_private = False, ip_is_loopback = False, ip_is_link_local = False, ip_is_reserved = False,
      ip_is_multicast = False\<rparr>])\<rparr>"

definition demo_service :: "(json \<Rightarrow> string) \<Rightarrow> (string \<Rightarrow> json option) \<Rightarrow> proc_env" where
  "demo_service dumps loads =
     \<lparr>pe_api = demo_api\<lparr>ae_dumps := dumps, ae_loads := loads\<rparr>, pe_hooks = public_hooks,
      pe_exn_repr = (\<lambda>e. []), pe_py_repr = (\<lambda>v. []), pe_json_line = (\<lambda>l. Inl ''bad''),
      pe_ijson = (\<lambda>c. ([], None))\<rparr>"

lemma demo_service_faithful: "python_json (pe_api (demo_service demo_dumps demo_loads))"
  using demo_repr_faithful by (auto simp: python_json_def demo_service_def)

text \<open>A run along given labels.\<close>

fun proc_run :: "proc_env \<Rightarrow> proc_label list \<Rightarrow> process \<Rightarrow> process option" where
  "proc_run P [] p = Some p"
| "proc_run P (l # ls) p =
     (if label_ok p l
      then (case proc_step P l p of None \<Rightarrow> None | Some p' \<Rightarrow> proc_run P ls p') else None)"

lemma proc_run_reaches: "proc_run P ls p = Some p' \<Longrightarrow> proc_reaches P p0 p \<Longrightarrow> proc_reaches P p0 p'"
  by (induction ls arbitrary: p) (auto split: option.splits if_splits intro: proc_reaches.step)

lemma proc_run_append: "proc_run P (xs @ ys) p =
    (case proc_run P xs p of None \<Rightarrow> None | Some p' \<Rightarrow> proc_run P ys p')"
  by (induction xs arbitrary: p) (auto split: option.split)

lemma proc_run_take: "proc_run P ls p \<noteq> None \<Longrightarrow> proc_run P (take k ls) p = Some (the (proc_run P (take k ls) p))"
  using proc_run_append [of P "take k ls" "drop k ls" p] by (auto split: option.splits)

lemma proc_run_rest: "proc_run P (xs @ ys) p = Some p2 \<Longrightarrow> proc_run P xs p = Some p1 \<Longrightarrow> proc_run P ys p1 = Some p2"
  by (simp add: proc_run_append)

definition demo_settings :: settings where
  "demo_settings = default_settings\<lparr>st_do_inference_key := Some ''key''\<rparr>"

definition hooked_request :: submit_request where
  "hooked_request = demo_request\<lparr>sq_webhook_url := Some ''h''\<rparr>"

definition demo_service_labels :: "proc_label list" where
  "demo_service_labels =
     [PL_submit demo_files ''id'' 1 1 hooked_request, PL_submit demo_files ''id2'' 1 1 demo_request,
      PL_start ''id'' [] 2 2 []]
     @ map (PL_turn ''id'') [L_run 3, L_run 3, L_run 3, L_run 3, L_worker 0 (E_resume (demo_at 3)),
         L_worker 1 (E_resume (demo_at 3)), L_run 4, L_sink 4, L_run 5, L_run 6]
     @ [PL_finish ''id'' (\<lambda>k. Hook_status 204) (\<lambda>k. 0), PL_cancel ''id'' 7, PL_restart False demo_settings]"

definition service_state :: "nat \<Rightarrow> process" where
  "service_state k = the (proc_run (demo_service demo_dumps demo_loads) (take k demo_service_labels)
     (proc_start demo_settings None None))"

text \<open>It runs whatever the \<open>json\<close> module does.\<close>

lemma service_runs: "proc_run (demo_service dumps loads) demo_service_labels (proc_start demo_settings None None) \<noteq> None"
  by code_simp

lemma service_state_run:
  "proc_run (demo_service demo_dumps demo_loads) (take k demo_service_labels)
     (proc_start demo_settings None None) = Some (service_state k)"
  unfolding service_state_def by (rule proc_run_take [OF service_runs])

lemma service_state_reaches:
  "service_reaches (demo_service demo_dumps demo_loads) demo_settings None (service_state k)"
  using proc_run_reaches [OF service_state_run proc_reaches.start]
  by (simp add: service_reaches_def demo_settings_def default_settings_def)

text \<open>From one state of the run to a later one.\<close>

lemma service_state_later:
  assumes "k \<le> m"
  shows "proc_reaches (demo_service demo_dumps demo_loads) (service_state k) (service_state m)"
proof -
  have "take m demo_service_labels = take k demo_service_labels @ drop k (take m demo_service_labels)"
    using assms append_take_drop_id [of k "take m demo_service_labels"] by (simp add: min_absorb1)
  then have "proc_run (demo_service demo_dumps demo_loads) (drop k (take m demo_service_labels))
      (service_state k) = Some (service_state m)"
    using service_state_run [of m] proc_run_rest [OF _ service_state_run [of k]] by metis
  then show ?thesis
    using proc_reaches.start by (rule proc_run_reaches)
qed

lemma service_state_step:
  assumes "k < length demo_service_labels"
  shows "proc_step (demo_service demo_dumps demo_loads) (demo_service_labels ! k) (service_state k) =
    Some (service_state (Suc k)) \<and> label_ok (service_state k) (demo_service_labels ! k)"
proof -
  have "take (Suc k) demo_service_labels = take k demo_service_labels @ [demo_service_labels ! k]"
    using assms by (rule take_Suc_conv_app_nth)
  then have "proc_run (demo_service demo_dumps demo_loads) [demo_service_labels ! k] (service_state k) =
      Some (service_state (Suc k))"
    using service_state_run [of "Suc k"] proc_run_rest [OF _ service_state_run [of k]] by metis
  then show ?thesis by (auto split: if_splits option.splits)
qed

text \<open>How far the first job is, and what the ledger got.\<close>

abbreviation service_at :: "(json \<Rightarrow> string) \<Rightarrow> (string \<Rightarrow> json option) \<Rightarrow> nat \<Rightarrow> process" where
  "service_at dumps loads k \<equiv> the (proc_run (demo_service dumps loads) (take k demo_service_labels)
     (proc_start demo_settings None None))"

lemma service_facts:
  "map_option (js_run \<circ> snd) (running_job (service_at dumps loads 3) ''id'') = Some R_ingest \<and>
   map_option (js_run \<circ> snd) (running_job (service_at dumps loads 13) ''id'') = Some R_done \<and>
   map_option (jr_status \<circ> the_record \<circ> snd) (running_job (service_at dumps loads 13) ''id'') = Some JS_SUCCEEDED \<and>
   map_option ru_job (dict_get (ap_runners (pr_app (service_at dumps loads 15))) ''id2'') = Some None \<and>
   map fst (ap_runners (pr_app (service_at dumps loads 3))) = [''id'', ''id2''] \<and>
   map_option ru_job (dict_get (ap_runners (pr_app (service_at dumps loads 3))) ''id2'') = Some None \<and>
   unused_id ''id'' (pr_app (service_at dumps loads 0)) \<and>
   \<not> isl (fst (submit_job (pe_api (demo_service dumps loads)) demo_files ''id'' 1 1 hooked_request
      (pr_app (service_at dumps loads 0)))) \<and>
   pr_costs (service_at dumps loads 14) = [(''id'', 0)] \<and> map (map_prod id length) (pr_posts (service_at dumps loads 16)) = [(''id'', 1)] \<and>
   pr_ended (service_at dumps loads 15) = [''id'']"
  by code_simp

lemma service_state_at: "service_state k = service_at demo_dumps demo_loads k"
  by (simp add: service_state_def)

end
