(* ===== verification/JobStop.thy ===== *)
theory JobStop
  imports JobEnd
begin

text \<open>
  The stop after an abort or a cancellation: nothing more is ingested, and the only calls still made
  are those of workers that already wait for a rate-limit token.
\<close>

section \<open>One worker after the stop\<close>

definition stopped :: "wctx \<Rightarrow> bool" where
  "stopped c \<longleftrightarrow> wc_cancel_event c \<or> wc_abort_event c"

text \<open>A worker that passed the checks at the top of the loop and waits for its token.\<close>

fun may_call :: "wpc \<Rightarrow> int" where
  "may_call (W_acquire_sleep it a w) = 1"
| "may_call _ = 0"

text \<open>A stretch of code that neither calls the provider nor enters the wait for a token.\<close>

definition no_dispatch :: "wctx \<Rightarrow> wctx \<times> wpc \<Rightarrow> bool" where
  "no_dispatch c r \<longleftrightarrow> wc_calls (fst r) = wc_calls c \<and> may_call (snd r) = 0"

lemma no_dispatch_finished:
  "wc_calls c1 = wc_calls c \<Longrightarrow> may_call next = 0 \<Longrightarrow> no_dispatch c (item_finished next c1)"
  by (simp add: no_dispatch_def item_finished_def split: option.split)

lemma no_dispatch_emit:
  "wc_calls c1 = wc_calls c \<Longrightarrow> no_dispatch c (item_finished W_get (emit_error i k m a h c1))"
  by (rule no_dispatch_finished) (simp_all add: emit_error_def frame)

lemma no_dispatch_escaped: "no_dispatch c (item_escaped it c)"
  unfolding item_escaped_def by (rule no_dispatch_emit) simp

lemma no_dispatch_stopped: "stopped c \<Longrightarrow> no_dispatch c (item_top env c it a)"
  by (auto simp: stopped_def item_top_def Let_def no_dispatch_emit)

lemma no_dispatch_retry:
  "wc_calls c1 = wc_calls c \<Longrightarrow> no_dispatch c (retry_or_exhaust env c1 it a k m h)"
  by (auto simp: retry_or_exhaust_def Let_def no_dispatch_emit split: prod.split)
    (auto simp: no_dispatch_def)

lemma no_dispatch_fatal:
  "wc_calls c1 = wc_calls c \<Longrightarrow> no_dispatch c (item_fatal c1 it a k h)"
  by (simp add: item_fatal_def Let_def no_dispatch_emit)

lemma no_dispatch_succeeded:
  assumes "wc_calls c1 = wc_calls c"
  shows "no_dispatch c (item_succeeded (on_spend_check fmt prices) env c1 it a l r)"
  unfolding item_succeeded_def Let_def
  by (rule no_dispatch_finished) (simp_all add: pool.osc_frame submit_row_def assms)

lemma no_dispatch_after_call:
  assumes "wc_calls c1 = wc_calls c"
  shows "no_dispatch c (after_call xr pf (on_spend_check fmt prices) env c1 it a t r e)"
  using assms
  by (auto simp: after_call_def Let_def no_dispatch_fatal no_dispatch_succeeded no_dispatch_retry
      item_escaped_def no_dispatch_emit split: sum.split option.split)
    (auto simp: no_dispatch_def)

lemma worker_get_stopped:
  "worker_get env c = Some r \<Longrightarrow> stopped c \<Longrightarrow> no_dispatch c r"
  using no_dispatch_stopped
  by (auto simp: worker_get_def Let_def stopped_def item_finished_def frame no_dispatch_def
      split: option.splits qitem.splits parsed.splits)

lemma worker_step_idle:
  assumes "worker_step xr pf (on_spend_check fmt prices) ev c pc = Some r" "stopped c"
    and "\<nexists>it a w env. pc = W_acquire_sleep it a w \<and> ev = E_resume env"
  shows "no_dispatch c r"
proof -
  have calls: "wc_calls (call_finished c) = wc_calls c"
    by (simp add: call_finished_def)
  have fin: "no_dispatch c (item_finished (W_cancelled x) c)"
    "no_dispatch c (item_finished (W_cancelled x) (call_finished c))" for x
    by (rule no_dispatch_finished; simp add: calls)+
  show ?thesis
    using assms
    by (cases "(xr, pf, on_spend_check fmt prices, ev, c, pc)" rule: worker_step.cases)
      (auto simp: Let_def worker_get_stopped no_dispatch_stopped no_dispatch_escaped fin
        no_dispatch_after_call [OF calls] no_dispatch_retry [OF refl]
        split: provider_outcome.splits if_splits, simp_all add: no_dispatch_def)
qed

lemma worker_step_stopped:
  assumes "worker_step xr pf (on_spend_check fmt prices) ev c pc = Some (c', pc')" "stopped c"
  shows "calls_made c' + may_call pc' \<le> calls_made c + may_call pc"
proof (cases "\<exists>it a w env. pc = W_acquire_sleep it a w \<and> ev = E_resume env")
  case True
  then show ?thesis
    using assms(1)
    by (auto simp: acquire_pass_def start_call_def calls_made_def Let_def
        split: prod.splits option.splits)
next
  case False
  then have "no_dispatch c (c', pc')"
    using worker_step_idle [OF assms] by blast
  then show ?thesis
    by (cases pc) (auto simp: no_dispatch_def calls_made_def)
qed

section \<open>The job after the stop\<close>

definition dispatchable :: "job_sys \<Rightarrow> int" where
  "dispatchable s = calls_made (js_ctx s) + sum_list (map may_call (js_workers s))"

lemma sys_step_stopped:
  assumes step: "sys_step E l s = Some s'" and inv: "job_inv E rows n s" and "stopped (js_ctx s)"
  shows "stopped (js_ctx s') \<and> dispatchable s' \<le> dispatchable s \<and>
    ingested (wc_counts (js_ctx s')) = ingested (wc_counts (js_ctx s))"
proof (cases l)
  case (L_run now)
  then have run: "run_step (je_prices E) now (js_run s) s = Some s'" using step by simp
  have "ingested (wc_counts (js_ctx s')) = ingested (wc_counts (js_ctx s))"
    using run assms(3)
    by (cases "js_run s"; cases "(je_prices E, now, js_run s, s)" rule: run_step.cases)
      (auto simp: run_defs Let_def stopped_def split: list.splits option.splits if_splits)
  then show ?thesis
    using run_step_frame [OF run] assms(3) by (simp add: stopped_def dispatchable_def calls_made_def)
next
  case (L_worker i ev)
  then have turn: "worker_turn E i ev s = Some s'" using step by simp
  obtain c' pc' where i: "i < length (js_workers s)" and s': "s' = worker_moved i c' pc' s"
    and w: "worker_step (je_exn_repr E) (je_parse_float E) (on_spend_check (je_fmt E) (je_prices E)) ev
      (js_ctx s) (js_workers s ! i) = Some (c', pc')"
    using turn by (auto simp: worker_turn_def split: if_splits option.splits)
  have "sum_list (map may_call ((js_workers s)[i := pc'])) =
      sum_list (map may_call (js_workers s)) + may_call pc' - may_call (js_workers s ! i)"
    by (rule sum_list_update_int [OF i])
  then have "dispatchable s' \<le> dispatchable s"
    using worker_step_stopped [OF w assms(3)] by (simp add: dispatchable_def s')
  then show ?thesis
    using worker_turn_frame [OF turn inv] assms(3) by (auto simp: stopped_def)
next
  case (L_sink now)
  then show ?thesis
    using step assms(3) sink_turn_of_frame [of "sink_turn (je_dumps E) now (wc_sink (js_ctx s))" s s']
    by (simp add: stopped_def dispatchable_def calls_made_def)
next
  case (L_sink_timeout now)
  then show ?thesis
    using step assms(3) sink_turn_of_frame [of "sink_timeout now (wc_sink (js_ctx s))" s s']
    by (simp add: stopped_def dispatchable_def calls_made_def)
next
  case L_cancel
  then show ?thesis
    using step by (auto simp: cancel_job_event_def stopped_def dispatchable_def calls_made_def)
qed

lemma sys_run_stopped:
  "sys_run E ls s = Some s' \<Longrightarrow> job_inv E rows n s \<Longrightarrow> stopped (js_ctx s) \<Longrightarrow>
   stopped (js_ctx s') \<and> dispatchable s' \<le> dispatchable s \<and>
   ingested (wc_counts (js_ctx s')) = ingested (wc_counts (js_ctx s))"
proof (induction ls arbitrary: s)
  case (Cons l ls)
  then obtain s1 where s1: "sys_step E l s = Some s1" "sys_run E ls s1 = Some s'"
    by (auto split: option.splits)
  from Cons.IH [OF s1(2) sys_step_inv [OF s1(1) Cons.prems(2)]]
    sys_step_stopped [OF s1(1) Cons.prems(2,3)]
  show ?case by auto
qed simp

text \<open>C20. An abort or a cancellation stops the job: from a state in which either event is set, however
  the job goes on, no further row is ingested, and the provider is called at most once more for
  each worker that was already waiting for a token (so at most \<open>concurrency\<close> times in all); every
  other row is resolved without a call.\<close>

theorem stop_is_prompt:
  assumes "job_reaches E record rpm rows s" "stopped (js_ctx s)" "sys_run E ls s = Some s'"
  shows "ingested (wc_counts (js_ctx s')) = ingested (wc_counts (js_ctx s)) \<and>
    int (length (wc_calls (js_ctx s')))
      \<le> int (length (wc_calls (js_ctx s))) + sum_list (map may_call (js_workers s)) \<and>
    sum_list (map may_call (js_workers s)) \<le> int (workers_of record rpm)"
proof -
  have inv: "job_inv E rows (workers_of record rpm) s"
    by (rule job_reaches_inv [OF assms(1)])
  have "0 \<le> may_call pc" "may_call pc \<le> 1" for pc
    by (cases pc; simp)+
  then have "sum_list (map may_call (js_workers s)) \<le> int (workers_of record rpm)"
    "0 \<le> sum_list (map may_call (js_workers s'))"
    using sum_list_le_length [where f = may_call and xs = "js_workers s" and k = 1]
      sum_list_nonneg_int [where f = may_call and xs = "js_workers s'"] length_workers_inv [OF inv]
    by simp_all
  then show ?thesis
    using sys_run_stopped [OF assms(3) inv assms(2)] by (simp add: dispatchable_def calls_made_def)
qed

text \<open>The demo job, cancelled while its first row waits for the provider.\<close>

definition demo_cancelled :: job_sys where
  "demo_cancelled = cancel_job_event (demo_state 10)"

theorem stop_is_prompt_witness:
  "length (wc_calls (js_ctx (the (sys_run demo_env [demo_reply 2 503, demo_resume 3, demo_resume 4,
     demo_resume 5] demo_cancelled)))) = 1"
proof -
  let ?ls = "[demo_reply 2 503, demo_resume 3, demo_resume 4, demo_resume 5]"
  let ?s = "the (sys_run demo_env ?ls demo_cancelled)"
  have reach: "job_reaches demo_env demo_record 60 demo_rows demo_cancelled"
    by (rule job_reaches_step [OF demo_reaches [of 10], of L_cancel]) (simp add: demo_cancelled_def)
  have "stopped (js_ctx demo_cancelled)"
    by (simp add: demo_cancelled_def cancel_job_event_def stopped_def)
  moreover have "sys_run demo_env ?ls demo_cancelled = Some ?s"
  proof -
    have "sys_run demo_env ?ls demo_cancelled \<noteq> None" by code_simp
    then show ?thesis by auto
  qed
  moreover have "length (wc_calls (js_ctx demo_cancelled)) = 1"
    "sum_list (map may_call (js_workers demo_cancelled)) = 0" "wc_calls (js_ctx ?s) \<noteq> []"
    by code_simp+
  ultimately show ?thesis
    using stop_is_prompt [OF reach, of ?ls ?s] by (simp del: sys_run.simps) (cases "wc_calls (js_ctx ?s)"; simp)
qed

end
