(* ===== verification/JobLive.thy ===== *)
theory JobLive
  imports JobStop
begin

text \<open>
  Progress of a job.  \<open>job_rank\<close> is a natural number that every turn lowers, except the turns that
  only wait: a worker that polls the breaker or the bucket in vain, a timeout of the writer, and a
  call of \<open>cancel\<close>.  Together with \<open>some_turn_productive\<close>, which says that a job that has not
  ended is never stuck, it shows that a job ends under every fair schedule, whatever the provider does.
\<close>

section \<open>The rank of a worker\<close>

fun pc_rank :: "wpc \<Rightarrow> nat" where
  "pc_rank W_get = 1"
| "pc_rank (W_breaker_sleep it a) = 6 * (8 - a) + 1"
| "pc_rank (W_acquire_sleep it a w) = 6 * (9 - a)"
| "pc_rank (W_call it a t) = 6 * (9 - a) - 1"
| "pc_rank (W_reset it a c k h ss) = 6 * (9 - a) - 4 + length ss"
| "pc_rank (W_backoff it a d) = 6 * (9 - a) - 4"
| "pc_rank _ = 0"

fun qitem_rank :: "qitem \<Rightarrow> nat" where
  "qitem_rank (Q_parsed (P_item it)) = 50"
| "qitem_rank (Q_parsed (P_error e)) = 2"
| "qitem_rank Q_shutdown = 1"

text \<open>A worker that waits, before and after.\<close>

fun still_waiting :: "wpc \<Rightarrow> wpc \<Rightarrow> bool" where
  "still_waiting (W_breaker_sleep it a) (W_breaker_sleep it' a') = (it' = it \<and> a' = a)"
| "still_waiting (W_acquire_sleep it a w) (W_acquire_sleep it' a' w') = (it' = it \<and> a' = a)"
| "still_waiting _ _ = False"

lemma still_waiting_rank: "still_waiting pc pc' \<Longrightarrow> pc_rank pc' = pc_rank pc"
  by (cases "(pc, pc')" rule: still_waiting.cases) auto

lemma still_waiting_hand: "still_waiting pc pc' \<Longrightarrow> in_hand pc' = in_hand pc \<and> in_hand pc \<noteq> []"
  by (cases "(pc, pc')" rule: still_waiting.cases) auto

lemma rank_in_hand: "pc_ok pc \<Longrightarrow> in_hand pc \<noteq> [] \<Longrightarrow> 3 \<le> pc_rank pc \<and> pc_rank pc \<le> 49"
  by (cases pc) (auto simp: neq_Nil_conv)

lemma rank_empty_hand: "in_hand pc = [] \<Longrightarrow> pc_rank pc = (if pc = W_get then 1 else 0)"
  by (cases pc) simp_all

text \<open>Where a stretch of code leaves a worker that keeps its item: strictly below \<open>k\<close>.\<close>

definition lands_below :: "nat \<Rightarrow> wctx \<times> wpc \<Rightarrow> bool" where
  "lands_below k r \<longleftrightarrow> (in_hand (snd r) \<noteq> [] \<longrightarrow> pc_rank (snd r) < k)"

lemma finished_below [simp]: "in_hand next = [] \<Longrightarrow> lands_below k (item_finished next c)"
  by (simp add: lands_below_def item_finished_def split: option.split)

lemma escaped_below [simp]: "lands_below k (item_escaped it c)"
  by (simp add: item_escaped_def)

lemma lands_below_mono: "lands_below j r \<Longrightarrow> j \<le> k \<Longrightarrow> lands_below k r"
  by (auto simp: lands_below_def)

lemma call_below: "1 \<le> a \<Longrightarrow> a \<le> 8 \<Longrightarrow> lands_below (6 * (9 - a)) (start_call env c it a)"
  by (simp add: lands_below_def start_call_def)

lemma acquire_below: "1 \<le> a \<Longrightarrow> a \<le> 8 \<Longrightarrow> lands_below (6 * (9 - a) + 1) (acquire_pass env c it a)"
  by (auto simp: acquire_pass_def Let_def lands_below_def start_call_def split: prod.split option.split)

lemma top_below: "a \<le> 7 \<Longrightarrow> lands_below (6 * (8 - a) + 2) (item_top env c it a)"
  using lands_below_mono [OF acquire_below [of "Suc a"], of "6 * (8 - a) + 2"]
  by (auto simp: item_top_def Let_def split: prod.split) (auto simp: lands_below_def)

lemma retry_below:
  "1 \<le> a \<Longrightarrow> a \<le> 8 \<Longrightarrow> lands_below (6 * (9 - a) - 3) (retry_or_exhaust env c it a k m h)"
  by (auto simp: retry_or_exhaust_def Let_def split: prod.split) (auto simp: lands_below_def)

lemma succeeded_below: "lands_below k (item_succeeded osc env c it a l r)"
  by (simp add: item_succeeded_def Let_def)

lemma after_call_below:
  assumes "1 \<le> a" "a \<le> 8" "n = 6 * (9 - a) - 1"
  shows "lands_below n (after_call xr pf osc env c it a t r e)"
proof -
  have retry: "lands_below n (retry_or_exhaust env c1 it a k m h)" for c1 k m h
    by (rule lands_below_mono [OF retry_below [OF assms(1,2)]]) (simp add: assms(3))
  have reset: "lands_below n (c1, W_reset it a k m h (reset_sleeps pf env r))" for c1 k m h r
    using assms(2,3) reset_sleeps_le_2 [of pf env r] by (simp add: lands_below_def)
  show ?thesis
    by (auto simp: after_call_def Let_def retry reset succeeded_below item_fatal_def
        split: sum.split option.split)
qed

lemma worker_step_below:
  assumes "worker_step xr pf osc ev c pc = Some r" "pc_ok pc" "pc \<noteq> W_get"
  shows "still_waiting pc (snd r) \<or> lands_below (pc_rank pc) r"
  using assms
proof (cases "(xr, pf, osc, ev, c, pc)" rule: worker_step.cases)
  case (2 xr pf osc env c it a)
  then show ?thesis
    using assms top_below [of a env c it] acquire_below [of "Suc a"]
    by (auto simp: item_top_def Let_def split: prod.splits if_splits)
next
  case (3 xr pf osc env c it a w)
  then show ?thesis
    using assms
    by (auto simp: acquire_pass_def Let_def lands_below_def start_call_def split: prod.split option.split)
next
  case (4 xr pf osc env oc c it a t)
  then show ?thesis
    using assms after_call_below [of a] by (cases oc) (auto simp: Let_def simp del: One_nat_def)
next
  case (5 xr pf osc env c it a k m h ss)
  then have a: "1 \<le> a" "a \<le> 8" and "1 \<le> length ss"
    using assms by (auto simp: Suc_le_eq)
  then have "lands_below (6 * (9 - a) - 4 + length ss) (retry_or_exhaust env c it a k m h)"
    by (intro lands_below_mono [OF retry_below [OF a]]) simp
  then show ?thesis
    using 5 assms by (cases ss) (auto simp: lands_below_def split: if_splits)
next
  case (6 xr pf osc env c it a d)
  then show ?thesis
    using assms lands_below_mono [OF top_below [of a env c it], of "6 * (9 - a) - 4"] by auto
qed auto

lemma worker_get_taken:
  assumes "worker_get env c = Some r"
  obtains x where "q_items (wc_queue c) = x # q_items (wc_queue (fst r))"
    "in_hand (snd r) \<noteq> [] \<longrightarrow> (\<exists>it. x = Q_parsed (P_item it)) \<and> pc_rank (snd r) \<le> 49"
proof -
  have fin: "q_items (wc_queue (fst (item_finished nx c'))) = q_items (wc_queue c')"
    "in_hand nx = [] \<Longrightarrow> in_hand (snd (item_finished nx c')) = []" for nx c'
    by (simp_all add: item_finished_def q_task_done_def split: option.split)
  have top: "in_hand (snd (item_top env c' it 0)) \<noteq> [] \<longrightarrow> pc_rank (snd (item_top env c' it 0)) \<le> 49"
    for c' it
    using top_below [of 0 env c' it] by (auto simp: lands_below_def)
  have items: "q_items (wc_queue (fst (item_top env c' it 0))) = q_items (wc_queue c')" for c' it
    by (auto simp: item_top_def acquire_pass_def start_call_def Let_def fin emit_error_def frame
        split: prod.split option.split)
  show ?thesis
    using assms that top
    by (auto simp: worker_get_def q_get_def Let_def fin frame items
        split: option.splits list.splits qitem.splits parsed.splits)
qed

section \<open>A worker's turn lowers the rank\<close>

text \<open>The item and the row it turns into, weighed together.\<close>

lemma length_ids: "2 * length (qitem_ids x) \<le> qitem_rank x \<and> 1 \<le> qitem_rank x"
  by (cases x rule: qitem_rank.cases) simp_all

lemma sum_length_ids:
  "2 * length (concat (map qitem_ids xs)) \<le> sum_list (map qitem_rank xs)"
  "length xs \<le> sum_list (map qitem_rank xs)"
proof (induction xs)
  case (Cons x xs)
  {
    case 1
    then show ?case using Cons.IH(1) length_ids [of x] by simp
  next
    case 2
    then show ?case using Cons.IH(2) length_ids [of x] by simp
  }
qed simp_all

lemma worker_step_rank:
  assumes step: "worker_step xr pf osc ev c pc = Some (c', pc')" and "pc_ok pc"
    and books: "step_books taken new c pc c' pc'"
  shows "pc_rank pc' + length new < pc_rank pc + sum_list (map qitem_rank taken)
    \<or> (still_waiting pc pc' \<and> pc_rank pc' + length new \<le> pc_rank pc + sum_list (map qitem_rank taken))"
proof -
  have "size (mset (concat (map qitem_ids taken)) + mset (map pi_id (in_hand pc))) =
      size (mset (map sink_item_id new) + mset (map pi_id (carried pc')))"
    using books by (simp only: step_books_def)
  then have ids: "length (concat (map qitem_ids taken)) + length (in_hand pc) = length new + length (carried pc')"
    by (simp add: carried_eq)
  have hand: "length (in_hand pc) \<le> 1" "length (in_hand pc') \<le> length (carried pc')"
    using length_carried [of pc] by (simp_all add: carried_eq)
  have ok': "pc_ok pc'" and q: "q_items (wc_queue c) = taken @ q_items (wc_queue c')"
    using books by (simp_all add: step_books_def)
  have weights: "2 * length (concat (map qitem_ids taken)) \<le> sum_list (map qitem_rank taken)"
    "length taken \<le> sum_list (map qitem_rank taken)"
    by (rule sum_length_ids)+
  show ?thesis
  proof (cases "pc = W_get")
    case False
    note below = worker_step_below [OF step assms(2) False]
    have live: "in_hand pc \<noteq> []"
      using step False worker_step_live [OF step] by (cases pc) auto
    then have rank: "3 \<le> pc_rank pc" "length (in_hand pc) = 1"
      using rank_in_hand [OF assms(2)] hand(1) by (auto simp: le_Suc_eq)
    show ?thesis
    proof (cases "in_hand pc' = []")
      case True
      then have "pc_rank pc' \<le> 1" by (simp add: rank_empty_hand)
      then show ?thesis using ids rank weights(1) by linarith
    next
      case held: False
      then have "1 \<le> length (carried pc')"
        using hand(2) by (cases "in_hand pc'") auto
      then have new: "length new \<le> sum_list (map qitem_rank taken)"
        using ids rank weights(1) by linarith
      show ?thesis
        using below
      proof
        assume "still_waiting pc (snd (c', pc'))"
        then show ?thesis using new still_waiting_rank [of pc pc'] by simp
      next
        assume "lands_below (pc_rank pc) (c', pc')"
        then show ?thesis using new held by (simp add: lands_below_def)
      qed
    qed
  next
    case get: True
    show ?thesis
    proof (cases ev)
      case (E_resume env)
      then obtain x where x: "q_items (wc_queue c) = x # q_items (wc_queue c')"
        "in_hand pc' \<noteq> [] \<longrightarrow> (\<exists>it. x = Q_parsed (P_item it)) \<and> pc_rank pc' \<le> 49"
        using step get by (auto elim: worker_get_taken)
      then have taken: "taken = [x]"
        using q by simp
      show ?thesis
      proof (cases "in_hand pc' = []")
        case True
        then have "pc_rank pc' = (if pc' = W_get then 1 else 0)" by (rule rank_empty_hand)
        then show ?thesis
          using ids length_ids [of x] by (simp add: get taken)
      next
        case False
        then show ?thesis
          using ids x(2) hand(2) by (cases "in_hand pc'") (auto simp: get taken)
      qed
    next
      case E_cancel
      then have "pc' = W_cancelled None" "c' = c"
        using step get by simp_all
      then have "length new \<le> length (concat (map qitem_ids taken))"
        using ids get by simp
      then show ?thesis
        using weights(1) \<open>pc' = W_cancelled None\<close> by (simp add: get)
    qed (use step get in simp_all)
  qed
qed

section \<open>The rank of a job\<close>

fun run_rank :: "nat \<Rightarrow> run_pc \<Rightarrow> nat" where
  "run_rank n R_ingest = 2 * n + 6"
| "run_rank n (R_put p) = 2 * n + 58"
| "run_rank n R_persist = 2 * n + 7"
| "run_rank n (R_shutdown k e) = 2 * k + 5"
| "run_rank n (R_gather e) = 4"
| "run_rank n (R_closing e) = 2"
| "run_rank n R_finish = 1"
| "run_rank n _ = 0"

definition job_rank :: "job_sys \<Rightarrow> nat" where
  "job_rank s =
     run_rank (length (js_workers s)) (js_run s) + 53 * length (js_rows s)
     + sum_list (map qitem_rank (q_items (wc_queue (js_ctx s))))
     + sum_list (map pc_rank (js_workers s)) + length (q_items (sk_queue (wc_sink (js_ctx s))))"

text \<open>A turn that only waits.\<close>

fun idle_turn :: "label \<Rightarrow> job_sys \<Rightarrow> job_sys \<Rightarrow> bool" where
  "idle_turn (L_worker i ev) s s' = still_waiting (js_workers s ! i) (js_workers s' ! i)"
| "idle_turn (L_sink_timeout now) s s' = True"
| "idle_turn L_cancel s s' = True"
| "idle_turn _ s s' = False"

lemma qitem_rank_parsed: "qitem_rank (Q_parsed p) \<le> 50"
  by (cases p) simp_all

lemma sink_put_len:
  "q_maxsize (sk_queue k) = 0 \<Longrightarrow>
   length (q_items (sk_queue (sink_put x k))) = Suc (length (q_items (sk_queue k)))"
  by (simp add: sink_put_unbounded)

lemma submits_len:
  "q_maxsize (sk_queue k) = 0 \<Longrightarrow>
   length (q_items (sk_queue (fold sink_submit xs k))) = length (q_items (sk_queue k)) + length xs"
  by (induction xs arbitrary: k) (simp_all add: sink_submit_def sink_put_len frame)

lemma run_step_rank:
  assumes step: "run_step prices now (js_run s) s = Some s'" and inv: "job_inv_but away E rows n s"
  shows "job_rank s' < job_rank s"
proof -
  have max: "q_maxsize (sk_queue (wc_sink (js_ctx s))) = 0"
    using inv by (simp add: job_inv_but_def sound_def wctx_ok_def)
  show ?thesis
  proof (cases "js_run s")
    case (R_put p)
    then show ?thesis
      using step qitem_rank_parsed [of p]
      by (auto simp: ingest_put_def after_persist_def begin_shutdown_def save_record_def job_rank_def
          q_put_Some Let_def split: option.splits if_splits)
  next
    case (R_shutdown k e)
    then show ?thesis
      using step by (cases k) (auto simp: put_shutdown_def job_rank_def q_put_Some split: option.splits)
  next
    case (R_gather e)
    then show ?thesis
      using step max
      by (auto simp: gather_workers_def sink_close_begin_def sink_put_len job_rank_def split: if_splits)
  next
    case (R_closing e)
    then show ?thesis
      using step
      by (auto simp: close_sink_def sink_close_end_def sink_flush_def job_rank_def
          split: option.splits if_splits)
  next
    case R_ingest
    then show ?thesis
      using step
      by (auto simp: ingest_next_def begin_shutdown_def job_rank_def Let_def split: list.splits)
  qed (use step in \<open>auto simp: run_defs job_rank_def Let_def split: option.splits\<close>)
qed

lemma worker_turn_rank:
  assumes turn: "worker_turn E i ev s = Some s'" and inv: "job_inv_but away E rows n s"
  shows "job_rank s' < job_rank s \<or> (idle_turn (L_worker i ev) s s' \<and> job_rank s' \<le> job_rank s)"
proof -
  obtain c' pc' where i: "i < length (js_workers s)" and s': "s' = worker_moved i c' pc' s"
    and w: "worker_step (je_exn_repr E) (je_parse_float E) (on_spend_check (je_fmt E) (je_prices E)) ev
      (js_ctx s) (js_workers s ! i) = Some (c', pc')"
    using turn by (auto simp: worker_turn_def split: if_splits option.splits)
  obtain c'' pc'' taken new where s'': "s' = worker_moved i c'' pc'' s"
    and books'': "step_books taken new (js_ctx s) (js_workers s ! i) c'' pc''"
    by (rule worker_turn_books [OF turn inv])
  have "js_ctx s' = c'' \<and> js_workers s' ! i = pc''"
    using i by (simp add: s'')
  moreover have "js_ctx s' = c' \<and> js_workers s' ! i = pc'"
    using i by (simp add: s')
  ultimately have books: "step_books taken new (js_ctx s) (js_workers s ! i) c' pc'"
    using books'' by simp
  have max: "q_maxsize (sk_queue (wc_sink (js_ctx s))) = 0"
    using inv by (simp add: job_inv_but_def sound_def wctx_ok_def)
  have ok: "pc_ok (js_workers s ! i)"
    using inv i by (simp add: job_inv_but_def inv_rows_def)
  have pcs: "sum_list (map pc_rank ((js_workers s)[i := pc'])) + pc_rank (js_workers s ! i) =
      sum_list (map pc_rank (js_workers s)) + pc_rank pc'"
    by (rule sum_list_update_nat [OF i])
  have "q_items (wc_queue (js_ctx s)) = taken @ q_items (wc_queue c')"
    "wc_sink c' = fold sink_submit new (wc_sink (js_ctx s))"
    using books by (simp_all add: step_books_def tally_def)
  then have "job_rank s' + pc_rank (js_workers s ! i) + sum_list (map qitem_rank taken) =
      job_rank s + pc_rank pc' + length new"
    using pcs submits_len [OF max] by (simp add: job_rank_def s')
  then show ?thesis
    using worker_step_rank [OF w ok books] i by (auto simp: s')
qed

lemma sys_step_rank:
  assumes step: "sys_step E l s = Some s'" and inv: "job_inv_but away E rows n s"
  shows "job_rank s' < job_rank s \<or> (idle_turn l s s' \<and> job_rank s' \<le> job_rank s)"
proof (cases l)
  case (L_run now)
  then show ?thesis using step run_step_rank [OF _ inv] by simp
next
  case (L_worker i ev)
  then show ?thesis using step worker_turn_rank [OF _ inv] by simp
next
  case (L_sink now)
  then obtain k where "sink_turn (je_dumps E) now (wc_sink (js_ctx s)) = Some k"
    "s' = s\<lparr>js_ctx := (js_ctx s)\<lparr>wc_sink := k\<rparr>\<rparr>"
    using step by (auto simp: sink_turn_of_def split: option.splits)
  then show ?thesis
    by (auto simp: job_rank_def sink_turn_def q_get_def sink_flush_def frame
        split: if_splits option.splits list.splits)
next
  case (L_sink_timeout now)
  then show ?thesis
    using step
    by (auto simp: sink_turn_of_def job_rank_def sink_timeout_def frame split: option.splits if_splits)
next
  case L_cancel
  then show ?thesis using step by (auto simp: cancel_job_event_def job_rank_def)
qed

text \<open>The turns of a run that do not only wait.\<close>

fun productive_turns :: "job_env \<Rightarrow> label list \<Rightarrow> job_sys \<Rightarrow> nat" where
  "productive_turns E [] s = 0"
| "productive_turns E (l # ls) s =
     (case sys_step E l s of None \<Rightarrow> 0
      | Some s' \<Rightarrow> (if idle_turn l s s' then 0 else 1) + productive_turns E ls s')"

lemma productive_turns_rank:
  "sys_run E ls s = Some s' \<Longrightarrow> job_inv_but away E rows n s \<Longrightarrow> productive_turns E ls s + job_rank s' \<le> job_rank s"
proof (induction ls arbitrary: s)
  case (Cons l ls)
  then obtain s1 where s1: "sys_step E l s = Some s1" "sys_run E ls s1 = Some s'"
    by (auto split: option.splits)
  then show ?case
    using Cons.IH [OF s1(2) sys_step_inv [OF s1(1) Cons.prems(2)]]
      sys_step_rank [OF s1(1) Cons.prems(2)]
    by auto
qed simp

section \<open>No job is stuck\<close>

lemma late_breaker: "\<exists>t. fst (cb_allow_request t cb)"
proof
  let ?t = "cb_opened_at cb + \<bar>cb_cooldown_s cb\<bar> + \<bar>cb_probe_timeout_s cb\<bar> + 1"
  have "cb_cooldown_s cb \<le> ?t - cb_opened_at cb"
    "cb_cooldown_s cb + cb_probe_timeout_s cb < ?t - cb_opened_at cb"
    by linarith+
  then show "fst (cb_allow_request ?t cb)"
    by (auto simp: cb_allow_request_def Let_def split: cb_state.splits)
qed

lemma late_bucket:
  assumes "tb_wf b"
  shows "\<exists>t. snd (tb_acquire_pass t b) = None"
proof
  let ?t = "tb_last_refill b + 1 / tb_rate b"
  have "1 \<le> tb_tokens (tb_refill ?t b)"
    using assms by (intro tb_refill_enough) (simp_all add: tb_wf_def)
  then show "snd (tb_acquire_pass ?t b) = None"
    by (simp add: tb_acquire_pass_def Let_def)
qed

text \<open>A worker with an item in hand has a turn that does not only wait: its call ends, its pause ends,
  or the clocks have advanced enough for the breaker or the bucket.\<close>

lemma hand_productive:
  assumes "in_hand pc \<noteq> []" "sound dumps c"
  shows "\<exists>ev r. worker_step xr pf osc ev c pc = Some r \<and> \<not> still_waiting pc (snd r)"
proof -
  obtain env :: readings where env: "fst (cb_allow_request (ck_breaker env) (wc_breaker c))"
    "snd (tb_acquire_pass (ck_bucket env) (ac_bucket (wc_controller c))) = None"
  proof -
    have "tb_wf (ac_bucket (wc_controller c))"
      using assms(2) by (simp add: sound_def wctx_ok_def)
    then obtain t1 t2 where "fst (cb_allow_request t1 (wc_breaker c))"
      "snd (tb_acquire_pass t2 (ac_bucket (wc_controller c))) = None"
      using late_breaker late_bucket by blast
    then show thesis
      using that [of "\<lparr>ck_ctx = 0, ck_breaker = t1, ck_controller = 0, ck_bucket = t2, ck_wall = 0, rnd = 0\<rparr>"]
      by simp
  qed
  have fin: "\<not> still_waiting pc (snd (item_finished W_get c'))" for pc c'
    by (auto simp: item_finished_def split: option.split)
  show ?thesis
  proof (cases pc)
    case (W_breaker_sleep it a)
    then show ?thesis
      using env by (intro exI [of _ "E_resume env"])
        (auto simp: item_top_def acquire_pass_def start_call_def Let_def fin
          split: prod.split option.split)
  next
    case (W_acquire_sleep it a w)
    then show ?thesis
      using env by (intro exI [of _ "E_resume env"])
        (auto simp: acquire_pass_def start_call_def Let_def split: prod.split)
  next
    case (W_call it a t)
    then show ?thesis
      by (intro exI [of _ "E_outcome env (Out_raise (Provider_transport_error []))"]) (simp add: Let_def)
  next
    case (W_reset it a k m h ss)
    then show ?thesis
      by (intro exI [of _ "E_resume env"]) simp
  next
    case (W_backoff it a d)
    then show ?thesis
      by (intro exI [of _ "E_resume env"]) simp
  qed (use assms(1) in simp_all)
qed

lemma get_productive:
  assumes "q_items (wc_queue c) \<noteq> []"
  shows "\<exists>ev r. worker_step xr pf osc ev c W_get = Some r \<and> \<not> still_waiting W_get (snd r)"
proof -
  obtain x xs where "q_items (wc_queue c) = x # xs"
    using assms by (cases "q_items (wc_queue c)") auto
  then have "worker_step xr pf osc (E_resume env) c W_get \<noteq> None" for env :: readings
    by (auto simp: worker_get_def q_get_def Let_def split: qitem.split parsed.split)
  then show ?thesis by fastforce
qed

lemma worker_productive:
  assumes inv: "job_inv_but away E rows n s" and i: "i < length (js_workers s)"
    and live: "\<not> worker_finished (js_workers s ! i)" and queue: "q_items (wc_queue (js_ctx s)) \<noteq> []"
  shows "\<exists>l s'. sys_step E l s = Some s' \<and> \<not> idle_turn l s s'"
proof -
  let ?pc = "js_workers s ! i"
  have "in_hand ?pc \<noteq> [] \<or> ?pc = W_get"
    using live by (cases ?pc) auto
  then obtain ev r where w: "worker_step (je_exn_repr E) (je_parse_float E)
      (on_spend_check (je_fmt E) (je_prices E)) ev (js_ctx s) ?pc = Some r" "\<not> still_waiting ?pc (snd r)"
    using hand_productive [of ?pc "je_dumps E" "js_ctx s"] get_productive [OF queue] inv
    by (metis job_inv_but_def)
  then show ?thesis
    using i by (intro exI [of _ "L_worker i ev"]) (auto simp: worker_turn_def split: prod.split)
qed

lemma hand_turn:
  assumes inv: "job_inv_but away E rows n s" and i: "i < length (js_workers s)" and "in_hand (js_workers s ! i) \<noteq> []"
  shows "\<exists>l s'. sys_step E l s = Some s' \<and> \<not> idle_turn l s s'"
proof -
  let ?pc = "js_workers s ! i"
  obtain ev r where w: "worker_step (je_exn_repr E) (je_parse_float E)
      (on_spend_check (je_fmt E) (je_prices E)) ev (js_ctx s) ?pc = Some r" "\<not> still_waiting ?pc (snd r)"
    using hand_productive [OF assms(3), of "je_dumps E" "js_ctx s"] inv by (metis job_inv_but_def)
  then show ?thesis
    using i by (intro exI [of _ "L_worker i ev"]) (auto simp: worker_turn_def split: prod.split)
qed

lemma live_worker:
  assumes "job_inv_but away E rows n s" "undisturbed s" "dones s < n"
  shows "\<exists>i < length (js_workers s). \<not> worker_finished (js_workers s ! i)"
proof (rule ccontr)
  assume "\<not> ?thesis"
  then have "pc = W_done" if "pc \<in> set (js_workers s)" for pc
    using that assms(1,2) worker_finished_cases [of pc]
    by (auto simp: in_set_conv_nth undisturbed_def list_all_iff job_inv_but_def inv_rows_def)
  then have "dones s = length (js_workers s)"
    by (simp add: dones_def filter_True)
  then show False
    using assms(1,3) length_workers_inv by force
qed

lemma gather_productive:
  assumes inv: "job_inv_but away E rows n s" and "undisturbed s" and run: "js_run s = R_gather e"
  shows "\<exists>l s'. sys_step E l s = Some s' \<and> \<not> idle_turn l s s'"
proof (cases "list_all worker_finished (js_workers s)")
  case True
  then show ?thesis
    by (intro exI [of _ "L_run 0"]) (simp add: run gather_workers_def)
next
  case False
  then obtain i where i: "i < length (js_workers s)" "\<not> worker_finished (js_workers s ! i)"
    by (auto simp: list_all_length)
  show ?thesis
  proof (cases "in_hand (js_workers s ! i) = []")
    case True
    obtain ps m where items: "q_items (wc_queue (js_ctx s)) = map Q_parsed ps @ replicate m Q_shutdown"
      "m + dones s = n"
      using inv run by (auto simp: job_inv_but_def inv_queue_def Let_def)
    have "dones s < length (js_workers s)"
      unfolding dones_def using i by (intro length_filter_less [of "js_workers s ! i"]) auto
    then have "q_items (wc_queue (js_ctx s)) \<noteq> []"
      using items length_workers_inv [OF inv] by (cases m) auto
    then show ?thesis
      using worker_productive [OF inv i] by blast
  next
    case False
    then show ?thesis using hand_turn [OF inv i(1)] by blast
  qed
qed

lemma full_queue_productive:
  assumes inv: "job_inv_but away E rows n s" and "undisturbed s" "0 < n"
    and "q_put x (wc_queue (js_ctx s)) = None" and "0 < to_stop n (js_run s)"
  shows "\<exists>l s'. sys_step E l s = Some s' \<and> \<not> idle_turn l s s'"
proof -
  have "dones s < n"
    using inv assms(5) by (auto simp: job_inv_but_def inv_queue_def Let_def)
  moreover have "q_items (wc_queue (js_ctx s)) \<noteq> []"
    using assms(4) by (auto simp: q_put_def q_full_def split: if_splits)
  ultimately show ?thesis
    using live_worker [OF inv assms(2)] worker_productive [OF inv] by blast
qed

lemma closing_productive:
  assumes inv: "job_inv_but away E rows n s" and run: "js_run s = R_closing e"
  shows "\<exists>l s'. sys_step E l s = Some s' \<and> \<not> idle_turn l s s'"
proof (cases "sk_task_alive (wc_sink (js_ctx s))")
  case True
  then obtain ws where "q_items (sk_queue (wc_sink (js_ctx s))) = map Some ws @ [None]"
    using inv run by (auto simp: job_inv_but_def inv_sink_phase sink_phase_ok_def)
  then have "sink_turn (je_dumps E) 0 (wc_sink (js_ctx s)) \<noteq> None"
    using True by (cases ws) (auto simp: sink_turn_def q_get_def)
  then show ?thesis
    by (intro exI [of _ "L_sink 0"]) (auto simp: sink_turn_of_def)
next
  case False
  then show ?thesis
    by (intro exI [of _ "L_run 0"]) (simp add: run close_sink_def sink_close_end_def)
qed

lemma unended_turn:
  assumes inv: "job_inv_but away E rows n s" and "undisturbed s" "0 < n"
    and "js_run s \<noteq> R_done" "\<forall>e. js_run s \<noteq> R_raised e"
  shows "\<exists>l s'. sys_step E l s = Some s' \<and> \<not> idle_turn l s s'"
proof -
  have run: ?thesis if "run_step (je_prices E) 0 (js_run s) s \<noteq> None"
    using that by (intro exI [of _ "L_run 0"]) auto
  show ?thesis
  proof (cases "js_run s")
    case (R_put p)
    then show ?thesis
      using full_queue_productive [OF inv assms(2,3), of "Q_parsed p"] run assms(3)
      by (cases "q_put (Q_parsed p) (wc_queue (js_ctx s))")
        (auto simp: ingest_put_def Let_def split: if_splits)
  next
    case (R_shutdown k e)
    then show ?thesis
      using full_queue_productive [OF inv assms(2,3), of Q_shutdown] run
      by (cases k; cases "q_put Q_shutdown (wc_queue (js_ctx s))") (auto simp: put_shutdown_def)
  next
    case (R_gather e)
    then show ?thesis using gather_productive [OF inv assms(2)] by blast
  next
    case (R_closing e)
    then show ?thesis using closing_productive [OF inv] by blast
  qed (use run assms(4,5) in simp_all)
qed

section \<open>Properties\<close>



text \<open>C16. Termination: whatever the interleaving, the provider's answers and the clocks are, a job over
  \<open>rows\<close> with \<open>n\<close> workers takes at most \<open>53 * length rows + 3 * n + 6\<close> turns besides those that only
  poll the breaker, the bucket or an empty sink queue, or that set the cancel event.\<close>

theorem turns_bounded:
  assumes "fresh_record record" "rows_ok rows" "0 < rpm"
    and "sys_run E ls (start_run record rpm cd rb rc prior nb ns rows err) = Some s"
  shows "productive_turns E ls (start_run record rpm cd rb rc prior nb ns rows err)
    \<le> 53 * length rows + 3 * workers_of record rpm + 6"
proof -
  let ?s0 = "start_run record rpm cd rb rc prior nb ns rows err"
  have "job_rank ?s0 = 53 * length rows + 3 * workers_of record rpm + 6"
    by (simp add: job_rank_def start_run_def Let_def save_record_def new_queue_def sink_start_def
        sum_list_replicate)
  then show ?thesis
    using productive_turns_rank [OF assms(4) start_run_inv [OF assms(1-3)]] by simp
qed

theorem turns_bounded_witness:
  "productive_turns demo_env demo_labels demo_start \<le> 168"
proof -
  obtain s where "sys_run demo_env demo_labels demo_start = Some s"
    using demo_runs by blast
  moreover have "length demo_rows = 3" "rows_ok demo_rows" "fresh_record demo_record"
    by (simp_all add: demo_rows_def rows_ok_def row_ok_def demo_record_def)
  ultimately show ?thesis
    unfolding demo_start_def
    using turns_bounded [of demo_record demo_rows 60 demo_env demo_labels 30 "1 / 2" 30 "[]" 0 0 None s]
    by (simp add: demo_concurrency)
qed

end
