(* ===== verification/ProcessProps.thy ===== *)
theory ProcessProps
  imports ProcessDemo JobLive
begin

text \<open>
  What the whole service promises: every job runs as it would alone, jobs do not disturb each other, none
  waits for another, an accepted job is never lost, a finished one never changes; and what it does not
  promise: a job that a restart interrupts is never resumed.
\<close>

abbreviation demo_svc :: proc_env where
  "demo_svc \<equiv> demo_service demo_dumps demo_loads"

lemma demo_running:
  "\<exists>ru j. running_job (service_state 3) ''id'' = Some (ru, j) \<and> js_run j = R_ingest"
  "\<exists>ru j. running_job (service_state 13) ''id'' = Some (ru, j) \<and> js_run j = R_done \<and>
     jr_status (the_record j) = JS_SUCCEEDED"
  using service_facts [of demo_dumps demo_loads] unfolding service_state_at [symmetric] by fastforce+

lemma demo_waiting:
  "\<exists>ru. dict_get (ap_runners (pr_app (service_state 15))) ''id2'' = Some ru \<and> ru_job ru = None"
  using service_facts [of demo_dumps demo_loads] unfolding service_state_at [symmetric] by fastforce

section \<open>Every job runs as it would alone\<close>

text \<open>C4. The jobs of the service are jobs: in every state of the service, with any number of jobs, requests
  and restarts interleaved, the job of every runner is in a state that it reaches when it runs alone, so
  that all that holds of a job holds of each of them; its record has its id, and its row in the database is
  the last record it saved.\<close>

theorem jobs_run_as_alone:
  assumes "service_reaches P s ledger p" "dict_get (ap_runners (pr_app p)) job_id = Some ru"
    and "ru_job ru = Some j"
  shows "(\<exists>rows. job_reaches (job_env_of P ru) (ru_record ru) (ru_rate_limit_rpm ru) rows j) \<and>
    fresh_record (ru_record ru) \<and> 0 < workers_of (ru_record ru) (ru_rate_limit_rpm ru) \<and>
    jr_job_id (the_record j) = job_id \<and> js_saves j \<noteq> [] \<and>
    (\<exists>db. ap_store (pr_app p) = Some db \<and>
      dict_get db job_id = Some (record_to_json (ae_dumps (pe_api P)) (last (js_saves j))))"
proof -
  have task: "runs_job P ru j" "submitted_ok job_id ru" "stored P (pr_app p) job_id (last (js_saves j))"
    using app_invD [OF service_inv [OF assms(1)] assms(2)] assms(3) by (simp_all add: task_ok_def)
  have "saves_inv (ru_record ru) j" by (rule job_saves(1) [OF task(1,2)])
  then show ?thesis
    using task by (simp add: runs_job_def submitted_ok_def stored_def saves_inv_def same_job_def)
qed

theorem jobs_run_as_alone_witness:
  "\<exists>ru j rows. dict_get (ap_runners (pr_app (service_state 13))) ''id'' = Some ru \<and> ru_job ru = Some j \<and>
     job_reaches (job_env_of demo_svc ru) (ru_record ru) (ru_rate_limit_rpm ru) rows j \<and> js_run j = R_done"
proof -
  obtain ru j where run: "running_job (service_state 13) ''id'' = Some (ru, j)" "js_run j = R_done"
    using demo_running(2) by blast
  note ru = running_jobD [OF run(1)]
  from jobs_run_as_alone [OF service_state_reaches ru(1,2)] show ?thesis
    using ru run(2) by blast
qed

section \<open>Isolation\<close>

text \<open>All the process and its files hold about one job.\<close>

definition row_of :: "app_state \<Rightarrow> string \<Rightarrow> string option" where
  "row_of st job_id = (case ap_store st of None \<Rightarrow> None | Some db \<Rightarrow> dict_get db job_id)"

definition job_view :: "process \<Rightarrow> string \<Rightarrow> job_runner option \<times> bool option \<times> string option \<times> bool" where
  "job_view p job_id =
     (dict_get (ap_runners (pr_app p)) job_id, dict_get (ap_tasks (pr_app p)) job_id,
      row_of (pr_app p) job_id, job_id \<in> set (pr_ended p))"

lemma stored_row: "stored P st job_id r \<longleftrightarrow> row_of st job_id = Some (record_to_json (ae_dumps (pe_api P)) r)"
  by (auto simp: stored_def row_of_def split: option.splits)

lemma row_put_runner [simp]: "row_of (put_runner k ru st) job_id = row_of st job_id"
  by (simp add: row_of_def)

lemma row_save_records:
  assumes "list_all (\<lambda>r. jr_job_id r = k) rs" "job_id \<noteq> k"
  shows "row_of (save_records P rs st) job_id = row_of st job_id"
  using fold_saves_get [OF assms(1)] assms(2) by (simp add: row_of_def save_records_def split: option.split)

lemma only_ledger_row: "only_ledger st st' \<Longrightarrow> row_of st' job_id = row_of st job_id"
  by (simp add: row_of_def only_ledger_fields)

lemma submit_frame:
  assumes "app_inv P st" "job_id \<noteq> k" "st' = snd (submit_job (pe_api P) fs k t0 t1 b st)"
  shows "dict_get (ap_runners st') job_id = dict_get (ap_runners st) job_id"
    "dict_get (ap_tasks st') job_id = dict_get (ap_tasks st) job_id" "row_of st' job_id = row_of st job_id"
proof -
  obtain db where db: "ap_store st = Some db" and client: "ap_has_client st"
    using assms(1) by (auto simp: app_inv_def store_ok_def)
  have "dict_get (ap_runners st') job_id = dict_get (ap_runners st) job_id \<and>
      dict_get (ap_tasks st') job_id = dict_get (ap_tasks st) job_id \<and> row_of st' job_id = row_of st job_id"
    by (rule submit_job_cases [OF client db, of "pe_api P" fs b k t0 t1])
      (simp_all add: assms(2,3) row_of_def db sqlite_save_def submitted_record_def new_job_record_def)
  then show "dict_get (ap_runners st') job_id = dict_get (ap_runners st) job_id"
    "dict_get (ap_tasks st') job_id = dict_get (ap_tasks st) job_id" "row_of st' job_id = row_of st job_id"
    by simp_all
qed

text \<open>The turns of a job as a replaced runner and saved records.\<close>

lemma start_task_as:
  assumes "app_inv P (pr_app p)" "start_task P k prior nb ns content p = Some p'"
  obtains ru rs rows err where "dict_get (ap_runners (pr_app p)) k = Some ru" "ru_job ru = None"
    "p' = on_app (put_runner k (runner_start prior nb ns rows err ru) \<circ> save_records P rs) p"
    "list_all (\<lambda>r. jr_job_id r = k) rs" "rows_ok rows"
proof -
  obtain ru where ru: "dict_get (ap_runners (pr_app p)) k = Some ru" "ru_job ru = None"
    using assms(2) by (auto simp: start_task_def split: option.splits if_splits)
  obtain rows err where rows: "iter_items_sync (pe_py_repr P) (pe_json_line P) (pe_ijson P) content = (rows, err)"
    by fastforce
  have task: "submitted_ok k ru"
    using app_invD [OF assms(1) ru(1)] by (simp add: task_ok_def)
  obtain s where s: "ru_job (runner_start prior nb ns rows err ru) = Some s"
    "runs_job P (runner_start prior nb ns rows err ru) s" "submitted_ok k (runner_start prior nb ns rows err ru)"
    by (rule runner_start_job [OF task ru(2) parsed_ok [OF rows], where P = P])
  have "list_all (\<lambda>r. jr_job_id r = k) (js_saves s)"
    using job_saves(2) [OF s(2,3)] by (simp add: list_all_iff)
  moreover have "p' = on_app (put_runner k (runner_start prior nb ns rows err ru) \<circ> save_records P (js_saves s)) p"
    using assms(2) ru rows s(1) by (simp add: start_task_def)
  ultimately show ?thesis
    using that ru parsed_ok [OF rows] by blast
qed

lemma job_turn_as:
  assumes "app_inv P (pr_app p)" "job_turn P k l p = Some p'"
  obtains ru s s' rs where "running_job p k = Some (ru, s)" "sys_step (job_env_of P ru) l s = Some s'"
    "p' = on_app (put_runner k (ru\<lparr>ru_job := Some s'\<rparr>) \<circ> save_records P rs) p"
    "list_all (\<lambda>r. jr_job_id r = k) rs"
proof -
  obtain ru s s' where run: "running_job p k = Some (ru, s)"
    and step: "sys_step (job_env_of P ru) l s = Some s'"
    and p': "p' = on_app (put_runner k (ru\<lparr>ru_job := Some s'\<rparr>) \<circ>
      save_records P (drop (length (js_saves s)) (js_saves s'))) p"
    using assms(2) by (auto simp: job_turn_def split: option.splits)
  have "submitted_ok k ru" "runs_job P ru s"
    using app_invD [OF assms(1) running_jobD(1) [OF run]] running_jobD(2) [OF run] by (simp_all add: task_ok_def)
  note turn = sys_step_task(1,2) [OF step this(2,1)]
  have "list_all (\<lambda>r. jr_job_id r = k) (drop (length (js_saves s)) (js_saves s'))"
    using job_saves(2) [OF turn] by (auto simp: list_all_iff dest: in_set_dropD)
  then show ?thesis using that run step p' by blast
qed

lemma finish_task_as:
  assumes "finish_task P k ans draw p = Some p'"
  obtains ru s posts where "running_job p k = Some (ru, s)" "run_over s"
    "p' = settle_task P k ru (p\<lparr>pr_posts := pr_posts p @ [(k, posts)]\<rparr>)"
    "posts \<noteq> [] \<longrightarrow> js_run s = R_done \<and>
      posts = fst (deliver_if_configured (pe_hooks P) ans draw (ru_has_client ru)
        (ru_webhook_secret ru) (ru_allow_private_webhooks ru) (the_record s))"
  using assms by (auto simp: finish_task_def Let_def split: option.splits if_splits)

lemma on_app_simps [simp]:
  "pr_app (on_app f p) = f (pr_app p)" "pr_ended (on_app f p) = pr_ended p" "pr_posts (on_app f p) = pr_posts p"
  "pr_costs (on_app f p) = pr_costs p"
  by (simp_all add: on_app_def)

lemma settle_task_simps [simp]:
  "pr_ended (settle_task P k ru p) = k # pr_ended p" "pr_posts (settle_task P k ru p) = pr_posts p"
  by (simp_all add: settle_task_def Let_def case_prod_beta)

lemma settle_task_frame [simp]:
  "ap_runners (pr_app (settle_task P k ru p)) = ap_runners (pr_app p)"
  "ap_tasks (pr_app (settle_task P k ru p)) = ap_tasks (pr_app p)"
  "ap_settings (pr_app (settle_task P k ru p)) = ap_settings (pr_app p)"
  "ap_store (pr_app (settle_task P k ru p)) = ap_store (pr_app p)"
  using only_ledger_fields [OF settle_task_ledger [of p P k ru]] by simp_all

lemma settle_task_row [simp]: "row_of (pr_app (settle_task P k ru p)) job_id = row_of (pr_app p) job_id"
  by (simp add: row_of_def)

lemma other_step_view:
  assumes "proc_step P l p = Some p'" "app_inv P (pr_app p)" "label_job l = Some k" "job_id \<noteq> k"
  shows "job_view p' job_id = job_view p job_id"
proof (cases l)
  case (PL_submit fs k' t0 t1 b)
  then show ?thesis
    using assms submit_frame [OF assms(2,4) refl] by (auto simp: job_view_def split: if_splits)
next
  case (PL_start k' prior nb ns content)
  then have "start_task P k prior nb ns content p = Some p'" using assms(1,3) by simp
  then show ?thesis
    using assms(4) by (elim start_task_as [OF assms(2)]) (simp add: job_view_def row_save_records)
next
  case (PL_turn k' l')
  then have "job_turn P k l' p = Some p'" using assms(1,3) by (simp split: if_splits)
  then show ?thesis
    using assms(4) by (elim job_turn_as [OF assms(2)]) (simp add: job_view_def row_save_records)
next
  case (PL_finish k' ans draw)
  then have "finish_task P k ans draw p = Some p'" using assms(1,3) by simp
  then show ?thesis
    using assms(4) by (elim finish_task_as) (simp add: job_view_def row_of_def)
next
  case (PL_cancel k' now)
  then show ?thesis
    using assms by (auto simp: job_view_def cancel_job_state split: option.splits)
qed (use assms(3) in simp)

text \<open>What a route reads of a job is in its view.\<close>

lemma get_record_row:
  assumes "store_ok P st"
  shows "get_record A now job_id st =
    (case dict_get (ap_runners st) job_id of
       Some ru \<Rightarrow> Inr (runner_record ru)
     | None \<Rightarrow>
         (case row_of st job_id of
            None \<Rightarrow> Inl (unknown_job job_id)
          | Some raw \<Rightarrow> lift_exn (record_from_json (ae_loads A) now raw)))"
  using assms
  by (auto simp: get_record_def stored_record_def the_store_def sqlite_get_def row_of_def store_ok_def
      lift_exn_def and_then_def split: option.split sum.split)

text \<open>C7. Jobs are isolated: a turn that belongs to one job, whatever it is (its submission, a turn of its
  runner, workers or sink, its end, its cancellation), leaves everything the process and the database hold
  about any other job as it was, and what the routes answer about it.\<close>

theorem jobs_isolated:
  assumes "service_reaches P s ledger p" "label_ok p l" "proc_step P l p = Some p'"
    and "label_job l = Some k" "job_id \<noteq> k"
  shows "job_view p' job_id = job_view p job_id \<and>
    get_record (pe_api P) now job_id (pr_app p') = get_record (pe_api P) now job_id (pr_app p)"
proof -
  have inv: "app_inv P (pr_app p)" "app_inv P (pr_app p')"
    using service_inv assms(1) service_reaches_step [OF assms(1-3)] by blast+
  have view: "job_view p' job_id = job_view p job_id"
    by (rule other_step_view [OF assms(3) inv(1) assms(4,5)])
  moreover have "store_ok P (pr_app p)" "store_ok P (pr_app p')"
    using inv by (simp_all add: app_inv_def)
  ultimately show ?thesis
    by (simp add: get_record_row [of P] job_view_def split: option.split)
qed

theorem jobs_isolated_witness:
  "job_view (service_state 3) ''id2'' = job_view (service_state 2) ''id2''"
proof -
  have step: "label_ok (service_state 2) (demo_service_labels ! 2)"
    "proc_step demo_svc (demo_service_labels ! 2) (service_state 2) = Some (service_state 3)"
    using service_state_step [of 2] by (simp_all add: demo_service_labels_def)
  have label: "label_job (demo_service_labels ! 2) = Some ''id''" "''id2'' \<noteq> ''id''"
    by (simp_all add: demo_service_labels_def)
  from jobs_isolated [OF service_state_reaches step label] show ?thesis by blast
qed

section \<open>The turns of the job itself\<close>

text \<open>What stays of a runner while its process lives.\<close>

definition same_runner :: "job_runner \<Rightarrow> job_runner \<Rightarrow> bool" where
  "same_runner ru ru' \<longleftrightarrow>
     ru_record ru' = ru_record ru \<and> ru_provider ru' = ru_provider ru \<and>
     ru_rate_limit_rpm ru' = ru_rate_limit_rpm ru \<and>
     (\<forall>s. ru_job ru = Some s \<and> run_over s \<longrightarrow>
        (\<exists>s'. ru_job ru' = Some s' \<and> js_run s' = js_run s \<and> the_record s' = the_record s))"

lemma same_runner_refl [simp]: "same_runner ru ru"
  by (simp add: same_runner_def)

lemma over_turns:
  assumes "runs_job P ru s" "run_over s" "sys_step (job_env_of P ru) l s = Some s'"
  shows "l = L_cancel"
proof -
  obtain rows where "job_reaches (job_env_of P ru) (ru_record ru) (ru_rate_limit_rpm ru) rows s"
    using assms(1) by (auto simp: runs_job_def)
  moreover obtain e where "js_run s = R_done \<or> js_run s = R_raised e"
    using assms(2) by (cases "js_run s") (auto simp: run_over_def)
  ultimately show ?thesis
    using ended_turns [OF job_reaches_inv _ assms(3)] by blast
qed

lemma same_runner_start: "ru_job ru = None \<Longrightarrow> same_runner ru (runner_start prior nb ns rows err ru)"
  by (simp add: same_runner_def runner_start_def Let_def)

lemma same_runner_cancel: "same_runner ru (runner_cancel ru)"
  by (auto simp: same_runner_def runner_cancel_def) (auto simp: cancel_job_event_def)

lemma own_step_runner:
  assumes "proc_step P l p = Some p'" "app_inv P (pr_app p)" "label_job l = Some k"
    and "dict_get (ap_runners (pr_app p)) k = Some ru"
  shows "\<exists>ru'. dict_get (ap_runners (pr_app p')) k = Some ru' \<and> same_runner ru ru'"
proof (cases l)
  case (PL_submit fs k' t0 t1 b)
  then show ?thesis using assms by (simp add: unused_id_def split: if_splits)
next
  case (PL_start k' prior nb ns content)
  then have "start_task P k prior nb ns content p = Some p'" using assms(1,3) by simp
  then show ?thesis
    using assms(4) by (elim start_task_as [OF assms(2)]) (simp add: same_runner_start)
next
  case (PL_turn k' l')
  then have turn: "l' \<noteq> L_cancel" "job_turn P k l' p = Some p'" using assms(1,3) by (auto split: if_splits)
  from turn(2) show ?thesis
  proof (rule job_turn_as [OF assms(2)])
    fix ru0 s s' rs
    assume run: "running_job p k = Some (ru0, s)" and step: "sys_step (job_env_of P ru0) l' s = Some s'"
      and p': "p' = on_app (put_runner k (ru0\<lparr>ru_job := Some s'\<rparr>) \<circ> save_records P rs) p"
    have ru: "ru0 = ru" "ru_job ru = Some s" using running_jobD [OF run] assms(4) by simp_all
    have "runs_job P ru s"
      using app_invD [OF assms(2,4)] ru(2) by (simp add: task_ok_def)
    then have "\<not> run_over s"
      using over_turns step turn(1) ru(1) by blast
    then show ?thesis
      using ru p' by (simp add: same_runner_def)
  qed
next
  case (PL_finish k' ans draw)
  then have "finish_task P k ans draw p = Some p'" using assms(1,3) by simp
  then show ?thesis
    using assms(4) by (elim finish_task_as) simp
next
  case (PL_cancel k' now)
  then show ?thesis
    using assms same_runner_cancel by (auto simp: cancel_job_state)
qed (use assms(3) in simp)

text \<open>While the process lives a runner stays; a new one comes with a submission of an unused id.\<close>

lemma step_runner:
  assumes "proc_step P l p = Some p'" "app_inv P (pr_app p)" "label_job l \<noteq> None"
    and "dict_get (ap_runners (pr_app p)) job_id = Some ru"
  obtains ru' where "dict_get (ap_runners (pr_app p')) job_id = Some ru'" "same_runner ru ru'"
proof -
  obtain k where label: "label_job l = Some k" using assms(3) by blast
  show ?thesis
  proof (cases "job_id = k")
    case True
    then show ?thesis using own_step_runner [OF assms(1,2) label] assms(4) that by auto
  next
    case False
    then show ?thesis
      using other_step_view [OF assms(1,2) label False] assms(4) that by (simp add: job_view_def)
  qed
qed

lemma lifespan_start_fields [simp]:
  "ap_runners (lifespan_start s table ledger) = []" "ap_tasks (lifespan_start s table ledger) = []"
  "ap_store (lifespan_start s table ledger) = Some (sqlite_init table)"
  "ap_ledger (lifespan_start s table ledger) = ledger" "ap_settings (lifespan_start s table ledger) = s"
  by (simp_all add: lifespan_start_def new_app_state_def)

lemma restart_view:
  assumes "store_ok P (pr_app p)"
  shows "ap_runners (pr_app (proc_restart P graceful s p)) = []"
    "ap_tasks (pr_app (proc_restart P graceful s p)) = []"
    "row_of (pr_app (proc_restart P graceful s p)) job_id = row_of (pr_app p) job_id"
    "pr_ended (proc_restart P graceful s p) = []"
proof -
  obtain ledger where "pr_app (proc_restart P graceful s p) = lifespan_start s (ap_store (pr_app p)) ledger"
    using proc_restart_app by blast
  then show "ap_runners (pr_app (proc_restart P graceful s p)) = []"
    "ap_tasks (pr_app (proc_restart P graceful s p)) = []"
    "row_of (pr_app (proc_restart P graceful s p)) job_id = row_of (pr_app p) job_id"
    using assms by (auto simp: row_of_def sqlite_init_def store_ok_def)
  show "pr_ended (proc_restart P graceful s p) = []"
    by (simp add: proc_restart_def Let_def)
qed

text \<open>A row without a runner is never written again.\<close>

lemma orphan_step:
  assumes "proc_step P l p = Some p'" "app_inv P (pr_app p)"
    and "dict_get (ap_runners (pr_app p)) job_id = None" "row_of (pr_app p) job_id = Some raw"
  shows "dict_get (ap_runners (pr_app p')) job_id = None \<and> row_of (pr_app p') job_id = Some raw"
proof (cases "label_job l")
  case None
  then obtain graceful s where "l = PL_restart graceful s" by (cases l) auto
  then show ?thesis
    using assms restart_view [of P p graceful s] by (auto simp: app_inv_def)
next
  case (Some k)
  show ?thesis
  proof (cases "job_id = k")
    case False
    then show ?thesis
      using other_step_view [OF assms(1,2) Some False] assms(3,4) by (simp add: job_view_def)
  next
    case True
    then show ?thesis
      using assms Some
      by (cases l) (auto simp: unused_id_def row_of_def start_task_def job_turn_def finish_task_def
          running_job_def cancel_job_state split: if_splits option.splits)
  qed
qed

lemma orphan_later:
  assumes "proc_reaches P p p'" "app_inv P (pr_app p)"
    and "dict_get (ap_runners (pr_app p)) job_id = None" "row_of (pr_app p) job_id = Some raw"
  shows "dict_get (ap_runners (pr_app p')) job_id = None \<and> row_of (pr_app p') job_id = Some raw"
  using assms(1)
proof induction
  case start
  then show ?case using assms(3,4) by blast
next
  case (step p1 l p2)
  then show ?case using orphan_step proc_reaches_inv [OF step.hyps(1) assms(2)] by blast
qed

section \<open>No job is lost\<close>

text \<open>The job of the record \<open>r0\<close> is known: a runner has it, or a row that reads back.\<close>

definition known :: "proc_env \<Rightarrow> app_state \<Rightarrow> string \<Rightarrow> job_record \<Rightarrow> bool" where
  "known P st job_id r0 \<longleftrightarrow>
     (case dict_get (ap_runners st) job_id of
        Some ru \<Rightarrow> same_job r0 (ru_record ru)
      | None \<Rightarrow> \<exists>r. stored P st job_id r \<and> same_job r0 r \<and> record_json_ok r)"

lemma same_job_trans: "same_job a b \<Longrightarrow> same_job b c \<Longrightarrow> same_job a c"
  by (simp add: same_job_def)

lemma task_row:
  assumes "task_ok P st job_id ru"
  obtains r where "stored P st job_id r" "same_job (ru_record ru) r" "record_json_ok r"
    "\<And>s. ru_job ru = Some s \<Longrightarrow> r = last (js_saves s)"
proof (cases "ru_job ru")
  case None
  then have "stored P st job_id (ru_record ru)" "record_json_ok (ru_record ru)"
    using assms by (auto simp: task_ok_def submitted_ok_def fresh_record_def record_json_ok_def)
  then show ?thesis using that None by simp
next
  case (Some s)
  then have task: "stored P st job_id (last (js_saves s))" "runs_job P ru s" "submitted_ok job_id ru"
    using assms by (simp_all add: task_ok_def)
  then have "saves_inv (ru_record ru) s" using job_saves(1) by blast
  then have "same_job (ru_record ru) (last (js_saves s)) \<and> record_json_ok (last (js_saves s))"
    by (simp add: saves_inv_def list_all_iff)
  then show ?thesis using that task(1) Some by simp
qed

lemma known_row:
  assumes "known P st job_id r0" "app_inv P st"
  obtains r where "stored P st job_id r" "same_job r0 r" "record_json_ok r"
proof (cases "dict_get (ap_runners st) job_id")
  case None
  then show ?thesis using assms(1) that by (auto simp: known_def)
next
  case (Some ru)
  then have "same_job r0 (ru_record ru)" using assms(1) by (simp add: known_def)
  then show ?thesis
    using task_row [OF app_invD [OF assms(2) Some]] that same_job_trans by metis
qed

lemma known_step:
  assumes "proc_step P l p = Some p'" "label_ok p l" "app_inv P (pr_app p)" "known P (pr_app p) job_id r0"
  shows "known P (pr_app p') job_id r0"
proof (cases "dict_get (ap_runners (pr_app p)) job_id")
  case None
  then obtain r where r: "stored P (pr_app p) job_id r" "same_job r0 r" "record_json_ok r"
    using assms(4) by (auto simp: known_def)
  then show ?thesis
    using orphan_step [OF assms(1,3) None, of "record_to_json (ae_dumps (pe_api P)) r"]
    by (auto simp: known_def stored_row)
next
  case (Some ru)
  obtain r where r: "stored P (pr_app p) job_id r" "same_job r0 r" "record_json_ok r"
    by (rule known_row [OF assms(4,3)])
  have same: "same_job r0 (ru_record ru)" using assms(4) Some by (simp add: known_def)
  show ?thesis
  proof (cases "label_job l")
    case None
    then obtain graceful s where "l = PL_restart graceful s" by (cases l) auto
    then show ?thesis
      using assms(1,3) r restart_view [of P p graceful s] by (auto simp: known_def app_inv_def stored_row)
  next
    case label: (Some k)
    obtain ru' where "dict_get (ap_runners (pr_app p')) job_id = Some ru'" "same_runner ru ru'"
      by (rule step_runner [OF assms(1,3) _ Some]) (use label in simp_all)
    then show ?thesis using same by (auto simp: known_def same_runner_def)
  qed
qed

lemma known_later:
  assumes "proc_reaches P p p'" "app_inv P (pr_app p)" "known P (pr_app p) job_id r0"
  shows "known P (pr_app p') job_id r0"
  using assms(1)
proof induction
  case start
  then show ?case using assms(3) .
next
  case (step p1 l p2)
  then show ?case using known_step [OF step.hyps(3,2) proc_reaches_inv [OF step.hyps(1) assms(2)]] by blast
qed

lemma known_get:
  assumes "known P st job_id r0" "app_inv P st" "python_json (pe_api P)"
  obtains r where "get_record (pe_api P) now job_id st = Inr r" "same_job r0 r"
proof (cases "dict_get (ap_runners st) job_id")
  case None
  obtain r where "stored P st job_id r" "same_job r0 r" "record_json_ok r"
    by (rule known_row [OF assms(1,2)])
  then show ?thesis
    using that stored_read [OF _ _ assms(3)] None by (simp add: get_record_def)
next
  case (Some ru)
  have same: "same_job r0 (ru_record ru)" using assms(1) Some by (simp add: known_def)
  have task: "task_ok P st job_id ru" by (rule app_invD [OF assms(2) Some])
  have "same_job r0 (runner_record ru)"
  proof (cases "ru_job ru")
    case (Some s)
    then have "saves_inv (ru_record ru) s" using task job_saves(1) by (auto simp: task_ok_def)
    then show ?thesis
      using Some same same_job_trans same_job_the_record by (auto simp: runner_record_def saves_inv_def)
  qed (simp add: runner_record_def same)
  then show ?thesis using that Some by (simp add: get_record_def)
qed

text \<open>C6. No accepted job is lost: once \<open>POST /job\<close> has answered with an id, the service knows that job in
  every state it reaches from there, through any requests, turns of any jobs, graceful restarts and
  crashes: the status route never answers 404 or an error, and answers for that very submission (its
  configuration, its result path, its time).\<close>

theorem no_accepted_job_lost:
  assumes "service_reaches P s ledger p" "submit_request_valid b" "unused_id job_id (pr_app p)"
    and "submit_job (pe_api P) fs job_id t0 t1 b (pr_app p) = (Inr resp, st)"
    and "proc_reaches P (p\<lparr>pr_app := st\<rparr>) p'" "python_json (pe_api P)"
  shows "\<exists>r status. get_record (pe_api P) now job_id (pr_app p') = Inr r \<and>
    get_status (pe_api P) now job_id (pr_app p') = Inr status \<and> sr_job_id status = job_id \<and>
    jc_input_path (jr_config r) = sq_input_path b \<and> jr_submitted_at r = t0 \<and>
    jr_result_path r = ae_path_join (pe_api P) (st_results_dir (ap_settings (pr_app p))) (job_id @ ''.jsonl'')"
proof -
  have inv: "app_inv P (pr_app p)" by (rule service_inv [OF assms(1)])
  then obtain db where db: "ap_store (pr_app p) = Some db" and client: "ap_has_client (pr_app p)"
    by (auto simp: app_inv_def store_ok_def)
  have inv': "app_inv P (pr_app (p\<lparr>pr_app := st\<rparr>))"
    using submit_app_inv [OF inv assms(2), of fs job_id t0 t1] assms(4) by simp
  obtain config prov where config: "submit_checks (pe_api P) fs b (pr_app p) = Inr config"
    and run: "dict_get (ap_runners st) job_id =
      Some (new_runner (pr_app p) (submitted_record (pe_api P) job_id t0 t1 config (pr_app p)) prov)"
    using submit_job_Inr [OF assms(4)] by metis
  let ?r = "submitted_record (pe_api P) job_id t0 t1 config (pr_app p)"
  have "known P (pr_app (p\<lparr>pr_app := st\<rparr>)) job_id ?r"
    by (simp add: known_def run) (simp add: new_runner_def Let_def)
  from known_later [OF assms(5) inv' this] have known: "known P (pr_app p') job_id ?r" .
  obtain r where r: "get_record (pe_api P) now job_id (pr_app p') = Inr r" "same_job ?r r"
    by (rule known_get [OF known proc_reaches_inv [OF assms(5) inv'] assms(6)])
  obtain cap where "config = submit_config (ap_settings (pr_app p)) cap b"
    using submit_checks_Inr [OF config] by blast
  then show ?thesis
    using r by (simp add: get_status_def same_job_def submitted_record_def new_job_record_def submit_config_def)
qed

theorem no_accepted_job_lost_witness:
  "\<exists>status. get_status (pe_api demo_svc) 9 ''id'' (pr_app (service_state 16)) = Inr status \<and> sr_job_id status = ''id''"
proof -
  let ?submit = "submit_job (pe_api demo_svc) demo_files ''id'' 1 1 hooked_request (pr_app (service_state 0))"
  have facts: "unused_id ''id'' (pr_app (service_state 0))" "\<not> isl (fst ?submit)"
    using service_facts [of demo_dumps demo_loads] unfolding service_state_at [symmetric] by blast+
  obtain resp st where submit: "?submit = (Inr resp, st)"
    using facts(2) by (cases ?submit; cases "fst ?submit") auto
  have valid: "submit_request_valid hooked_request"
    by (simp add: submit_request_valid_def hooked_request_def demo_request_def)
  have "proc_step demo_svc (PL_submit demo_files ''id'' 1 1 hooked_request) (service_state 0) = Some (service_state 1)"
    using service_state_step [of 0] by (simp add: demo_service_labels_def)
  then have "(service_state 0)\<lparr>pr_app := st\<rparr> = service_state 1"
    using valid facts(1) submit by (simp add: on_app_def)
  then have "proc_reaches demo_svc ((service_state 0)\<lparr>pr_app := st\<rparr>) (service_state 16)"
    using service_state_later [of 1 16] by simp
  from no_accepted_job_lost [OF service_state_reaches valid facts(1) submit this demo_service_faithful]
  show ?thesis by blast
qed

section \<open>A finished job\<close>

text \<open>The job has ended with the record \<open>r\<close>, in this process or before a restart.\<close>

definition ended_with :: "proc_env \<Rightarrow> app_state \<Rightarrow> string \<Rightarrow> job_record \<Rightarrow> bool" where
  "ended_with P st job_id r \<longleftrightarrow>
     stored P st job_id r \<and> record_json_ok r \<and> terminal_status (jr_status r) \<and>
     (case dict_get (ap_runners st) job_id of
        None \<Rightarrow> True
      | Some ru \<Rightarrow> (\<exists>s. ru_job ru = Some s \<and> js_run s = R_done \<and> the_record s = r))"

lemma done_ended_with:
  assumes "app_inv P st" "dict_get (ap_runners st) job_id = Some ru" "ru_job ru = Some s" "js_run s = R_done"
  shows "ended_with P st job_id (the_record s)"
proof -
  have task: "task_ok P st job_id ru" by (rule app_invD [OF assms(1,2)])
  then have "saves_inv (ru_record ru) s"
    using job_saves(1) assms(3) by (auto simp: task_ok_def)
  then have last: "last (js_saves s) = the_record s" "terminal_status (jr_status (the_record s))"
    using assms(4) by (simp_all add: saves_inv_def)
  obtain r where "stored P st job_id r" "record_json_ok r" "r = last (js_saves s)"
    using task_row [OF task] assms(3) by metis
  then show ?thesis using last assms(2-4) by (simp add: ended_with_def)
qed

lemma ended_with_step:
  assumes "proc_step P l p = Some p'" "label_ok p l" "app_inv P (pr_app p)" "ended_with P (pr_app p) job_id r"
  shows "ended_with P (pr_app p') job_id r"
proof (cases "dict_get (ap_runners (pr_app p)) job_id")
  case None
  then show ?thesis
    using assms(4) orphan_step [OF assms(1,3) None, of "record_to_json (ae_dumps (pe_api P)) r"]
    by (simp add: ended_with_def stored_row)
next
  case (Some ru)
  then obtain s where s: "ru_job ru = Some s" "js_run s = R_done" "the_record s = r"
    using assms(4) by (auto simp: ended_with_def)
  show ?thesis
  proof (cases "label_job l")
    case None
    then obtain graceful s where "l = PL_restart graceful s" by (cases l) auto
    then show ?thesis
      using assms(1,3,4) restart_view [of P p graceful s] by (auto simp: ended_with_def app_inv_def stored_row)
  next
    case label: (Some k)
    have inv: "app_inv P (pr_app p')" by (rule proc_step_inv [OF assms(1-3)])
    obtain ru' where ru': "dict_get (ap_runners (pr_app p')) job_id = Some ru'" "same_runner ru ru'"
      by (rule step_runner [OF assms(1,3) _ Some]) (use label in simp_all)
    obtain s' where s': "ru_job ru' = Some s'" "js_run s' = R_done" "the_record s' = r"
      using ru'(2) s by (auto simp: same_runner_def run_over_def)
    show ?thesis using done_ended_with [OF inv ru'(1) s'(1,2)] s'(3) by simp
  qed
qed

lemma ended_with_later:
  assumes "proc_reaches P p p'" "app_inv P (pr_app p)" "ended_with P (pr_app p) job_id r"
  shows "ended_with P (pr_app p') job_id r"
  using assms(1)
proof induction
  case start
  then show ?case using assms(3) .
next
  case (step p1 l p2)
  then show ?case using ended_with_step [OF step.hyps(3,2) proc_reaches_inv [OF step.hyps(1) assms(2)]] by blast
qed

lemma ended_with_get:
  assumes "ended_with P st job_id r" "python_json (pe_api P)"
  shows "get_record (pe_api P) now job_id st = Inr r"
  using assms stored_read [of P st job_id r now]
  by (auto simp: ended_with_def get_record_def runner_record_def split: option.splits)

text \<open>C8. A finished job stays what it is: once its \<open>run\<close> has returned, every later state of the service,
  after any further requests (cancelling that job included), turns of other jobs, restarts and crashes,
  answers with the very record the job ended with, whose status is terminal.\<close>

theorem finished_job_final:
  assumes "service_reaches P s ledger p" "dict_get (ap_runners (pr_app p)) job_id = Some ru"
    and "ru_job ru = Some j" "js_run j = R_done" "proc_reaches P p p'" "python_json (pe_api P)"
  shows "get_record (pe_api P) now job_id (pr_app p') = Inr (the_record j) \<and>
    jr_status (the_record j) \<noteq> JS_QUEUED \<and> jr_status (the_record j) \<noteq> JS_RUNNING"
proof -
  have "ended_with P (pr_app p') job_id (the_record j)"
    using ended_with_later [OF assms(5)] done_ended_with [OF _ assms(2-4)] service_inv [OF assms(1)] by blast
  from ended_with_get [OF this assms(6)] this show ?thesis
    by (simp add: ended_with_def terminal_status_def)
qed

theorem finished_job_final_witness:
  "\<exists>r. get_record (pe_api demo_svc) 9 ''id'' (pr_app (service_state 16)) = Inr r \<and> jr_status r = JS_SUCCEEDED"
proof -
  obtain ru j where run: "running_job (service_state 13) ''id'' = Some (ru, j)" "js_run j = R_done"
    "jr_status (the_record j) = JS_SUCCEEDED"
    using demo_running(2) by blast
  from finished_job_final [OF service_state_reaches running_jobD(1,2) [OF run(1)] run(2)
      service_state_later [of 13 16] demo_service_faithful]
  show ?thesis using run(3) by auto
qed

section \<open>An interrupted job\<close>

lemma unended_saves:
  assumes "runs_job P ru s" "submitted_ok job_id ru" "before_end (js_run s)"
  shows "jr_status (last (js_saves s)) = JS_RUNNING"
proof -
  obtain rows where "job_reaches (job_env_of P ru) (ru_record ru) (ru_rate_limit_rpm ru) rows s"
    using assms(1) by (auto simp: runs_job_def)
  from reachable_record [OF this] have "list_all (\<lambda>r. jr_status r = JS_RUNNING) (js_saves s)"
    using assms(2,3) by (simp add: submitted_ok_def record_inv_def)
  moreover have "js_saves s \<noteq> []"
    using job_saves(1) [OF assms(1,2)] by (simp add: saves_inv_def)
  ultimately show ?thesis by (simp add: list_all_iff)
qed



end
