(* ===== verification/ProcessBatch.thy ===== *)
theory ProcessBatch
  imports ProcessProps
begin

text \<open>
  A batch through the whole service: from the file that the task of a job reads to its result file and the
  counts the status route serves, among any other jobs and requests.
\<close>

section \<open>The rows of a started job\<close>

text \<open>The job of the runner has started on \<open>rows\<close>; the id is taken.\<close>

definition started_on :: "proc_env \<Rightarrow> app_state \<Rightarrow> string \<Rightarrow> parsed list \<Rightarrow> bool" where
  "started_on P st job_id rows \<longleftrightarrow>
     row_of st job_id \<noteq> None \<and>
     (case dict_get (ap_runners st) job_id of
        None \<Rightarrow> True
      | Some ru \<Rightarrow> (case ru_job ru of None \<Rightarrow> False
          | Some s \<Rightarrow> job_reaches (job_env_of P ru) (ru_record ru) (ru_rate_limit_rpm ru) rows s))"

lemma started_on_start:
  assumes "start_task P job_id prior nb ns content p = Some p1" "app_inv P (pr_app p)"
    and "iter_items_sync (pe_py_repr P) (pe_json_line P) (pe_ijson P) content = (rows, err)"
  shows "started_on P (pr_app p1) job_id rows"
proof -
  obtain ru where ru: "dict_get (ap_runners (pr_app p)) job_id = Some ru" "ru_job ru = None"
    using assms(1) by (auto simp: start_task_def split: option.splits if_splits)
  have task: "submitted_ok job_id ru"
    using app_invD [OF assms(2) ru(1)] by (simp add: task_ok_def)
  obtain s where s: "ru_job (runner_start prior nb ns rows err ru) = Some s"
    "job_reaches (job_env_of P ru) (ru_record ru) (ru_rate_limit_rpm ru) rows s"
    by (rule runner_start_job [OF task ru(2) parsed_ok [OF assms(3)], where P = P])
  have same: "job_env_of P (runner_start prior nb ns rows err ru) = job_env_of P ru"
    "ru_record (runner_start prior nb ns rows err ru) = ru_record ru"
    "ru_rate_limit_rpm (runner_start prior nb ns rows err ru) = ru_rate_limit_rpm ru"
    by (simp_all add: runner_start_def Let_def)
  have "proc_step P (PL_start job_id prior nb ns content) p = Some p1" using assms(1) by simp
  then have inv: "app_inv P (pr_app p1)" using start_app_inv [OF assms(2,1)] by simp
  have run: "dict_get (ap_runners (pr_app p1)) job_id = Some (runner_start prior nb ns rows err ru)"
    using assms(1,3) ru by (auto simp: start_task_def on_app_def Let_def)
  have "row_of (pr_app p1) job_id \<noteq> None"
    by (rule task_row [OF app_invD [OF inv run]]) (simp add: stored_row)
  then show ?thesis
    using run s by (simp add: started_on_def same)
qed

lemma started_on_runner:
  assumes "started_on P st job_id rows" "dict_get (ap_runners st) job_id = Some ru"
  obtains s where "ru_job ru = Some s"
    "job_reaches (job_env_of P ru) (ru_record ru) (ru_rate_limit_rpm ru) rows s"
  using assms by (auto simp: started_on_def split: option.splits)

lemma started_on_own:
  assumes "proc_step P l p = Some p'" "app_inv P (pr_app p)" "label_job l = Some job_id"
    and "started_on P (pr_app p) job_id rows" "row_of (pr_app p') job_id \<noteq> None"
  shows "started_on P (pr_app p') job_id rows"
proof (cases "dict_get (ap_runners (pr_app p)) job_id")
  case None
  obtain raw where "row_of (pr_app p) job_id = Some raw" using assms(4) by (auto simp: started_on_def)
  from orphan_step [OF assms(1,2) None this] show ?thesis by (simp add: started_on_def)
next
  case (Some ru)
  obtain s where s: "ru_job ru = Some s"
    "job_reaches (job_env_of P ru) (ru_record ru) (ru_rate_limit_rpm ru) rows s"
    by (rule started_on_runner [OF assms(4) Some])
  show ?thesis
  proof (cases l)
    case (PL_submit fs k t0 t1 b)
    then show ?thesis using assms(1,3) Some by (simp add: unused_id_def split: if_splits)
  next
    case (PL_start k prior nb ns content)
    then show ?thesis using assms(1,3) Some s(1) by (simp add: start_task_def)
  next
    case (PL_turn k l')
    then have "job_turn P job_id l' p = Some p'" using assms(1,3) by (simp split: if_splits)
    then obtain ru0 s0 s' rs where turn: "running_job p job_id = Some (ru0, s0)"
      "sys_step (job_env_of P ru0) l' s0 = Some s'"
      "p' = on_app (put_runner job_id (ru0\<lparr>ru_job := Some s'\<rparr>) \<circ> save_records P rs) p"
      by (rule job_turn_as [OF assms(2)])
    then have "ru0 = ru" "s0 = s" using running_jobD [OF turn(1)] Some s(1) by simp_all
    then show ?thesis
      using job_reaches_step [OF s(2)] turn(2,3) assms(5) by (simp add: started_on_def)
  next
    case (PL_finish k ans draw)
    then have "finish_task P job_id ans draw p = Some p'" using assms(1,3) by simp
    then show ?thesis
      using Some s assms(5) by (elim finish_task_as) (simp add: started_on_def)
  next
    case (PL_cancel k now)
    have "job_reaches (job_env_of P ru) (ru_record ru) (ru_rate_limit_rpm ru) rows (cancel_job_event s)"
      using job_reaches_step [OF s(2), of L_cancel] by simp
    then show ?thesis
      using PL_cancel assms(1,3,5) Some s(1) by (auto simp: started_on_def cancel_job_state runner_cancel_def)
  qed (use assms(3) in simp)
qed

lemma started_on_step:
  assumes "proc_step P l p = Some p'" "label_ok p l" "app_inv P (pr_app p)" "started_on P (pr_app p) job_id rows"
  shows "started_on P (pr_app p') job_id rows"
proof (cases "label_job l")
  case None
  then obtain graceful s where "l = PL_restart graceful s" by (cases l) auto
  then show ?thesis
    using assms(1,3,4) restart_view [of P p graceful s] by (auto simp: started_on_def app_inv_def)
next
  case (Some k)
  show ?thesis
  proof (cases "job_id = k")
    case True
    have "row_of (pr_app p') job_id \<noteq> None"
    proof (cases "dict_get (ap_runners (pr_app p)) job_id")
      case None
      then show ?thesis using orphan_step [OF assms(1,3) None] assms(4) by (auto simp: started_on_def)
    next
      case run: (Some ru)
      obtain ru' where "dict_get (ap_runners (pr_app p')) job_id = Some ru'"
        by (rule step_runner [OF assms(1,3) _ run]) (use Some in simp)
      then show ?thesis
        using task_row [OF app_invD [OF proc_step_inv [OF assms(1-3)]]] by (metis stored_row option.distinct(1))
    qed
    then show ?thesis using started_on_own [OF assms(1,3) _ assms(4)] Some True by simp
  next
    case False
    then show ?thesis
      using other_step_view [OF assms(1,3) Some False] assms(4) by (simp add: job_view_def started_on_def)
  qed
qed

lemma started_on_later:
  assumes "proc_reaches P p p'" "app_inv P (pr_app p)" "started_on P (pr_app p) job_id rows"
  shows "started_on P (pr_app p') job_id rows"
  using assms(1)
proof induction
  case start
  then show ?case using assms(3) .
next
  case (step p1 l p2)
  then show ?case using started_on_step [OF step.hyps(3,2) proc_reaches_inv [OF step.hyps(1) assms(2)]] by blast
qed

section \<open>End to end\<close>

text \<open>C5. A batch through the service: when the task of a job without an item cap reads a JSON Lines file and
  its run later ends, neither cancelled nor aborted, then, whatever the other jobs and requests did in
  between, its result file has exactly one synced line for each non-blank line of the input, carrying the
  ids of the input rows, and the status route serves counts that add up to that number.\<close>

theorem service_end_to_end:
  assumes "service_reaches P s ledger p" "proc_step P (PL_start job_id prior nb ns content) p = Some p1"
    and "\<not> sniff_is_json_array content" "proc_reaches P p1 p2"
    and "dict_get (ap_runners (pr_app p2)) job_id = Some ru" "ru_job ru = Some j" "job_over j"
    and "jc_max_items (jr_config (ru_record ru)) = None"
    and "\<not> wc_cancel_event (js_ctx j)" "\<not> wc_abort_event (js_ctx j)"
  shows "let n = length (filter (\<lambda>l. py_strip l \<noteq> []) (file_lines content)); sink = wc_sink (js_ctx j) in
    length (sk_lines sink) = n \<and> sk_durable sink = n \<and>
    mset (map sink_item_id (wc_emitted (js_ctx j))) =
      mset (map parsed_id (jsonl_items (pe_py_repr P) (pe_json_line P) 0 (file_lines content))) \<and>
    (\<exists>r. get_record (pe_api P) now job_id (pr_app p2) = Inr r \<and>
      succeeded (jr_counts r) + failed (jr_counts r) = int n)"
proof -
  let ?rows = "jsonl_items (pe_py_repr P) (pe_json_line P) 0 (file_lines content)"
  have inv: "app_inv P (pr_app p)" by (rule service_inv [OF assms(1)])
  have start: "start_task P job_id prior nb ns content p = Some p1" using assms(2) by simp
  have rows: "iter_items_sync (pe_py_repr P) (pe_json_line P) (pe_ijson P) content = (?rows, None)"
    using assms(3) by (simp add: iter_items_sync_def)
  have inv1: "app_inv P (pr_app p1)" by (rule start_app_inv [OF inv start])
  have "started_on P (pr_app p2) job_id ?rows"
    by (rule started_on_later [OF assms(4) inv1 started_on_start [OF start inv rows]])
  then have reach: "job_reaches (job_env_of P ru) (ru_record ru) (ru_rate_limit_rpm ru) ?rows j"
    using started_on_runner [OF _ assms(5)] assms(6) by (metis option.inject)
  have task: "task_ok P (pr_app p2) job_id ru"
    by (rule app_invD [OF proc_reaches_inv [OF assms(4) inv1] assms(5)])
  then have n: "0 < workers_of (ru_record ru) (ru_rate_limit_rpm ru)"
    by (simp add: task_ok_def submitted_ok_def)
  note lines = rows_to_lines [OF reach assms(7) n assms(8-10)]
  have jinv: "job_inv (job_env_of P ru) ?rows (workers_of (ru_record ru) (ru_rate_limit_rpm ru)) j"
    by (rule job_reaches_inv [OF reach])
  have "succeeded (wc_counts (js_ctx j)) + failed (wc_counts (js_ctx j)) =
      int (length (sk_lines (wc_sink (js_ctx j))))"
    using over_counts [OF jinv assms(7) n] over_lines [OF jinv assms(7)] by (simp add: conserved_def)
  moreover have "get_record (pe_api P) now job_id (pr_app p2) = Inr (the_record j)"
    using assms(5,6) by (simp add: get_record_def runner_record_def)
  ultimately show ?thesis
    using lines by (simp add: length_jsonl_items Let_def)
qed

text \<open>A mock job over a file with one broken line and one blank one.\<close>

definition batch_labels :: "proc_label list" where
  "batch_labels =
     [PL_submit demo_files ''id'' 1 1 (demo_request\<lparr>sq_concurrency := Some 1\<rparr>),
      PL_start ''id'' [] 2 2 demo_content]
     @ map (PL_turn ''id'') (replicate 5 (L_run 3) @ [demo_resume 4, demo_resume 5, L_run 6, L_sink 7, L_sink 7,
         L_run 8, L_run 9])"

abbreviation batch_at :: "(json \<Rightarrow> string) \<Rightarrow> (string \<Rightarrow> json option) \<Rightarrow> nat \<Rightarrow> process" where
  "batch_at dumps loads k \<equiv> the (proc_run (demo_service dumps loads) (take k batch_labels)
     (proc_start default_settings None None))"

lemma batch_runs:
  "proc_run (demo_service dumps loads) batch_labels (proc_start default_settings None None) \<noteq> None \<and>
   (case running_job (batch_at dumps loads 14) ''id'' of None \<Rightarrow> False
    | Some (ru, j) \<Rightarrow> job_over j \<and> jc_max_items (jr_config (ru_record ru)) = None \<and>
        \<not> wc_cancel_event (js_ctx j) \<and> \<not> wc_abort_event (js_ctx j)) \<and>
   \<not> sniff_is_json_array demo_content \<and>
   length (filter (\<lambda>l. py_strip l \<noteq> []) (file_lines demo_content)) = 1 \<and> length batch_labels = 14"
  by code_simp

theorem service_end_to_end_witness:
  "\<exists>ru j. running_job (batch_at demo_dumps demo_loads 14) ''id'' = Some (ru, j) \<and>
     length (sk_lines (wc_sink (js_ctx j))) = 1"
proof -
  let ?at = "batch_at demo_dumps demo_loads" and ?start = "proc_start default_settings None None"
  have runs: "proc_run demo_svc batch_labels ?start \<noteq> None"
    and facts: "case running_job (?at 14) ''id'' of None \<Rightarrow> False
      | Some (ru, j) \<Rightarrow> job_over j \<and> jc_max_items (jr_config (ru_record ru)) = None \<and>
          \<not> wc_cancel_event (js_ctx j) \<and> \<not> wc_abort_event (js_ctx j)"
      "\<not> sniff_is_json_array demo_content"
      "length (filter (\<lambda>l. py_strip l \<noteq> []) (file_lines demo_content)) = 1" "length batch_labels = 14"
    using batch_runs [of demo_dumps demo_loads] by blast+
  obtain ru j where run: "running_job (?at 14) ''id'' = Some (ru, j)" and j: "job_over j"
    "jc_max_items (jr_config (ru_record ru)) = None" "\<not> wc_cancel_event (js_ctx j)" "\<not> wc_abort_event (js_ctx j)"
    using facts(1) by (auto split: option.splits)
  note at = proc_run_take [OF runs]
  have first: "take 2 batch_labels = take 1 batch_labels @ [PL_start ''id'' [] 2 2 demo_content]"
    "take 14 batch_labels = take 2 batch_labels @ drop 2 batch_labels"
    using facts(4) by (simp_all add: batch_labels_def numeral_2_eq_2)
  have "proc_run demo_svc [PL_start ''id'' [] 2 2 demo_content] (?at 1) = Some (?at 2)"
    using proc_run_rest [OF _ at [of 1]] at [of 2] first(1) by metis
  then have step: "proc_step demo_svc (PL_start ''id'' [] 2 2 demo_content) (?at 1) = Some (?at 2)"
    by (auto split: option.splits if_splits)
  have "proc_run demo_svc (drop 2 batch_labels) (?at 2) = Some (?at 14)"
    using proc_run_rest [OF _ at [of 2]] at [of 14] first(2) by metis
  then have later: "proc_reaches demo_svc (?at 2) (?at 14)"
    using proc_reaches.start by (rule proc_run_reaches)
  have "service_reaches demo_svc default_settings None (?at 1)"
    using proc_run_reaches [OF at proc_reaches.start] by (simp add: service_reaches_def default_settings_def)
  from service_end_to_end [OF this step facts(2) later running_jobD(1,2) [OF run] j]
  show ?thesis using run facts(3) by (auto simp: Let_def)
qed

end
