(* ===== verification/ProcessLedger.thy ===== *)
theory ProcessLedger
  imports ProcessProps
begin

text \<open>
  The books of the whole service: the spend ledger over many jobs and restarts, the webhooks, and the
  progress of each job among the others.
\<close>

section \<open>The ledger\<close>

lemma row_stays:
  assumes "proc_step P l p = Some p'" "label_ok p l" "app_inv P (pr_app p)" "row_of (pr_app p) job_id \<noteq> None"
  shows "row_of (pr_app p') job_id \<noteq> None"
proof (cases "dict_get (ap_runners (pr_app p)) job_id")
  case None
  then show ?thesis using orphan_step [OF assms(1,3) None] assms(4) by auto
next
  case (Some ru)
  show ?thesis
  proof (cases "label_job l")
    case None
    then obtain graceful s where "l = PL_restart graceful s" by (cases l) auto
    then show ?thesis using assms(1,3,4) restart_view(3) [of P p] by (auto simp: app_inv_def)
  next
    case label: (Some k)
    obtain ru' where "dict_get (ap_runners (pr_app p')) job_id = Some ru'"
      by (rule step_runner [OF assms(1,3) _ Some]) (use label in simp_all)
    then show ?thesis
      using task_row [OF app_invD [OF proc_step_inv [OF assms(1-3)]]] by (metis stored_row option.distinct(1))
  qed
qed

text \<open>Only the end of a task and a restart touch the ledger and the tasks that are done.\<close>

fun leaves_books :: "proc_label \<Rightarrow> bool" where
  "leaves_books (PL_finish job_id ans draw) = False"
| "leaves_books (PL_restart graceful s) = False"
| "leaves_books _ = True"

lemma submit_ledger: "ap_ledger (snd (submit_job A fs k t0 t1 b st)) = ap_ledger st"
  by (auto simp: submit_job_def Let_def split: sum.split)

lemma leaves_books_step:
  assumes "proc_step P l p = Some p'" "app_inv P (pr_app p)" "leaves_books l"
  shows "pr_costs p' = pr_costs p" "pr_ended p' = pr_ended p" "pr_posts p' = pr_posts p"
    "ap_ledger (pr_app p') = ap_ledger (pr_app p)"
proof -
  have "pr_costs p' = pr_costs p \<and> pr_ended p' = pr_ended p \<and> pr_posts p' = pr_posts p \<and>
      ap_ledger (pr_app p') = ap_ledger (pr_app p)"
  proof (cases l)
    case (PL_start k prior nb ns content)
    then have "start_task P k prior nb ns content p = Some p'" using assms(1) by simp
    then show ?thesis by (rule start_task_as [OF assms(2)]) simp
  next
    case (PL_turn k l')
    then have "job_turn P k l' p = Some p'" using assms(1) by (simp split: if_splits)
    then show ?thesis by (rule job_turn_as [OF assms(2)]) simp
  next
    case (PL_submit fs k t0 t1 b)
    then show ?thesis using assms(1) by (auto simp: submit_ledger split: if_splits)
  next
    case (PL_cancel k now)
    then show ?thesis using assms(1) by (auto simp: cancel_job_state split: option.split)
  qed (use assms(3) in simp_all)
  then show "pr_costs p' = pr_costs p" "pr_ended p' = pr_ended p" "pr_posts p' = pr_posts p"
    "ap_ledger (pr_app p') = ap_ledger (pr_app p)"
    by simp_all
qed

lemma step_new_runner:
  assumes "proc_step P l p = Some p'" "app_inv P (pr_app p)" "label_job l \<noteq> None"
    and "dict_get (ap_runners (pr_app p)) job_id = None" "dict_get (ap_runners (pr_app p')) job_id \<noteq> None"
  shows "row_of (pr_app p) job_id = None"
  using orphan_step [OF assms(1,2,4)] assms(5) by (cases "row_of (pr_app p) job_id") auto

lemma step_tasks:
  assumes "proc_step P l p = Some p'" "app_inv P (pr_app p)" "label_job l \<noteq> None"
    and "dict_get (ap_runners (pr_app p)) job_id \<noteq> None"
  shows "dict_get (ap_tasks (pr_app p')) job_id = dict_get (ap_tasks (pr_app p)) job_id"
proof -
  obtain k where label: "label_job l = Some k" using assms(3) by blast
  show ?thesis
  proof (cases "job_id = k")
    case False
    then show ?thesis using other_step_view [OF assms(1,2) label False] by (simp add: job_view_def)
  next
    case True
    show ?thesis
    proof (cases l)
      case (PL_submit fs k' t0 t1 b)
      then show ?thesis using assms(1,4) label True by (simp add: unused_id_def split: if_splits)
    next
      case (PL_start k' prior nb ns content)
      then have "start_task P k prior nb ns content p = Some p'" using assms(1) label by simp
      then show ?thesis by (rule start_task_as [OF assms(2)]) simp
    next
      case (PL_turn k' l')
      then have "job_turn P k l' p = Some p'" using assms(1) label by (simp split: if_splits)
      then show ?thesis by (rule job_turn_as [OF assms(2)]) simp
    next
      case (PL_finish k' ans draw)
      then have "finish_task P k ans draw p = Some p'" using assms(1) label by simp
      then show ?thesis by (rule finish_task_as) simp
    next
      case (PL_cancel k' now)
      then show ?thesis using assms(1) by (auto simp: cancel_job_state split: option.split)
    qed (use label in simp)
  qed
qed

text \<open>The ledger is the sum of the costs recorded, one for each job at most; a job whose task lives is not
  among them.\<close>

definition ledger_total :: "proc_env \<Rightarrow> process \<Rightarrow> py_exn + pyfloat" where
  "ledger_total P p =
     load_total_spend (ae_loads (pe_api P)) (ae_parse_float (pe_api P)) (ap_ledger (pr_app p))"

definition costs_sum :: "process \<Rightarrow> pyfloat" where
  "costs_sum p = sum_list (map (\<lambda>(job_id, c). max 0 c) (pr_costs p))"

definition books_ok :: "proc_env \<Rightarrow> pyfloat \<Rightarrow> process \<Rightarrow> bool" where
  "books_ok P x p \<longleftrightarrow>
     ledger_total P p = Inr (x + costs_sum p) \<and> distinct (map fst (pr_costs p)) \<and>
     (\<forall>job_id \<in> set (map fst (pr_costs p)). row_of (pr_app p) job_id \<noteq> None \<and>
        (dict_get (ap_runners (pr_app p)) job_id \<noteq> None \<longrightarrow> job_id \<in> set (pr_ended p)))"

lemma settle_books:
  assumes "books_ok P x p" "python_json (pe_api P)" "job_id \<notin> set (pr_ended p)"
    and "dict_get (ap_runners (pr_app p)) job_id = Some ru" "row_of (pr_app p) job_id \<noteq> None"
  shows "books_ok P x (settle_task P job_id ru p)"
    "pr_costs (settle_task P job_id ru p) =
       (if dict_get (ap_tasks (pr_app p)) job_id = Some True
        then pr_costs p @ [(job_id, ut_estimated_cost_usd (jr_usage (runner_record ru)))] else pr_costs p)"
proof -
  let ?A = "pe_api P" and ?c = "ut_estimated_cost_usd (jr_usage (runner_record ru))"
  have new: "job_id \<notin> set (map fst (pr_costs p))"
    using assms(1,3,4) by (auto simp: books_ok_def)
  have "record_spend (ae_dumps ?A) (ae_loads ?A) (ae_parse_float ?A) ?c (ap_ledger (pr_app p)) =
      Inr (x + costs_sum p + max 0 ?c,
        ae_dumps ?A (JObj [(''total_spend_usd'', JFloat (x + costs_sum p + max 0 ?c))]))"
    using assms(1) by (simp add: books_ok_def ledger_total_def record_spend_def Let_def)
  then have settle: "run_and_settle ?A live (runner_record ru) (pr_app p) =
      (None, if live then (pr_app p)\<lparr>ap_ledger := Some (ae_dumps ?A
        (JObj [(''total_spend_usd'', JFloat (x + costs_sum p + max 0 ?c))]))\<rparr> else pr_app p)" for live
    by (simp add: run_and_settle_def)
  then show costs: "pr_costs (settle_task P job_id ru p) =
       (if dict_get (ap_tasks (pr_app p)) job_id = Some True then pr_costs p @ [(job_id, ?c)] else pr_costs p)"
    by (simp add: settle_task_def Let_def)
  have "ledger_total P (settle_task P job_id ru p) = Inr (x + costs_sum (settle_task P job_id ru p))"
    using assms(1,2) load_recorded [of "ae_dumps ?A" "ae_loads ?A" "ae_parse_float ?A" "x + costs_sum p + max 0 ?c"]
    by (auto simp: settle_task_def settle ledger_total_def costs_sum_def books_ok_def python_json_ledger Let_def)
  then show "books_ok P x (settle_task P job_id ru p)"
    using assms(1,5) new by (auto simp: books_ok_def costs)
qed

lemma runner_row:
  assumes "app_inv P st" "dict_get (ap_runners st) job_id = Some ru"
  shows "row_of st job_id \<noteq> None"
  by (rule task_row [OF app_invD [OF assms]]) (simp add: stored_row)

lemma stop_books:
  assumes "books_ok P x p" "python_json (pe_api P)" "app_inv P (pr_app p)"
  shows "books_ok P x (fold (stop_task P) ids p)"
  using assms
proof (induction ids arbitrary: p)
  case (Cons k ids)
  have "app_inv P (pr_app (stop_task P k p))"
    using only_ledger_inv [OF stop_task_ledger] Cons.prems(3) by blast
  moreover have "books_ok P x (stop_task P k p)"
    using Cons.prems settle_books(1) [OF Cons.prems(1,2), of k] runner_row [OF Cons.prems(3), of k]
    by (auto simp: stop_task_def split: option.split)
  ultimately show ?case using Cons.IH Cons.prems(2) by simp
qed simp

lemma restart_books:
  assumes "books_ok P x p" "python_json (pe_api P)" "app_inv P (pr_app p)"
  shows "books_ok P x (proc_restart P graceful s p)" "pr_ended (proc_restart P graceful s p) = []"
proof -
  define q where "q = (if graceful then lifespan_stop P p else p)"
  have q: "books_ok P x q" "only_ledger (pr_app p) (pr_app q)"
    using stop_books [OF assms] lifespan_stop_ledger assms(1) by (auto simp: q_def lifespan_stop_def)
  have restart: "proc_restart P graceful s p =
      q\<lparr>pr_app := lifespan_start s (ap_store (pr_app q)) (ap_ledger (pr_app q)), pr_ended := []\<rparr>"
    by (simp add: proc_restart_def q_def Let_def)
  obtain db where "ap_store (pr_app p) = Some db"
    using assms(3) by (auto simp: app_inv_def store_ok_def)
  then have "row_of (lifespan_start s (ap_store (pr_app q)) (ap_ledger (pr_app q))) job_id = row_of (pr_app q) job_id" for job_id
    using only_ledger_fields(1) [OF q(2)] by (simp add: row_of_def sqlite_init_def)
  then show "books_ok P x (proc_restart P graceful s p)"
    using q(1) by (auto simp: restart books_ok_def ledger_total_def costs_sum_def)
  show "pr_ended (proc_restart P graceful s p) = []" by (simp add: restart)
qed

text \<open>The tasks of this process that are done: their run is over, and those of live jobs are billed with the
  cost in their record.\<close>

definition over_runner :: "job_runner \<Rightarrow> bool" where
  "over_runner ru \<longleftrightarrow> (case ru_job ru of None \<Rightarrow> False | Some s \<Rightarrow> run_over s)"

definition billed_ok :: "process \<Rightarrow> bool" where
  "billed_ok p \<longleftrightarrow>
     (\<forall>job_id \<in> set (pr_ended p).
       \<exists>ru. dict_get (ap_runners (pr_app p)) job_id = Some ru \<and> over_runner ru \<and>
         (dict_get (ap_tasks (pr_app p)) job_id = Some True \<longrightarrow>
           (job_id, ut_estimated_cost_usd (jr_usage (runner_record ru))) \<in> set (pr_costs p)))"

lemma same_runner_over:
  assumes "same_runner ru ru'" "over_runner ru"
  shows "over_runner ru'" "runner_record ru' = runner_record ru"
proof -
  obtain s where s: "ru_job ru = Some s" "run_over s"
    using assms(2) by (auto simp: over_runner_def split: option.splits)
  then obtain s' where "ru_job ru' = Some s'" "js_run s' = js_run s" "the_record s' = the_record s"
    using assms(1) by (auto simp: same_runner_def)
  then show "over_runner ru'" "runner_record ru' = runner_record ru"
    using s by (simp_all add: over_runner_def run_over_def runner_record_def)
qed

lemma books_step:
  assumes "proc_step P l p = Some p'" "label_ok p l" "app_inv P (pr_app p)" "python_json (pe_api P)"
    and "books_ok P x p" "billed_ok p"
  shows "books_ok P x p' \<and> billed_ok p'"
proof (cases "leaves_books l")
  case True
  then have label: "label_job l \<noteq> None" by (cases l) simp_all
  note same = leaves_books_step [OF assms(1,3) True]
  have row: "row_of (pr_app p') k \<noteq> None" if "row_of (pr_app p) k \<noteq> None" for k
    by (rule row_stays [OF assms(1-3) that])
  have ended: "k \<in> set (pr_ended p')"
    if "k \<in> set (map fst (pr_costs p))" "dict_get (ap_runners (pr_app p')) k \<noteq> None" for k
  proof -
    have "dict_get (ap_runners (pr_app p)) k \<noteq> None"
      using step_new_runner [OF assms(1,3) label _ that(2)] assms(5) that(1)
      by (fastforce simp: books_ok_def)
    then show ?thesis using assms(5) that(1) same(2) by (auto simp: books_ok_def)
  qed
  have "books_ok P x p'"
    using assms(5) row ended by (auto simp: books_ok_def ledger_total_def costs_sum_def same)
  moreover have "billed_ok p'"
    unfolding billed_ok_def same
  proof
    fix k assume k: "k \<in> set (pr_ended p)"
    then obtain ru where ru: "dict_get (ap_runners (pr_app p)) k = Some ru" "over_runner ru"
      "dict_get (ap_tasks (pr_app p)) k = Some True \<longrightarrow>
        (k, ut_estimated_cost_usd (jr_usage (runner_record ru))) \<in> set (pr_costs p)"
      using assms(6) by (auto simp: billed_ok_def)
    obtain ru' where ru': "dict_get (ap_runners (pr_app p')) k = Some ru'" "same_runner ru ru'"
      by (rule step_runner [OF assms(1,3) label ru(1)])
    have tasks: "dict_get (ap_tasks (pr_app p')) k = dict_get (ap_tasks (pr_app p)) k"
      using step_tasks [OF assms(1,3) label] ru(1) by simp
    show "\<exists>ru. dict_get (ap_runners (pr_app p')) k = Some ru \<and> over_runner ru \<and>
         (dict_get (ap_tasks (pr_app p')) k = Some True \<longrightarrow>
           (k, ut_estimated_cost_usd (jr_usage (runner_record ru))) \<in> set (pr_costs p))"
      using ru ru' same_runner_over [OF ru'(2) ru(2)] tasks by (intro exI [of _ ru']) simp
  qed
  ultimately show ?thesis by blast
next
  case False
  show ?thesis
  proof (cases l)
    case (PL_finish k ans draw)
    then have "finish_task P k ans draw p = Some p'" using assms(1) by simp
    then obtain ru s posts where run: "running_job p k = Some (ru, s)" "run_over s"
      and p': "p' = settle_task P k ru (p\<lparr>pr_posts := pr_posts p @ [(k, posts)]\<rparr>)" (is "_ = settle_task P k ru ?p")
      by (rule finish_task_as)
    note ru = running_jobD [OF run(1)]
    have books: "books_ok P x ?p" using assms(5) by (simp add: books_ok_def ledger_total_def costs_sum_def)
    note settle = settle_books [OF books assms(4), of k ru]
    have "row_of (pr_app p) k \<noteq> None" by (rule runner_row [OF assms(3) ru(1)])
    then have "books_ok P x p'" and costs: "pr_costs p' = (if dict_get (ap_tasks (pr_app p)) k = Some True
        then pr_costs p @ [(k, ut_estimated_cost_usd (jr_usage (runner_record ru)))] else pr_costs p)"
      using settle ru by (simp_all add: p')
    moreover have fields: "pr_ended p' = k # pr_ended p" "ap_runners (pr_app p') = ap_runners (pr_app p)"
      "ap_tasks (pr_app p') = ap_tasks (pr_app p)"
      by (simp_all add: p')
    moreover have "billed_ok p'"
      using assms(6) ru run(2) by (auto simp: billed_ok_def fields costs over_runner_def)
    ultimately show ?thesis by blast
  next
    case (PL_restart graceful s)
    then show ?thesis
      using assms(1) restart_books [OF assms(5,4,3)] by (auto simp: billed_ok_def)
  qed (use False in simp_all)
qed

lemma service_books:
  assumes "service_reaches P s ledger p" "python_json (pe_api P)"
    and "load_total_spend (ae_loads (pe_api P)) (ae_parse_float (pe_api P)) ledger = Inr x"
  shows "books_ok P x p \<and> billed_ok p"
proof -
  have "proc_reaches P (proc_start s None ledger) p" "0 < st_rate_limit_rpm s"
    using assms(1) by (simp_all add: service_reaches_def)
  then show ?thesis
  proof (induction)
    case start
    then show ?case
      using assms(3) by (simp add: books_ok_def billed_ok_def ledger_total_def costs_sum_def proc_start_def)
  next
    case (step p l p')
    have "app_inv P (pr_app p)"
      by (rule service_inv [of _ s ledger]) (use step in \<open>simp add: service_reaches_def\<close>)
    then show ?case
      using books_step [OF step.hyps(3,2) _ assms(2)] step.IH step.prems by blast
  qed
qed

text \<open>C12. The spend ledger is exact: in every state of the service the ledger file holds what it held at the
  beginning plus the costs of distinct jobs, none of them negative, over any number of jobs running at the
  same time, restarts and crashes; and every live job of this process whose task has ended is among them,
  with the cost in its record, so it is billed exactly once.\<close>

theorem ledger_exact:
  assumes "service_reaches P s ledger p" "python_json (pe_api P)"
    and "load_total_spend (ae_loads (pe_api P)) (ae_parse_float (pe_api P)) ledger = Inr x"
  shows "ledger_total P p = Inr (x + costs_sum p) \<and> distinct (map fst (pr_costs p)) \<and>
    (\<forall>job_id ru. job_id \<in> set (pr_ended p) \<and> dict_get (ap_runners (pr_app p)) job_id = Some ru \<and>
      dict_get (ap_tasks (pr_app p)) job_id = Some True \<longrightarrow>
      (job_id, ut_estimated_cost_usd (jr_usage (runner_record ru))) \<in> set (pr_costs p))"
  using service_books [OF assms] by (fastforce simp: books_ok_def billed_ok_def)

theorem ledger_exact_witness:
  "ledger_total demo_svc (service_state 14) = Inr 0 \<and> pr_costs (service_state 14) = [(''id'', 0)]"
proof -
  have costs: "pr_costs (service_state 14) = [(''id'', 0)]"
    using service_facts [of demo_dumps demo_loads] unfolding service_state_at [symmetric] by blast
  have "load_total_spend (ae_loads (pe_api demo_svc)) (ae_parse_float (pe_api demo_svc)) None = Inr 0"
    by (simp add: load_total_spend_def)
  from ledger_exact [OF service_state_reaches demo_service_faithful this, of 14] show ?thesis
    by (simp add: costs costs_sum_def)
qed

section \<open>What the ledger misses\<close>

text \<open>Every task that has begun and is not done still runs: its record has no cost yet.\<close>

definition all_unended :: "process \<Rightarrow> bool" where
  "all_unended p \<longleftrightarrow>
     (\<forall>job_id ru j. running_job p job_id = Some (ru, j) \<longrightarrow> before_end (js_run j))"

lemma unended_cost:
  assumes "task_ok P st job_id ru" "ru_job ru = Some j" "before_end (js_run j)"
  shows "ut_estimated_cost_usd (jr_usage (runner_record ru)) = 0"
proof -
  obtain rows where "job_reaches (job_env_of P ru) (ru_record ru) (ru_rate_limit_rpm ru) rows j"
    using assms(1,2) by (auto simp: task_ok_def runs_job_def)
  from reachable_record [OF this] show ?thesis
    using assms by (simp add: task_ok_def submitted_ok_def record_inv_def runner_record_def)
qed

lemma running_settle: "running_job (settle_task P k ru p) job_id = (if job_id = k then None else running_job p job_id)"
  by (simp add: running_job_def)

lemma stop_unended:
  assumes "books_ok P x p" "python_json (pe_api P)" "app_inv P (pr_app p)" "all_unended p"
  shows "costs_sum (fold (stop_task P) ids p) = costs_sum p"
  using assms
proof (induction ids arbitrary: p)
  case (Cons k ids)
  let ?q = "stop_task P k p"
  have inv: "app_inv P (pr_app ?q)"
    using only_ledger_inv [OF stop_task_ledger] Cons.prems(3) by blast
  have books: "books_ok P x ?q"
    using stop_books [OF Cons.prems(1-3), of "[k]"] by simp
  have "costs_sum ?q = costs_sum p \<and> all_unended ?q"
  proof (cases "running_job p k")
    case None
    then have "?q = p" by (auto simp: stop_task_def running_job_def split: option.splits if_splits)
    then show ?thesis using Cons.prems(4) by simp
  next
    case (Some rj)
    then obtain ru j where run: "running_job p k = Some (ru, j)" by (cases rj) simp
    note ru = running_jobD [OF run]
    have cost: "ut_estimated_cost_usd (jr_usage (runner_record ru)) = 0"
      using unended_cost [OF app_invD [OF Cons.prems(3) ru(1)] ru(2)] Cons.prems(4) run
      by (simp add: all_unended_def)
    have q: "?q = settle_task P k ru p" using ru by (simp add: stop_task_def)
    have "pr_costs ?q = (if dict_get (ap_tasks (pr_app p)) k = Some True then pr_costs p @ [(k, 0)] else pr_costs p)"
      using settle_books(2) [OF Cons.prems(1,2) ru(3,1) runner_row [OF Cons.prems(3) ru(1)]] cost by (simp add: q)
    then show ?thesis
      using Cons.prems(4) by (simp add: costs_sum_def all_unended_def running_settle q)
  qed
  then show ?case using Cons.IH [OF books Cons.prems(2) inv] by simp
qed simp

text \<open>A shutdown forgets what was spent: when the process is stopped gracefully while jobs run, nothing
  is added to the ledger, however many calls their rows have paid for, since the cost of a job is put into
  its record only at its end.\<close>

lemma shutdown_bills_nothing:
  assumes "service_reaches P s ledger p" "python_json (pe_api P)" "all_unended p"
    and "load_total_spend (ae_loads (pe_api P)) (ae_parse_float (pe_api P)) ledger = Inr x"
  shows "ledger_total P (proc_restart P graceful s' p) = ledger_total P p"
proof -
  have inv: "app_inv P (pr_app p)" by (rule service_inv [OF assms(1)])
  have books: "books_ok P x p" using service_books [OF assms(1,2,4)] by blast
  have "pr_costs (proc_restart P graceful s' p) =
      (if graceful then pr_costs (fold (stop_task P) (map fst (ap_tasks (pr_app p))) p) else pr_costs p)"
    by (simp add: proc_restart_def lifespan_stop_def Let_def)
  then have "costs_sum (proc_restart P graceful s' p) = costs_sum p"
    using stop_unended [OF books assms(2) inv assms(3)] by (simp add: costs_sum_def)
  then show ?thesis
    using restart_books(1) [OF books assms(2) inv] books by (simp add: books_ok_def)
qed

lemma shutdown_bills_nothing_witness:
  "ledger_total demo_svc (proc_restart demo_svc True demo_settings (service_state 3)) =
     ledger_total demo_svc (service_state 3)"
proof -
  obtain ru j where run: "running_job (service_state 3) ''id'' = Some (ru, j)" "js_run j = R_ingest"
    using demo_running(1) by blast
  have ids: "map fst (ap_runners (pr_app (service_state 3))) = [''id'', ''id2'']"
    "map_option ru_job (dict_get (ap_runners (pr_app (service_state 3))) ''id2'') = Some None"
    using service_facts [of demo_dumps demo_loads] unfolding service_state_at [symmetric] by blast+
  have "before_end (js_run j')" if "running_job (service_state 3) k = Some (ru', j')" for k ru' j'
  proof -
    have "k \<in> set (map fst (ap_runners (pr_app (service_state 3))))"
      using running_jobD(1) [OF that] by (force simp: dict_get_def dest: map_of_SomeD)
    then have "k = ''id''" using running_jobD(1,2) [OF that] ids by auto
    then show ?thesis using that run by (simp add: before_end_def)
  qed
  then have "all_unended (service_state 3)" by (simp add: all_unended_def)
  moreover have "load_total_spend (ae_loads (pe_api demo_svc)) (ae_parse_float (pe_api demo_svc)) None = Inr 0"
    by (simp add: load_total_spend_def)
  ultimately show ?thesis
    using shutdown_bills_nothing [OF service_state_reaches demo_service_faithful] by blast
qed

text \<open>Nor is anything reserved when a job is accepted: the same request is accepted again at once, so that
  jobs which together exceed the total cap can run at the same time.\<close>

lemma cap_not_reserved:
  assumes "submit_job A fs job_id t0 t1 b st = (Inr resp, st')" "ap_has_client st"
  shows "\<exists>resp' st''. submit_job A fs job_id' t0' t1' b st' = (Inr resp', st'')"
proof -
  obtain config where checks: "submit_checks A fs b st = Inr config"
    using submit_job_Inr [OF assms(1)] by metis
  obtain db where db: "ap_store st = Some db"
    using assms(1) checks by (cases "ap_store st") (simp_all add: submit_job_def the_store_def Let_def)
  obtain db' ru ts where st': "st' = st\<lparr>ap_store := Some db', ap_runners := ru, ap_tasks := ts\<rparr>"
    by (rule submit_job_cases [OF assms(2) db, of A fs b job_id t0 t1]) (use assms(1) in auto)
  have "submit_checks A fs b st' = Inr config" and client: "ap_has_client st'" and store: "ap_store st' = Some db'"
    using checks assms(2) by (simp_all add: submit_checks_def st')
  then show ?thesis
    by (metis submit_job_cases [OF client store] sum.distinct(1))
qed

section \<open>Webhooks\<close>

text \<open>What was posted for a job describes the record it ended with.\<close>

definition posts_of :: "proc_env \<Rightarrow> job_record \<Rightarrow> hook_post list \<Rightarrow> bool" where
  "posts_of P r posts \<longleftrightarrow>
     (\<exists>ans draw client secret allow.
       posts = fst (deliver_if_configured (pe_hooks P) ans draw client secret allow r))"

definition posts_ok :: "proc_env \<Rightarrow> process \<Rightarrow> bool" where
  "posts_ok P p \<longleftrightarrow>
     distinct (map fst (pr_posts p)) \<and>
     (\<forall>job_id \<in> set (map fst (pr_posts p)). row_of (pr_app p) job_id \<noteq> None \<and>
        (dict_get (ap_runners (pr_app p)) job_id \<noteq> None \<longrightarrow> job_id \<in> set (pr_ended p))) \<and>
     (\<forall>(job_id, posts) \<in> set (pr_posts p). posts \<noteq> [] \<longrightarrow>
        (\<exists>r. ended_with P (pr_app p) job_id r \<and> posts_of P r posts))"

lemma stop_tasks_posts: "pr_posts (fold (stop_task P) ids p) = pr_posts p"
  by (induction ids arbitrary: p) (simp_all add: stop_task_def split: option.split)

lemma restart_posts: "pr_posts (proc_restart P graceful s p) = pr_posts p"
  by (simp add: proc_restart_def Let_def lifespan_stop_def stop_tasks_posts)

lemma posts_step:
  assumes "proc_step P l p = Some p'" "label_ok p l" "app_inv P (pr_app p)" "posts_ok P p"
  shows "posts_ok P p'"
proof -
  have row: "row_of (pr_app p') k \<noteq> None" if "row_of (pr_app p) k \<noteq> None" for k
    by (rule row_stays [OF assms(1-3) that])
  have old: "\<exists>r. ended_with P (pr_app p') k r \<and> posts_of P r posts"
    if "(k, posts) \<in> set (pr_posts p)" "posts \<noteq> []" for k posts
    using assms(4) that ended_with_step [OF assms(1-3)] by (fastforce simp: posts_ok_def)
  show ?thesis
  proof (cases "leaves_books l")
    case True
    then have label: "label_job l \<noteq> None" by (cases l) simp_all
    note same = leaves_books_step [OF assms(1,3) True]
    have "k \<in> set (pr_ended p')"
      if "k \<in> set (map fst (pr_posts p))" "dict_get (ap_runners (pr_app p')) k \<noteq> None" for k
    proof -
      have "dict_get (ap_runners (pr_app p)) k \<noteq> None"
        using step_new_runner [OF assms(1,3) label _ that(2)] assms(4) that(1)
        by (fastforce simp: posts_ok_def)
      then show ?thesis using assms(4) that(1) same(2) by (auto simp: posts_ok_def)
    qed
    then show ?thesis
      using assms(4) row old by (auto simp: posts_ok_def same)
  next
    case False
    show ?thesis
    proof (cases l)
      case (PL_finish k ans draw)
      then have "finish_task P k ans draw p = Some p'" using assms(1) by simp
      then obtain ru s posts where run: "running_job p k = Some (ru, s)" "run_over s"
        and p': "p' = settle_task P k ru (p\<lparr>pr_posts := pr_posts p @ [(k, posts)]\<rparr>)"
        and posts: "posts \<noteq> [] \<longrightarrow> js_run s = R_done \<and>
          posts = fst (deliver_if_configured (pe_hooks P) ans draw (ru_has_client ru)
            (ru_webhook_secret ru) (ru_allow_private_webhooks ru) (the_record s))"
        by (rule finish_task_as)
      note ru = running_jobD [OF run(1)]
      have new: "k \<notin> set (map fst (pr_posts p))"
        using assms(4) ru(1,3) by (fastforce simp: posts_ok_def)
      have "ended_with P (pr_app p') k (the_record s) \<and> posts_of P (the_record s) posts" if "posts \<noteq> []"
      proof
        show "ended_with P (pr_app p') k (the_record s)"
          using that posts ended_with_step [OF assms(1-3) done_ended_with [OF assms(3) ru(1,2)]] by blast
        show "posts_of P (the_record s) posts"
          unfolding posts_of_def using that posts by blast
      qed
      moreover have fields: "pr_posts p' = pr_posts p @ [(k, posts)]" "pr_ended p' = k # pr_ended p"
        "ap_runners (pr_app p') = ap_runners (pr_app p)"
        by (simp_all add: p')
      moreover have "row_of (pr_app p') k \<noteq> None"
        by (rule row [OF runner_row [OF assms(3) ru(1)]])
      ultimately show ?thesis
        using assms(4) new row old by (auto simp: posts_ok_def)
    next
      case (PL_restart graceful s)
      then have "pr_posts p' = pr_posts p" "ap_runners (pr_app p') = []"
        using assms(1,3) restart_posts restart_view(1) [of P p] by (auto simp: app_inv_def)
      then show ?thesis
        using assms(4) row old by (auto simp: posts_ok_def)
    qed (use False in simp_all)
  qed
qed

lemma service_posts:
  assumes "service_reaches P s ledger p"
  shows "posts_ok P p"
proof -
  have "proc_reaches P (proc_start s None ledger) p" "0 < st_rate_limit_rpm s"
    using assms by (simp_all add: service_reaches_def)
  then show ?thesis
  proof induction
    case start
    then show ?case by (simp add: posts_ok_def proc_start_def)
  next
    case (step p l p')
    have "app_inv P (pr_app p)"
      by (rule service_inv [of _ s ledger]) (use step in \<open>simp add: service_reaches_def\<close>)
    then show ?case using posts_step [OF step.hyps(3,2)] step.IH step.prems by blast
  qed
qed



section \<open>Progress\<close>



section \<open>Metrics\<close>

lemma backpressure_ok_numeric:
  assumes "backpressure_ok (jr_backpressure r)"
  shows "backpressure_numeric r"
  using assms
  by (auto simp: backpressure_ok_def backpressure_numeric_def current_backpressure_items snapshot_asdict_def
      dict_get_def)

text \<open>Every job of the service has a record that can be served and rendered.\<close>

lemma served_record:
  assumes "app_inv P st" "python_json (pe_api P)" "ap_store st = Some db"
    and "job_id \<in> set (sqlite_list_ids db @ map fst (ap_runners st))"
  obtains r where "get_record (pe_api P) now job_id st = Inr r" "jr_job_id r = job_id" "backpressure_numeric r"
    "metrics_record (pe_api P) now db st job_id = Inr (Some r)"
proof (cases "dict_get (ap_runners st) job_id")
  case (Some ru)
  have task: "task_ok P st job_id ru" by (rule app_invD [OF assms(1) Some])
  have "jr_job_id (runner_record ru) = job_id \<and> backpressure_ok (jr_backpressure (runner_record ru))"
  proof (cases "ru_job ru")
    case None
    then show ?thesis using task by (simp add: runner_record_def task_ok_def submitted_ok_def)
  next
    case (Some s)
    then have "saves_inv (ru_record ru) s" using task job_saves(1) by (auto simp: task_ok_def)
    then show ?thesis
      using Some task by (simp add: runner_record_def saves_inv_def same_job_def task_ok_def submitted_ok_def)
  qed
  then show ?thesis
    using that Some backpressure_ok_numeric by (simp add: get_record_def metrics_record_def)
next
  case None
  then have "job_id \<notin> set (map fst (ap_runners st))"
    by (metis dict_get_def map_of_eq_None_iff set_map)
  then have "dict_get db job_id \<noteq> None"
    using assms(4) by (auto simp: sqlite_list_ids_def dict_get_def map_of_eq_None_iff)
  then obtain r where r: "dict_get db job_id = Some (record_to_json (ae_dumps (pe_api P)) r)"
    "jr_job_id r = job_id" "record_json_ok r"
    using assms(1,3) by (auto simp: app_inv_def store_ok_def)
  have "storable (ae_dumps (pe_api P)) (ae_loads (pe_api P)) r"
    using assms(2) r(3) by (simp add: python_json_storable)
  then have "sqlite_get (ae_loads (pe_api P)) now job_id db = Inr (Some r)"
    by (simp add: sqlite_get_def r(1) record_from_to)
  moreover have "get_record (pe_api P) now job_id st = Inr r"
    using None calculation assms(3) by (simp add: get_record_def stored_record_def the_store_def lift_exn_def)
  moreover have "backpressure_numeric r"
    using r(3) backpressure_ok_numeric by (simp add: record_json_ok_def)
  ultimately show ?thesis
    using that r(2) None by (simp add: metrics_record_def)
qed

text \<open>C15. The metrics of the service are complete: in every state \<open>GET /metrics\<close> succeeds, whatever the jobs
  do, and renders for each of the 8 metrics one sample of every job the service knows, running or stored,
  each exactly once and with the record the status route serves.\<close>

theorem service_metrics_complete:
  assumes "service_reaches P s ledger p" "python_json (pe_api P)"
    and "\<forall>ids. mset (ae_set_order (pe_api P) ids) = mset ids"
  shows "\<exists>rs. metrics (pe_api P) now (pr_app p) =
      Inr (lines_file (concat (map (metric_group (ae_fmt (pe_api P) []) rs) metrics_help))) \<and>
    distinct (map jr_job_id rs) \<and>
    (\<forall>job_id. row_of (pr_app p) job_id \<noteq> None \<longrightarrow>
      (\<exists>r \<in> set rs. jr_job_id r = job_id \<and> get_record (pe_api P) now job_id (pr_app p) = Inr r))"
proof -
  let ?A = "pe_api P" and ?st = "pr_app p"
  have inv: "app_inv P ?st" by (rule service_inv [OF assms(1)])
  then obtain db where db: "ap_store ?st = Some db" by (auto simp: app_inv_def store_ok_def)
  let ?ids = "metrics_ids ?A db ?st"
  have ids: "set ?ids = set (sqlite_list_ids db @ map fst (ap_runners ?st))" "distinct ?ids"
    using assms(3) mset_eq_setD [of ?ids] mset_eq_imp_distinct_iff [of ?ids]
    by (auto simp: metrics_ids_def)
  define f where "f = (\<lambda>k. projr (get_record ?A now k ?st))"
  have f: "get_record ?A now k ?st = Inr (f k)" "jr_job_id (f k) = k" "backpressure_numeric (f k)"
    "metrics_record ?A now db ?st k = Inr (Some (f k))" if k: "k \<in> set ?ids" for k
  proof -
    have "k \<in> set (sqlite_list_ids db @ map fst (ap_runners ?st))" using k ids(1) by blast
    then obtain r where "get_record ?A now k ?st = Inr r" "jr_job_id r = k" "backpressure_numeric r"
      "metrics_record ?A now db ?st k = Inr (Some r)"
      by (rule served_record [OF inv assms(2) db])
    then show "get_record ?A now k ?st = Inr (f k)" "jr_job_id (f k) = k" "backpressure_numeric (f k)"
      "metrics_record ?A now db ?st k = Inr (Some (f k))"
      by (simp_all add: f_def)
  qed
  have "collect (metrics_record ?A now db ?st) ?ids = Inr (map (\<lambda>k. Some (f k)) ?ids)"
    using f(4) by (rule collect_total)
  moreover have "List.map_filter id (map (\<lambda>k. Some (f k)) ?ids) = map f ?ids"
    by (simp add: List.map_filter_def o_def)
  moreover have "list_all backpressure_numeric (map f ?ids)"
    using f(3) by (simp add: list_all_iff)
  ultimately have "metrics ?A now ?st =
      Inr (lines_file (concat (map (metric_group (ae_fmt ?A []) (map f ?ids)) metrics_help)))"
    using render_groups [of "map f ?ids"] by (simp add: metrics_def the_store_def db lift_exn_def)
  moreover have "map jr_job_id (map f ?ids) = ?ids"
    using f(2) by (simp add: map_idI)
  moreover have "\<exists>r \<in> set (map f ?ids). jr_job_id r = k \<and> get_record ?A now k ?st = Inr r"
    if "row_of ?st k \<noteq> None" for k
  proof -
    have "k \<in> set ?ids"
      using that ids(1) by (auto simp: row_of_def db sqlite_list_ids_def dict_get_def map_of_eq_None_iff)
    then show ?thesis using f(1,2) by auto
  qed
  ultimately show ?thesis using ids(2) by (intro exI [of _ "map f ?ids"]) simp
qed

theorem service_metrics_complete_witness:
  "\<exists>text. metrics (pe_api demo_svc) 9 (pr_app (service_state 16)) = Inr text"
proof -
  have "\<forall>ids. mset (ae_set_order (pe_api demo_svc) ids) = mset ids"
    by (simp add: demo_service_def demo_api_def)
  from service_metrics_complete [OF service_state_reaches demo_service_faithful this] show ?thesis
    by blast
qed

end
