(* ===== verification/JobDrain.thy ===== *)
theory JobDrain
  imports ApiJobs JobLive JobSaves
begin

text \<open>
  A graceful shutdown of the process while a job runs: \<open>lifespan\<close> of \<open>main.py\<close> cancels the task, and
  \<open>CancelledError\<close> is raised where \<open>run\<close> of \<open>core/scheduler.py\<close> is suspended.  While it reads its
  input, the \<open>finally\<close> still stops the workers and closes the sink, so the rows that are queued are
  resolved; the row it was about to queue is counted and lost.  Once it is in that \<open>finally\<close>, the
  exception leaves it at once: waiting for the workers it takes them along, waiting for the writer it
  takes that along.
\<close>

section \<open>The cancelled task\<close>

abbreviation cancelled_error :: py_exn where
  "cancelled_error \<equiv> Other_error ''CancelledError''"

text \<open>Cancelling \<open>gather\<close> cancels every task it waits for; each of them gets the exception in its next turn.\<close>

definition cancel_worker :: "job_env \<Rightarrow> nat \<Rightarrow> job_sys \<Rightarrow> job_sys" where
  "cancel_worker E i s = (case worker_turn E i E_cancel s of None \<Rightarrow> s | Some s' \<Rightarrow> s')"

definition cancel_workers :: "job_env \<Rightarrow> job_sys \<Rightarrow> job_sys" where
  "cancel_workers E s = fold (cancel_worker E) [0..<length (js_workers s)] s"

text \<open>Cancelling the wait for the writer's task cancels that task: what is in its queue is not written, and
  the file is neither synced nor closed.\<close>

definition cancel_writer :: "job_sys \<Rightarrow> job_sys" where
  "cancel_writer s = s\<lparr>js_ctx := (js_ctx s)\<lparr>wc_sink := (wc_sink (js_ctx s))\<lparr>sk_task_alive := False\<rparr>\<rparr>\<rparr>"

text \<open>The turn in which \<open>run\<close> gets the exception.  \<open>closing\<close> says that it is still closing the generator,
  which \<open>_ingest_and_dispatch\<close> does in its own \<open>finally\<close> before the first sentinel is put.\<close>

definition stop_run :: "job_env \<Rightarrow> bool \<Rightarrow> job_sys \<Rightarrow> job_sys option" where
  "stop_run E closing s =
     (case js_run s of
        R_ingest \<Rightarrow> Some (begin_shutdown (Some cancelled_error) s)
      | R_put p \<Rightarrow> Some (begin_shutdown (Some cancelled_error) s)
      | R_persist \<Rightarrow> Some (begin_shutdown (Some cancelled_error) s)
      | R_shutdown k e \<Rightarrow>
          if closing \<and> k = length (js_workers s) then Some (begin_shutdown (Some cancelled_error) s)
          else Some (s\<lparr>js_run := R_raised cancelled_error\<rparr>)
      | R_gather e \<Rightarrow> Some ((cancel_workers E s)\<lparr>js_run := R_raised cancelled_error\<rparr>)
      | R_closing e \<Rightarrow> Some ((cancel_writer s)\<lparr>js_run := R_raised cancelled_error\<rparr>)
      | _ \<Rightarrow> None)"

section \<open>The stop keeps the invariant\<close>

lemma qitem_prompts_nonneg: "0 \<le> qitem_prompts x"
  by (cases x rule: qitem_prompts.cases) simp_all

text \<open>A put that is given up: its row is away.\<close>

lemma drop_put_inv:
  assumes "job_inv E rows n s" "js_run s = R_put p"
  shows "job_inv_but [p] E rows n (begin_shutdown e s)"
  using assms length_workers_inv [OF assms(1)] qitem_prompts_nonneg [of "Q_parsed p"]
  by (auto simp: begin_shutdown_def job_inv_but_def inv_input_def inv_books_but_def inv_counts_def inv_rows_def
      inv_queue_def inv_budget_def inv_sink_def dones_def rows_ok_def Let_def calls_made_def)

lemma stop_reading:
  assumes "stop_run E closing s = Some s'" "ingesting (js_run s)"
  shows "s' = begin_shutdown (Some cancelled_error) s"
  using assms by (cases "js_run s") (simp_all add: stop_run_def)

lemma stop_inv:
  assumes inv: "job_inv E rows n s" and "ingesting (js_run s)"
  shows "job_inv_but (putting (js_run s)) E rows n (begin_shutdown e s)"
  using assms(2) drop_put_inv [OF inv] begin_shutdown_inv [OF inv]
  by (cases "js_run s") simp_all

section \<open>The drain\<close>

text \<open>The phases of \<open>run\<close> with the exception under way.\<close>

fun draining :: "run_pc \<Rightarrow> bool" where
  "draining (R_shutdown k e) \<longleftrightarrow> e = Some cancelled_error"
| "draining (R_gather e) \<longleftrightarrow> e = Some cancelled_error"
| "draining (R_closing e) \<longleftrightarrow> e = Some cancelled_error"
| "draining (R_raised e) \<longleftrightarrow> e = cancelled_error"
| "draining _ \<longleftrightarrow> False"

text \<open>What a drain leaves as it was.\<close>

definition same_books :: "job_sys \<Rightarrow> job_sys \<Rightarrow> bool" where
  "same_books s t \<longleftrightarrow> js_saves t = js_saves s \<and> js_record t = js_record s \<and>
     ingested (wc_counts (js_ctx t)) = ingested (wc_counts (js_ctx s))"

lemma same_books_refl [simp]: "same_books s s"
  by (simp add: same_books_def)

lemma same_books_trans: "same_books s t \<Longrightarrow> same_books t u \<Longrightarrow> same_books s u"
  by (simp add: same_books_def)

lemma run_step_drain:
  assumes "run_step prices now (js_run s) s = Some s'" "draining (js_run s)"
  shows "draining (js_run s') \<and> same_books s s'"
  using assms
  by (cases "(prices, now, js_run s, s)" rule: run_step.cases)
    (auto simp: same_books_def run_defs split: option.splits if_splits)

lemma worker_turn_saves: "worker_turn E i ev s = Some s' \<Longrightarrow> js_saves s' = js_saves s"
  by (auto simp: worker_turn_def split: if_splits option.splits)

lemma sink_turn_of_books: "sink_turn_of k s = Some s' \<Longrightarrow> js_run s' = js_run s \<and> same_books s s'"
  by (auto simp: sink_turn_of_def same_books_def split: option.splits)

lemma drain_step:
  assumes "sys_step E l s = Some s'" "job_inv_but away E rows n s" "draining (js_run s)"
  shows "draining (js_run s') \<and> same_books s s'"
proof (cases l)
  case (L_run now)
  then show ?thesis using assms run_step_drain by simp
next
  case (L_worker i ev)
  then show ?thesis
    using assms worker_turn_frame [OF _ assms(2)] worker_turn_saves by (simp add: same_books_def)
next
  case (L_sink now)
  then show ?thesis using assms(1,3) by (auto dest: sink_turn_of_books)
next
  case (L_sink_timeout now)
  then show ?thesis using assms(1,3) by (auto dest: sink_turn_of_books)
next
  case L_cancel
  then show ?thesis using assms(1,3) by (auto simp: cancel_job_event_def same_books_def)
qed

lemma drain_reaches:
  assumes "reachable E s t" "job_inv_but away E rows n s" "draining (js_run s)" "record_inv s"
  shows "job_inv_but away E rows n t \<and> draining (js_run t) \<and> same_books s t \<and> record_inv t"
  using assms(1)
proof induction
  case (step t l t')
  then show ?case
    using sys_step_inv [OF step.hyps(2)] drain_step [OF step.hyps(2)] sys_step_record [OF step.hyps(2)]
      same_books_trans by blast
qed (use assms(2-4) in simp)

section \<open>A stop while the input is read\<close>

text \<open>C10. A shutdown while a job still reads its input loses at most one row: once the drain is over, the
  rows counted are those with a result row, each exactly one, written and synced, and the one row \<open>run\<close>
  was about to queue, if it was.  Nothing more is counted after the stop.  The record stays as it was
  last saved, \<open>running\<close> and with no cost, although the file is complete.\<close>

theorem graceful_stop_drains:
  assumes "job_reaches E record rpm rows s" "jr_backpressure record = []" "0 < workers_of record rpm"
    and "ingesting (js_run s)" "stop_run E closing s = Some s1" "reachable E s1 t" "job_over t"
  shows "let c = js_ctx t; xs = wc_emitted c; k = wc_counts c in
    ingested k = ingested (wc_counts (js_ctx s)) \<and>
    mset (map sink_item_id xs) + mset (map parsed_id (putting (js_run s))) =
      mset (map parsed_id (take (nat (ingested k)) rows)) \<and>
    sk_lines (wc_sink c) = map (\<lambda>x. je_dumps E (item_line x)) xs \<and>
    sk_durable (wc_sink c) = length xs \<and>
    pending k = int (length (putting (js_run s))) \<and> pending k \<le> 1 \<and>
    js_run t = R_raised cancelled_error \<and> js_saves t = js_saves s \<and>
    jr_status (the_record t) = JS_RUNNING \<and> ut_estimated_cost_usd (jr_usage (the_record t)) = 0"
proof -
  let ?away = "putting (js_run s)" and ?n = "workers_of record rpm"
  have s1: "s1 = begin_shutdown (Some cancelled_error) s"
    by (rule stop_reading [OF assms(5,4)])
  have "job_inv_but ?away E rows ?n s1" "draining (js_run s1)" "same_books s s1"
    using stop_inv [OF job_reaches_inv [OF assms(1)] assms(4)]
    by (simp_all add: s1 begin_shutdown_def same_books_def)
  moreover have "record_inv s1"
    using reachable_record [OF assms(1,2)] assms(4)
    by (cases "js_run s") (simp_all add: s1 begin_shutdown_def record_inv_def before_end_def)
  ultimately have t: "job_inv_but ?away E rows ?n t" "draining (js_run t)" "same_books s t" "record_inv t"
    using drain_reaches [OF assms(6)] same_books_trans by blast+
  note empty = over_empty [OF t(1) assms(7,3)] and pending = over_pending [OF t(1) assms(7,3)]
  have run: "js_run t = R_raised cancelled_error"
    using t(2) assms(7) by (cases "js_run t") (simp_all add: job_over_def)
  have "mset (map sink_item_id (wc_emitted (js_ctx t))) + mset (map parsed_id ?away) =
      mset (map parsed_id (take (nat (ingested (wc_counts (js_ctx t)))) rows))"
    using t(1) empty by (simp add: job_inv_but_def inv_books_but_def add.commute)
  moreover have "jr_status (js_record t) = JS_RUNNING" "ut_estimated_cost_usd (wc_usage (js_ctx t)) = 0"
    using t(4) run by (simp_all add: record_inv_def before_end_def)
  ultimately show ?thesis
    using over_lines [OF t(1) assms(7)] pending(1) length_putting [of "js_run s"] run t(3)
    by (simp add: Let_def same_books_def the_record_def)
qed

text \<open>The demo job, stopped while it queues its third row: the first two rows are resolved.\<close>

definition demo_stopped :: job_sys where
  "demo_stopped = the (stop_run demo_env False (demo_state 5))"

definition demo_drained :: job_sys where
  "demo_drained = the (sys_run demo_env
     [L_run 5, L_run 6, demo_resume 7, demo_reply 8 429, demo_resume 9, demo_reply 10 200,
      demo_resume 11, demo_resume 12, L_run 13, L_sink 14, L_sink 14, L_sink 14, L_run 15] demo_stopped)"

theorem graceful_stop_drains_witness:
  "mset (map sink_item_id (wc_emitted (js_ctx demo_drained))) + {#''c''#} = {#''a'', ''b'', ''c''#} \<and>
   js_run demo_drained = R_raised cancelled_error"
proof -
  have stop: "stop_run demo_env False (demo_state 5) = Some demo_stopped"
  proof -
    have "stop_run demo_env False (demo_state 5) \<noteq> None" by code_simp
    then show ?thesis by (auto simp: demo_stopped_def)
  qed
  let ?ls = "[L_run 5, L_run 6, demo_resume 7, demo_reply 8 429, demo_resume 9, demo_reply 10 200,
      demo_resume 11, demo_resume 12, L_run 13, L_sink 14, L_sink 14, L_sink 14, L_run 15]"
  have "sys_run demo_env ?ls demo_stopped \<noteq> None" by code_simp
  then have "sys_run demo_env ?ls demo_stopped = Some demo_drained"
    by (auto simp: demo_drained_def)
  then have reach: "reachable demo_env demo_stopped demo_drained"
    using reachable.start by (rule sys_run_reachable)
  have over: "job_over demo_drained" "ingesting (js_run (demo_state 5))"
    "map parsed_id (putting (js_run (demo_state 5))) = [''c'']"
    "ingested (wc_counts (js_ctx (demo_state 5))) = 3" "map parsed_id (take 3 demo_rows) = [''a'', ''b'', ''c'']"
    by code_simp+
  have "jr_backpressure demo_record = []" by (simp add: demo_record_def new_job_record_def)
  from graceful_stop_drains [OF demo_reaches this _ over(2) stop reach over(1)]
  show ?thesis
    using over by (simp add: demo_concurrency Let_def del: mset_map)
qed

text \<open>The drain is never stuck and takes no more turns that do more than wait than the whole job had left.\<close>

lemma graceful_stop_ends:
  assumes "job_reaches E record rpm rows s" "0 < workers_of record rpm" "ingesting (js_run s)"
    and "stop_run E closing s = Some s1" "sys_run E ls s1 = Some t"
  shows "productive_turns E ls s1 \<le> job_rank s"
    and "undisturbed t \<Longrightarrow> \<forall>e. js_run t \<noteq> R_raised e \<Longrightarrow>
      \<exists>l t'. sys_step E l t = Some t' \<and> \<not> idle_turn l t t'"
proof -
  let ?inv = "job_inv_but (putting (js_run s)) E rows (workers_of record rpm)"
  have s1: "s1 = begin_shutdown (Some cancelled_error) s"
    by (rule stop_reading [OF assms(4,3)])
  have inv: "?inv s1"
    using stop_inv [OF job_reaches_inv [OF assms(1)] assms(3)] by (simp add: s1)
  have "job_rank s1 \<le> job_rank s"
    using assms(3) by (cases "js_run s") (simp_all add: s1 begin_shutdown_def job_rank_def)
  then show "productive_turns E ls s1 \<le> job_rank s"
    using productive_turns_rank [OF assms(5) inv] by simp
  have reach: "reachable E s1 t"
    using assms(5) reachable.start by (rule sys_run_reachable)
  have "draining (js_run t)"
    using reach
  proof induction
    case (step t l t')
    then show ?case using drain_step [OF step.hyps(2) reachable_inv [OF step.hyps(1) inv]] by blast
  qed (simp add: s1 begin_shutdown_def)
  then have "js_run t \<noteq> R_done"
    by (cases "js_run t") simp_all
  then show "\<exists>l t'. sys_step E l t = Some t' \<and> \<not> idle_turn l t t'"
    if "undisturbed t" "\<forall>e. js_run t \<noteq> R_raised e"
    using unended_turn [OF reachable_inv [OF reach inv] that(1) assms(2) _ that(2)] by blast
qed

section \<open>A stop while it waits for its workers\<close>

lemma cancel_worker_keeps:
  "js_run (cancel_worker E i s) = js_run s" "js_saves (cancel_worker E i s) = js_saves s"
  "js_record (cancel_worker E i s) = js_record s"
  "length (js_workers (cancel_worker E i s)) = length (js_workers s)"
  "j \<noteq> i \<Longrightarrow> js_workers (cancel_worker E i s) ! j = js_workers s ! j"
  by (auto simp: cancel_worker_def worker_turn_def split: option.splits)

lemma item_finished_keeps:
  "wc_emitted (fst (item_finished nx c)) = wc_emitted c" "wc_usage (fst (item_finished nx c)) = wc_usage c"
  "ingested (wc_counts (fst (item_finished nx c))) = ingested (wc_counts c)"
  "wc_sink (fst (item_finished nx c)) = wc_sink c"
  "worker_finished nx \<Longrightarrow> worker_finished (snd (item_finished nx c))"
  by (simp_all add: item_finished_def split: option.split)

lemma cancel_step:
  "case worker_step xr pf osc E_cancel c pc of None \<Rightarrow> worker_finished pc
   | Some (c', pc') \<Rightarrow> worker_finished pc' \<and> wc_emitted c' = wc_emitted c \<and> wc_usage c' = wc_usage c \<and>
       wc_sink c' = wc_sink c \<and> ingested (wc_counts c') = ingested (wc_counts c)"
proof -
  have "worker_finished pc' \<and> wc_emitted c' = wc_emitted d \<and> wc_usage c' = wc_usage d \<and>
      wc_sink c' = wc_sink d \<and> ingested (wc_counts c') = ingested (wc_counts d)"
    if "item_finished (W_cancelled x) d = (c', pc')" for x d c' pc'
    using that item_finished_keeps [of "W_cancelled x" d] by simp
  from this [of _ c] this [of _ "call_finished c"] show ?thesis
    by (cases pc) (auto simp: call_finished_def split: prod.split)
qed

lemma cancel_worker_finishes:
  assumes "i < length (js_workers s)"
  shows "worker_finished (js_workers (cancel_worker E i s) ! i)"
    "wc_emitted (js_ctx (cancel_worker E i s)) = wc_emitted (js_ctx s)"
    "wc_usage (js_ctx (cancel_worker E i s)) = wc_usage (js_ctx s)"
    "wc_sink (js_ctx (cancel_worker E i s)) = wc_sink (js_ctx s)"
    "ingested (wc_counts (js_ctx (cancel_worker E i s))) = ingested (wc_counts (js_ctx s))"
  using cancel_step [where xr = "je_exn_repr E" and pf = "je_parse_float E" and c = "js_ctx s"
      and osc = "on_spend_check (je_fmt E) (je_prices E)" and pc = "js_workers s ! i"] assms
  by (auto simp: cancel_worker_def worker_turn_def split: option.splits)

text \<open>All workers cancelled: each has ended, and none resolved its row.\<close>

definition all_cancelled :: "job_sys \<Rightarrow> job_sys \<Rightarrow> bool" where
  "all_cancelled s t \<longleftrightarrow> list_all worker_finished (js_workers t) \<and> same_books s t \<and>
     wc_emitted (js_ctx t) = wc_emitted (js_ctx s) \<and> wc_usage (js_ctx t) = wc_usage (js_ctx s)"

lemma cancel_prefix:
  assumes "k \<le> length (js_workers s)"
  shows "let t = fold (cancel_worker E) [0..<k] s in
    length (js_workers t) = length (js_workers s) \<and> (\<forall>j < k. worker_finished (js_workers t ! j)) \<and>
    same_books s t \<and> wc_emitted (js_ctx t) = wc_emitted (js_ctx s) \<and> wc_usage (js_ctx t) = wc_usage (js_ctx s)"
  using assms
proof (induction k)
  case (Suc k)
  then show ?case
    using cancel_worker_finishes [of k "fold (cancel_worker E) [0..<k] s" E]
    by (auto simp: Let_def less_Suc_eq cancel_worker_keeps same_books_def)
qed simp

lemma cancel_workers_all: "all_cancelled s (cancel_workers E s)"
  using cancel_prefix [of "length (js_workers s)" s E]
  by (simp add: Let_def cancel_workers_def all_cancelled_def list_all_length)

lemma cancelled_turn:
  assumes "sys_step E l t = Some t'" "all_cancelled s t" "js_run t = R_raised cancelled_error"
  shows "all_cancelled s t' \<and> js_run t' = R_raised cancelled_error"
proof -
  have "worker_turn E i ev t = None" for i ev
    using assms(2) by (simp add: all_cancelled_def worker_turn_def list_all_length finished_worker_stuck)
  then show ?thesis
    using assms
    by (cases l) (auto simp: sink_turn_of_def cancel_job_event_def all_cancelled_def same_books_def split: option.splits)
qed

text \<open>C11. A shutdown that comes while \<open>run\<close> waits for its workers, when all rows and sentinels are queued,
  loses every row that is not resolved yet: the workers are cancelled with the rows they hold, so that
  in every later state the emitted rows are those of the stop, the rows pending then are missing, and
  the record, in memory and as last saved, stays \<open>running\<close>.\<close>

theorem late_stop_loses_rows:
  assumes "job_reaches E record rpm rows s" "jr_backpressure record = []"
    and "js_run s = R_gather e" "stop_run E closing s = Some s1" "reachable E s1 t"
  shows "js_run t = R_raised cancelled_error \<and> wc_emitted (js_ctx t) = wc_emitted (js_ctx s) \<and>
    int (length (wc_emitted (js_ctx t))) =
      ingested (wc_counts (js_ctx t)) - pending (wc_counts (js_ctx s)) \<and>
    js_saves t = js_saves s \<and> jr_status (the_record t) = JS_RUNNING"
proof -
  have "all_cancelled s s1 \<and> js_run s1 = R_raised cancelled_error"
    using cancel_workers_all [of s E] assms(3,4)
    by (auto simp: stop_run_def all_cancelled_def same_books_def)
  with assms(5) have t: "all_cancelled s t \<and> js_run t = R_raised cancelled_error"
    by induction (use cancelled_turn in blast)+
  have "record_inv s" by (rule reachable_record [OF assms(1,2)])
  then show ?thesis
    using t job_reaches_inv [OF assms(1)] assms(3)
    by (simp add: all_cancelled_def same_books_def the_record_def record_inv_def before_end_def job_inv_def
        inv_counts_def Let_def)
qed

text \<open>The demo job, stopped when its three rows are queued.\<close>

theorem late_stop_loses_rows_witness:
  "wc_emitted (js_ctx (the (stop_run demo_env False (demo_state 9)))) = [] \<and>
   ingested (wc_counts (js_ctx (the (stop_run demo_env False (demo_state 9))))) = 3"
proof -
  let ?t = "the (stop_run demo_env False (demo_state 9))"
  have run: "js_run (demo_state 9) = R_gather None" "pending (wc_counts (js_ctx (demo_state 9))) = 3"
    "ingested (wc_counts (js_ctx ?t)) = 3"
    "wc_emitted (js_ctx (demo_state 9)) = []"
    by code_simp+
  have "stop_run demo_env False (demo_state 9) \<noteq> None" by code_simp
  then have stop: "stop_run demo_env False (demo_state 9) = Some ?t" by auto
  have "jr_backpressure demo_record = []" by (simp add: demo_record_def new_job_record_def)
  from late_stop_loses_rows [OF demo_reaches this run(1) stop reachable.start]
  show ?thesis using run(3,4) by simp
qed

end
