(* ===== verification/PyJsonPrefix.thy ===== *)
theory PyJsonPrefix
  imports PyJson
begin

text \<open>
  A document that is cut off is not a document: what the decoder takes from the front of a text it takes
  from every longer text too, so no proper prefix of an object's text is accepted.
\<close>

section \<open>Scanning a longer text\<close>

lemma skip_space_append: "skip_space s \<noteq> [] \<Longrightarrow> skip_space (s @ u) = skip_space s @ u"
  unfolding skip_space_def by (induction s) auto

lemma skip_space_append_Cons: "skip_space s = c # r \<Longrightarrow> skip_space (s @ u) = c # r @ u"
  using skip_space_append [of s u] by simp

lemma scan_string_append: "scan_string s = Some (t, r) \<Longrightarrow> scan_string (s @ u) = Some (t, r @ u)"
proof (induction s arbitrary: t rule: scan_string.induct)
  case (2 c s)
  consider "c = quote" | "c = backslash" | "c \<noteq> quote" "c \<noteq> backslash" by blast
  then show ?case
  proof cases
    case 2
    obtain e s' where s: "s = e # s'"
      using "2.prems" 2 by (cases s) auto
    show ?thesis
    proof (cases "e = CHR ''u''")
      case True
      then obtain h1 h2 h3 h4 s'' x where s': "s' = h1 # h2 # h3 # h4 # s''" "code_point h1 h2 h3 h4 = Some x"
        using "2.prems" 2 s by (auto split: list.splits option.splits)
      then show ?thesis
        using "2.prems" "2.IH"(1) [OF _ 2 s True s'(1) refl refl refl s'(2)] 2 s True by auto
    next
      case False
      then obtain x where x: "simple_escape e = Some x"
        using "2.prems" 2 s by (auto split: option.splits)
      then show ?thesis
        using "2.prems" "2.IH"(2) [OF _ 2 s False x] 2 s False by auto
    qed
  next
    case 3
    then show ?thesis
      using "2.prems" "2.IH"(3) by (auto split: if_splits)
  qed (use "2.prems" in auto)
qed simp

lemma scan_key_append:
  assumes "scan_key s = Some (k, r)" "r \<noteq> []"
  shows "scan_key (s @ u) = Some (k, r @ u)"
proof -
  obtain s' r1 r2 where parts: "s = quote # s'" "scan_string s' = Some (k, r1)"
    "skip_space r1 = CHR '':'' # r2" "r = skip_space r2"
    using assms(1) by (auto simp: scan_key_def split: list.splits if_splits option.splits)
  then show ?thesis
    using scan_string_append [OF parts(2), of u] skip_space_append_Cons [OF parts(3), of u]
      skip_space_append [of r2 u] assms(2)
    by (simp add: scan_key_def)
qed

text \<open>The rest of a number that is not cut off.\<close>

definition number_over :: "string \<Rightarrow> bool" where
  "number_over r \<longleftrightarrow> r \<noteq> [] \<and> number_ends r"

lemma space_ends: "json_space x \<or> x \<in> {CHR '','', CHR '']'', CHR ''}''} \<Longrightarrow> number_ends (x # r)"
  by (auto simp: number_ends_def json_space_def is_digit_def)

lemma number_overI:
  assumes "skip_space r = c # r'" "c \<in> {CHR '','', CHR '']'', CHR ''}''}"
  shows "number_over r"
proof (cases r)
  case (Cons x xs)
  then have "json_space x \<or> x = c"
    using assms(1) by (simp add: skip_space_def split: if_splits)
  then show ?thesis
    using assms(2) space_ends [of x xs] Cons by (auto simp: number_over_def)
qed (use assms(1) in \<open>simp add: skip_space_def\<close>)

lemma digits_longer:
  "dropWhile is_digit t \<noteq> [] \<Longrightarrow> takeWhile is_digit (t @ u) = takeWhile is_digit t"
  "dropWhile is_digit t \<noteq> [] \<Longrightarrow> dropWhile is_digit (t @ u) = dropWhile is_digit t @ u"
  by (induction t) auto

lemma scan_nat_longer: "scan_nat t = Some (i, r) \<Longrightarrow> r \<noteq> [] \<Longrightarrow> scan_nat (t @ u) = Some (i, r @ u)"
  using digits_longer [of t u] by (cases t) (auto simp: scan_nat_def split: if_splits)

lemma scan_int_longer: "scan_int t = Some (i, r) \<Longrightarrow> r \<noteq> [] \<Longrightarrow> scan_int (t @ u) = Some (i, r @ u)"
  using scan_nat_longer [of t i r u] scan_nat_longer [of "tl t" "tl i" r u]
  by (cases t) (auto simp: scan_int_def split: if_splits)

lemma scan_frac_longer:
  "scan_frac t = (f, r) \<Longrightarrow> r \<noteq> [] \<Longrightarrow> hd r \<noteq> CHR ''.'' \<Longrightarrow> scan_frac (t @ u) = (f, r @ u)"
  using digits_longer [of "tl t" u] by (cases t) (auto simp: scan_frac_def split: if_splits)

lemma scan_exp_longer:
  assumes "scan_exp t = (e, r)" "number_over r"
  shows "scan_exp (t @ u) = (e, r @ u)"
proof (cases "\<exists>c s. t = c # s \<and> c \<in> {CHR ''e'', CHR ''E''}")
  case False
  then show ?thesis using assms by (cases t) (auto simp: scan_exp_def number_over_def)
next
  case True
  then obtain c s where t: "t = c # s" "c \<in> {CHR ''e'', CHR ''E''}" by blast
  then have not_t: "r \<noteq> t" using assms(2) by (auto simp: number_over_def number_ends_def)
  obtain sign s' where s: "(case s of x # r' \<Rightarrow> if x \<in> {CHR ''+'', CHR ''-''} then ([x], r') else ([], s)
      | [] \<Rightarrow> ([], s)) = (sign, s')"
    by fastforce
  have parts: "takeWhile is_digit s' \<noteq> []" "e = c # sign @ takeWhile is_digit s'" "r = dropWhile is_digit s'"
    using assms(1) t s not_t by (auto simp: scan_exp_def simp del: dropWhile_eq_Nil_conv split: if_splits)
  have "s \<noteq> []" using s parts(1) by auto
  then have "(case s @ u of x # r' \<Rightarrow> if x \<in> {CHR ''+'', CHR ''-''} then ([x], r') else ([], s @ u)
      | [] \<Rightarrow> ([], s @ u)) = (sign, s' @ u)"
    using s by (cases s) (auto split: if_splits)
  moreover have "dropWhile is_digit s' \<noteq> []" using assms(2) parts(3) by (simp add: number_over_def)
  ultimately show ?thesis
    using t parts digits_longer [of s' u] by (auto simp: scan_exp_def)
qed

lemma scan_exp_dot: "scan_exp [] = ([], [])" "hd t = CHR ''.'' \<Longrightarrow> t \<noteq> [] \<Longrightarrow> scan_exp t = ([], t)"
  by (simp_all add: scan_exp_def neq_Nil_conv) auto

lemma scan_number_longer:
  assumes "scan_number t = Some (p, r)" "number_over r"
  shows "scan_number (t @ u) = Some (p, r @ u)"
proof -
  obtain i t1 f t2 e where
    parts: "scan_int t = Some (i, t1)" "scan_frac t1 = (f, t2)" "scan_exp t2 = (e, r)" "p = (i, f @ e)"
    using assms(1) by (auto simp: scan_number_def split: option.splits prod.splits)
  have t2: "t2 \<noteq> []" "hd t2 \<noteq> CHR ''.''"
  proof -
    have r: "r \<noteq> []" "hd r \<noteq> CHR ''.''"
      using assms(2) by (auto simp: number_over_def number_ends_def neq_Nil_conv)
    show "t2 \<noteq> []" using parts(3) r(1) by (auto simp: scan_exp_dot)
    then show "hd t2 \<noteq> CHR ''.''" using parts(3) r(2) scan_exp_dot(2) [of t2] by auto
  qed
  then have "t1 \<noteq> []" using parts(2) by (auto simp: scan_frac_def split: list.splits if_splits)
  then show ?thesis
    using scan_int_longer [OF parts(1), of u] scan_frac_longer [OF parts(2) t2, of u]
      scan_exp_longer [OF parts(3) assms(2), of u] parts(4)
    by (simp add: scan_number_def)
qed

lemma literal_text: "literal t x s = Some (v, r) \<longleftrightarrow> v = x \<and> s = t @ r"
  by (auto simp: literal_def split: if_splits) (metis append_take_drop_id)

lemma scan_atom_number: "is_digit c \<or> c = CHR ''-'' \<Longrightarrow> scan_atom pf (c # s) =
    (case scan_number (c # s) of
       Some (p, r) \<Rightarrow> map_option (\<lambda>v. (v, r)) (number_value pf p)
     | None \<Rightarrow> (case pf ''-Infinity'' of None \<Rightarrow> None | Some x \<Rightarrow> literal ''-Infinity'' (JFloat x) (c # s)))"
  using number_head_not [of c] by (simp add: scan_atom_def number_head_def) (auto simp: is_digit_def)

lemma scan_number_infinity: "scan_number (''-Infinity'' @ r) = None"
  by (simp add: scan_number_def scan_int_def scan_nat_def is_digit_def)

lemma scan_number_no_head: "\<not> is_digit c \<Longrightarrow> c \<noteq> CHR ''-'' \<Longrightarrow> scan_number (c # s) = None"
  by (rule ccontr) (auto simp: number_head_def elim: scan_number_head [of "c # s"])

lemma scan_atom_longer:
  assumes "scan_atom pf s = Some (v, r)" "number_over r"
  shows "scan_atom pf (s @ u) = Some (v, r @ u)"
proof -
  obtain c s' where s: "s = c # s'"
    using assms(1) by (cases s) (simp_all add: scan_atom_def)
  show ?thesis
  proof (cases "is_digit c \<or> c = CHR ''-''")
    case True
    note atom = scan_atom_number [OF True]
    show ?thesis
    proof (cases "scan_number s")
      case None
      then obtain x where "pf ''-Infinity'' = Some x" "v = JFloat x" "s = ''-Infinity'' @ r"
        using assms(1) by (auto simp: s atom literal_text split: option.splits)
      then show ?thesis
        using atom [of pf "s' @ u"] scan_number_infinity [of "r @ u"] s by (simp add: literal_text)
    next
      case (Some pr)
      then have "scan_number s = Some (fst pr, r)" "number_value pf (fst pr) = Some v"
        using assms(1) by (auto simp: s atom split: option.splits prod.splits)
      then show ?thesis
        using scan_number_longer [OF _ assms(2), of s "fst pr" u] atom [of pf "s' @ u"] by (simp add: s)
    qed
  next
    case False
    then have "scan_number (c # t) = None" for t
      using scan_number_no_head by blast
    then show ?thesis
      using assms(1) by (auto simp: s scan_atom_def literal_text split: if_splits option.splits)
  qed
qed

section \<open>Values\<close>

declare scan_value.simps(2) [simp] scan_items.simps(2) [simp] scan_members.simps(2) [simp]

text \<open>How the values begin whose end is seen from the text itself.\<close>

definition delimited :: "string \<Rightarrow> bool" where
  "delimited s \<longleftrightarrow> (\<exists>c t. s = c # t \<and> c \<in> {quote, CHR ''{'', CHR ''[''})"

lemma scan_longer:
  "scan_value pf n s = Some (v, r) \<Longrightarrow> number_over r \<or> delimited s \<Longrightarrow> 2 * length (s @ u) < m \<Longrightarrow>
     scan_value pf m (s @ u) = Some (v, r @ u)"
  "scan_items pf n s = Some (vs, r) \<Longrightarrow> Suc (2 * length (s @ u)) < m \<Longrightarrow>
     scan_items pf m (s @ u) = Some (vs, r @ u)"
  "scan_members pf n d s = Some (d', r) \<Longrightarrow> Suc (2 * length (s @ u)) < m \<Longrightarrow>
     scan_members pf m d (s @ u) = Some (d', r @ u)"
proof (induction pf n s and pf n s and pf n d s arbitrary: v r m and vs r m and d' r m
    rule: scan_value_scan_items_scan_members.induct)
  case (2 pf n s)
  obtain c t where s: "s = c # t" using "2.prems"(1) by (cases s) auto
  obtain k where m: "m = Suc k" using "2.prems"(3) by (cases m) auto
  consider "c = quote" | "c = CHR ''{''" | "c = CHR ''[''" | "c \<notin> {quote, CHR ''{'', CHR ''[''}" by blast
  then show ?case
  proof cases
    case 1
    then show ?thesis
      using "2.prems"(1) scan_string_append [of t _ r u] by (auto simp: s m)
  next
    case 2
    then obtain c' r' where r': "skip_space t = c' # r'" using "2.prems"(1) by (auto simp: s split: list.splits)
    have "Suc (2 * length ((c' # r') @ u)) < k"
      using "2.prems"(3) skip_space_shorter [of t] by (simp add: s m r')
    then have "scan_members pf k [] ((c' # r') @ u) = Some (d', r @ u)"
      if "scan_members pf n [] (c' # r') = Some (d', r)" "c' \<noteq> CHR ''}''" for d'
      using "2.IH"(1) [OF s _ 2 r' that(2,1)] 2 by simp
    then show ?thesis
      using "2.prems"(1) skip_space_append_Cons [OF r', of u] 2
      by (auto simp: s m r' simp del: scan_members.simps scan_items.simps split: if_splits)
  next
    case 3
    then obtain c' r' where r': "skip_space t = c' # r'" using "2.prems"(1) by (auto simp: s split: list.splits)
    have "Suc (2 * length ((c' # r') @ u)) < k"
      using "2.prems"(3) skip_space_shorter [of t] by (simp add: s m r')
    then have "scan_items pf k ((c' # r') @ u) = Some (vs, r @ u)"
      if "scan_items pf n (c' # r') = Some (vs, r)" "c' \<noteq> CHR '']''" for vs
      using "2.IH"(2) [OF s _ _ 3 r' that(2,1)] 3 by simp
    then show ?thesis
      using "2.prems"(1) skip_space_append_Cons [OF r', of u] 3
      by (auto simp: s m r' simp del: scan_members.simps scan_items.simps split: if_splits)
  next
    case 4
    then have "number_over r" using "2.prems"(2) by (simp add: s delimited_def)
    then show ?thesis
      using "2.prems"(1) scan_atom_longer [of pf s v r u] 4 by (simp add: s m)
  qed
next
  case (4 pf n s)
  obtain k where m: "m = Suc k" using "4.prems"(2) by (cases m) auto
  obtain w q where w: "scan_value pf n s = Some (w, q)"
    using "4.prems"(1) by (auto split: option.splits)
  obtain c q' where c: "skip_space q = c # q'" "c \<in> {CHR '']'', CHR '',''}"
    using "4.prems"(1) w by (auto split: list.splits if_splits)
  have "number_over q" using c by (intro number_overI) auto
  then have v: "scan_value pf k (s @ u) = Some (w, q @ u)"
    using "4.IH"(1) [OF w] "4.prems"(2) by (simp add: m)
  note more = skip_space_append_Cons [OF c(1), of u]
  show ?case
  proof (cases "c = CHR '']''")
    case True
    then show ?thesis using "4.prems"(1) v more w c(1) by (simp add: m del: scan_value.simps)
  next
    case False
    then obtain ws where ws: "scan_items pf n (skip_space q') = Some (ws, r)" "vs = w # ws"
      using "4.prems"(1) w c by (auto simp del: scan_value.simps scan_items.simps(1) split: if_splits)
    have "skip_space q' \<noteq> []" using scan_shorter(2) [OF ws(1)] by auto
    moreover have "Suc (2 * length (skip_space q' @ u)) < k"
      using "4.prems"(2) scan_shorter(1) [OF w] skip_space_rest [OF c(1)] skip_space_shorter [of q'] by (simp add: m)
    ultimately have "scan_items pf k (skip_space (q' @ u)) = Some (ws, r @ u)"
      using "4.IH"(2) [OF w _ c(1)] False c ws(1) skip_space_append [of q' u] by simp
    then show ?thesis
      using v more ws(2) False c(2) by (simp add: m del: scan_value.simps)
  qed
next
  case (6 pf n d s)
  obtain k where m: "m = Suc k" using "6.prems"(2) by (cases m) auto
  obtain key p w q where w: "scan_key s = Some (key, p)" "scan_value pf n p = Some (w, q)"
    using "6.prems"(1) by (auto split: option.splits)
  obtain c q' where c: "skip_space q = c # q'" "c \<in> {CHR ''}'', CHR '',''}"
    using "6.prems"(1) w by (auto split: list.splits if_splits)
  have "number_over q" using c by (intro number_overI) auto
  moreover have "p \<noteq> []" using scan_shorter(1) [OF w(2)] by auto
  moreover have "2 * length (p @ u) < k"
    using "6.prems"(2) scan_key_shorter [OF w(1)] by (simp add: m)
  ultimately have v: "scan_key (s @ u) = Some (key, p @ u)" "scan_value pf k (p @ u) = Some (w, q @ u)"
    using "6.IH"(1) [OF w(1) refl w(2)] scan_key_append [OF w(1), of u] by simp_all
  note more = skip_space_append_Cons [OF c(1), of u]
  show ?case
  proof (cases "c = CHR ''}''")
    case True
    then show ?thesis using "6.prems"(1) v more w c(1) by (simp add: m del: scan_value.simps)
  next
    case False
    then have ws: "scan_members pf n (dict_set key w d) (skip_space q') = Some (d', r)"
      using "6.prems"(1) w c by (auto simp del: scan_value.simps scan_members.simps(1) split: if_splits)
    have "skip_space q' \<noteq> []" using scan_shorter(3) [OF ws] by auto
    moreover have "Suc (2 * length (skip_space q' @ u)) < k"
      using "6.prems"(2) scan_key_shorter [OF w(1)] scan_shorter(1) [OF w(2)] skip_space_rest [OF c(1)]
        skip_space_shorter [of q'] by (simp add: m)
    ultimately have "scan_members pf k (dict_set key w d) (skip_space (q' @ u)) = Some (d', r @ u)"
      using "6.IH"(2) [OF w(1) refl w(2) refl c(1)] False c ws skip_space_append [of q' u] by simp
    then show ?thesis
      using v more False c(2) by (simp add: m del: scan_value.simps)
  qed
qed simp_all

declare scan_value.simps(2) [simp del] scan_items.simps(2) [simp del] scan_members.simps(2) [simp del]

text \<open>The text of an object that is cut off does not parse.\<close>

lemma loads_cut_off:
  assumes "repr_faithful repr pf" "json_ok (JObj d)" "json_dumps repr (JObj d) = t @ u" "u \<noteq> []"
  shows "json_loads pf t = None"
proof (rule ccontr)
  assume "json_loads pf t \<noteq> None"
  then obtain v r where v: "scan_value pf (Suc (2 * length t)) (skip_space t) = Some (v, r)"
    by (auto simp: json_loads_def simp del: scan_value.simps split: option.splits)
  have "t \<noteq> []" using scan_shorter(1) [OF v] by (auto simp: skip_space_def)
  then obtain t' where t: "t = CHR ''{'' # t'"
    using assms(3) dumps_braced [of repr d] by (cases t) auto
  have skip: "skip_space t = t" by (simp add: t skip_space_id json_space_def)
  have "delimited t" by (simp add: t delimited_def)
  then have "scan_value pf (Suc (2 * length (t @ u))) (t @ u) = Some (v, r @ u)"
    using scan_longer(1) [OF v [unfolded skip]] by (simp del: scan_value.simps)
  moreover have "scan_value pf (Suc (2 * length (t @ u))) ((t @ u) @ []) = Some (JObj d, [])"
    using reads_backD [OF scan_value_back [OF assms(1,2)], of "[]" "Suc (2 * length (t @ u))"]
    unfolding assms(3) by (simp del: scan_value.simps)
  ultimately show False using assms(4) by (simp del: scan_value.simps)
qed

end
