(* ===== verification/Recovery.thy ===== *)
theory Recovery
  imports Sink PyJsonPrefix
begin

text \<open>
  What a crash leaves of a result file and what \<open>replay\<close> of \<open>core/sink.py\<close> makes of it: the file may be cut
  off at any byte, so the last line may be torn.
\<close>

lemma strip_prefix: "\<not> py_isspace c \<Longrightarrow> \<exists>w. c # t = py_strip (c # t) @ w"
proof -
  assume "\<not> py_isspace c"
  then have "py_strip (c # t) = rev (dropWhile py_isspace (rev (c # t)))"
    by (simp add: py_strip_def py_lstrip_def py_rstrip_def)
  then show ?thesis
    by (metis rev_append rev_rev_ident takeWhile_dropWhile_id)
qed

text \<open>A line that is cut off is skipped.\<close>

lemma torn_line:
  assumes "repr_faithful repr pf" "json_dumps repr (item_line x) = t @ u" "u \<noteq> []"
  shows "py_strip t = [] \<or> json_loads pf (py_strip t) = None"
proof (cases t)
  case (Cons c t')
  obtain row where row: "item_line x = JObj row" by (rule item_line_obj)
  then have "c = CHR ''{''" using assms(2) Cons dumps_braced [of repr row] by auto
  then have "\<not> py_isspace c" by (simp add: py_isspace_def)
  from strip_prefix [OF this] obtain w where "t = py_strip t @ w" unfolding Cons by blast
  then have "json_dumps repr (JObj row) = py_strip t @ w @ u"
    using assms(2) row by (metis append.assoc)
  then show ?thesis
    using loads_cut_off [OF assms(1)] item_line_json_ok [of x] row assms(3) by simp
qed simp

text \<open>The first \<open>m\<close> bytes of a file of lines are some whole lines and the beginning of the next one.\<close>

lemma take_lines_file:
  "\<exists>j t. j \<le> length ls \<and> take m (lines_file ls) = lines_file (take j ls) @ t \<and>
     length (lines_file (take j ls)) + length t = min m (length (lines_file ls)) \<and>
     (t = [] \<or> (j < length ls \<and> (\<exists>u. ls ! j = t @ u)))"
proof (induction ls arbitrary: m)
  case Nil
  show ?case by (simp add: lines_file_def)
next
  case (Cons l ls)
  have whole: "lines_file (l # ls) = l @ newline # lines_file ls"
    by (simp add: lines_file_def)
  show ?case
  proof (cases "m \<le> length l")
    case True
    then show ?thesis
      by (intro exI [of _ 0] exI [of _ "take m l"]) (auto simp: whole lines_file_def intro: exI [of _ "drop m l"])
  next
    case False
    then have m: "m = length l + Suc (m - Suc (length l))" by simp
    obtain j t where j: "j \<le> length ls" "take (m - Suc (length l)) (lines_file ls) = lines_file (take j ls) @ t"
      "length (lines_file (take j ls)) + length t = min (m - Suc (length l)) (length (lines_file ls))"
      "t = [] \<or> (j < length ls \<and> (\<exists>u. ls ! j = t @ u))"
      using Cons.IH by blast
    have "take m (lines_file (l # ls)) = l @ newline # take (m - Suc (length l)) (lines_file ls)"
      using False m unfolding whole by (simp add: take_Cons')
    then show ?thesis
      using j False
      by (intro exI [of _ "Suc j"] exI [of _ t]) (auto simp: lines_file_def min_def)
  qed
qed

text \<open>How many rows a file of \<open>m\<close> bytes holds: the last one may lack its newline.\<close>

definition rows_within :: "string list \<Rightarrow> nat \<Rightarrow> nat \<Rightarrow> bool" where
  "rows_within ls m k \<longleftrightarrow> k \<le> length ls \<and> length (lines_file (take k ls)) \<le> Suc m \<and>
     (k < length ls \<longrightarrow> Suc m < length (lines_file (take (Suc k) ls)))"

lemma length_lines_file_Suc:
  "j < length ls \<Longrightarrow> length (lines_file (take (Suc j) ls)) = length (lines_file (take j ls)) + Suc (length (ls ! j))"
  by (simp add: take_Suc_conv_app_nth lines_file_append) (simp add: lines_file_def)

lemma lines_file_within:
  "j < length ls \<Longrightarrow> length (lines_file (take j ls)) + Suc (length (ls ! j)) \<le> length (lines_file ls)"
proof -
  assume "j < length ls"
  then have "lines_file ls = lines_file (take j ls) @ lines_file (ls ! j # drop (Suc j) ls)"
    by (metis Cons_nth_drop_Suc append_take_drop_id lines_file_append)
  then show ?thesis by (simp add: lines_file_def)
qed

lemma replay_lines_last:
  "py_strip t = py_strip t' \<Longrightarrow>
   replay_lines py_repr loads (ls @ [t]) st = replay_lines py_repr loads (ls @ [t']) st"
  by (induction ls arbitrary: st) (auto simp: Let_def split: option.split json.split)

text \<open>A last row without its newline counts as much as one with it.\<close>

lemma replay_last_line:
  assumes "repr_faithful repr pf"
  shows "replay py_repr (json_loads pf)
      (Some (lines_file (map (\<lambda>x. json_dumps repr (item_line x)) xs) @ json_dumps repr (item_line x))) =
    Inr (count_items (xs @ [x]))"
proof -
  let ?text = "\<lambda>x. json_dumps repr (item_line x)"
  have ok: "json_text_ok (json_dumps repr) (json_loads pf) (item_line y)" for y
    by (rule item_text_ok [OF assms])
  have line: "line_text (?text y)" "?text y \<noteq> []" "py_strip (?text y @ [newline]) = py_strip (?text y)" for y
    using ok [of y] strip_braced [of "?text y"] by (auto simp: json_text_ok_def)
  have "file_lines (lines_file (map ?text xs) @ ?text x) = map (\<lambda>l. l @ [newline]) (map ?text xs) @ [?text x]"
    using line(1,2) file_lines_written [of "map ?text xs" "?text x"] by simp
  moreover have "file_lines (lines_file (map ?text (xs @ [x])) @ []) =
      map (\<lambda>l. l @ [newline]) (map ?text xs) @ [?text x @ [newline]]"
    using line(1) file_lines_written [of "map ?text (xs @ [x])" "[]"] by (simp add: line_text_def)
  ultimately have "replay py_repr (json_loads pf) (Some (lines_file (map ?text xs) @ ?text x)) =
      replay py_repr (json_loads pf) (Some (lines_file (map ?text (xs @ [x])) @ []))"
    using replay_lines_last [OF line(3), of py_repr "json_loads pf"] by (simp add: replay_def)
  also have "\<dots> = Inr (count_items (xs @ [x]))"
    using ok by (intro replay_written) (simp_all add: line_text_def)
  finally show ?thesis .
qed

lemma replay_lines_within:
  assumes "repr_faithful repr pf" and ls: "ls = map (\<lambda>x. json_dumps repr (item_line x)) xs"
  shows "\<exists>k. rows_within ls m k \<and>
    replay py_repr (json_loads pf) (Some (take m (lines_file ls))) = Inr (count_items (take k xs))"
proof -
  obtain j t where j: "j \<le> length ls" "take m (lines_file ls) = lines_file (take j ls) @ t"
    "length (lines_file (take j ls)) + length t = min m (length (lines_file ls))"
    "t = [] \<or> (j < length ls \<and> (\<exists>u. ls ! j = t @ u))"
    using take_lines_file [of ls m] by blast
  show ?thesis
  proof (cases "j < length ls \<and> t = ls ! j")
    case True
    then have m: "length (lines_file (take j ls)) + length t = m"
      using j(3) lines_file_within [of j ls] by (simp add: min_def split: if_splits)
    have "rows_within ls m (Suc j)"
      using True m length_lines_file_Suc [of j ls] length_lines_file_Suc [of "Suc j" ls]
      by (simp add: rows_within_def)
    moreover have "take (Suc j) xs = take j xs @ [xs ! j]" "t = json_dumps repr (item_line (xs ! j))"
      using True by (simp_all add: ls take_Suc_conv_app_nth)
    ultimately show ?thesis
      using replay_last_line [OF assms(1), of py_repr "take j xs" "xs ! j"] j(2)
      by (intro exI [of _ "Suc j"]) (simp add: ls take_map)
  next
    case False
    have short: "length t < length (ls ! j)" "py_strip t = [] \<or> json_loads pf (py_strip t) = None" "line_text t"
      if "j < length ls"
    proof -
      have lsj: "ls ! j = json_dumps repr (item_line (xs ! j))" "ls ! j \<noteq> []"
        using that item_text_ok [OF assms(1), of "xs ! j"] by (auto simp: ls json_text_ok_def)
      obtain u where u: "ls ! j = t @ u" "u \<noteq> []"
        using j(4) False that lsj(2) by force
      then show "length t < length (ls ! j)" by simp
      show "py_strip t = [] \<or> json_loads pf (py_strip t) = None"
        using torn_line [OF assms(1), of "xs ! j" t u] u lsj(1) by simp
      have "line_text (t @ u)"
        using dumps_line [OF assms(1), of "item_line (xs ! j)"] lsj(1) u(1) by metis
      then show "line_text t" by (simp add: line_text_def)
    qed
    have "rows_within ls m j"
      using j(1,3) short(1) lines_file_within [of j ls] length_lines_file_Suc [of j ls]
      by (auto simp: rows_within_def min_def split: if_splits)
    moreover have "py_strip t = [] \<or> json_loads pf (py_strip t) = None" "line_text t"
      using short j(4) by (auto simp: line_text_def)
    ultimately show ?thesis
      using replay_written [of "take j xs" "json_dumps repr" "json_loads pf" t py_repr]
        item_text_ok [OF assms(1)] j(2)
      by (intro exI [of _ j]) (simp add: ls take_map)
  qed
qed

lemma lines_file_mono: "j \<le> k \<Longrightarrow> length (lines_file (take j ls)) \<le> length (lines_file (take k ls))"
  using append_take_drop_id [of j "take k ls"]
  by (metis length_append le_add1 lines_file_append min.absorb1 take_take)

text \<open>C27. Recovery: after a crash that leaves any number of bytes of what was written, replaying the file
  counts exactly the successes and failures of the rows that are wholly there (the last one may lack
  its newline) and collects their item ids; a torn row is skipped.  If what was synced is there, no
  synced row is missing.\<close>

theorem replay_after_crash:
  assumes "repr_faithful repr parse_float"
  shows "let s = sink_run (json_dumps repr) (sink_start [] t0) es in
    \<exists>k. rows_within (sk_lines s) m k \<and>
      (length (lines_file (take (sk_durable s) (sk_lines s))) \<le> m \<longrightarrow> sk_durable s \<le> k) \<and>
      replay py_repr (json_loads parse_float) (Some (take m (sink_file s))) =
        Inr (count_items (take k (sink_submits es)))"
proof -
  define s where "s = sink_run (json_dumps repr) (sink_start [] t0) es"
  obtain w where w: "sk_lines s = map (\<lambda>x. json_dumps repr (item_line x)) w"
    "sink_submits es = w @ sink_waiting s" "sk_prior s = []"
    using sink_history [of "json_dumps repr" "[]" t0 es] unfolding s_def by metis
  obtain k where k: "rows_within (sk_lines s) m k"
    "replay py_repr (json_loads parse_float) (Some (take m (lines_file (sk_lines s)))) = Inr (count_items (take k w))"
    using replay_lines_within [OF assms w(1)] by blast
  have "sink_inv s"
    unfolding s_def by (rule sink_run_inv [OF sink_inv_start])
  then have "sk_durable s \<le> length (sk_lines s)"
    by (simp add: sink_inv_def)
  moreover have "take k (sink_submits es) = take k w"
    using k(1) w by (simp add: rows_within_def)
  moreover have "sk_durable s \<le> k" if "length (lines_file (take (sk_durable s) (sk_lines s))) \<le> m"
    using that k(1) lines_file_mono [of "Suc k" "sk_durable s" "sk_lines s"] calculation(1)
    by (fastforce simp: rows_within_def)
  ultimately show ?thesis
    unfolding Let_def s_def [symmetric] using k w(3) by (auto simp: sink_file_def)
qed

theorem replay_after_crash_witness:
  "replay (\<lambda>_. []) demo_loads
     (Some (take 1 (sink_file (sink_run demo_dumps (sink_start [] 0) [Sk_submit demo_error, Sk_turn 1])))) =
   Inr \<lparr>rs_succeeded = 0, rs_failed = 0, rs_seen_item_ids = {}\<rparr>"
proof -
  let ?s = "sink_run demo_dumps (sink_start [] 0) [Sk_submit demo_error, Sk_turn 1]"
  obtain k where k: "rows_within (sk_lines ?s) 1 k"
    "replay (\<lambda>_. []) demo_loads (Some (take 1 (sink_file ?s))) =
      Inr (count_items (take k (sink_submits [Sk_submit demo_error, Sk_turn 1])))"
    using replay_after_crash [OF demo_repr_faithful, of 0 "[Sk_submit demo_error, Sk_turn 1]" 1 "\<lambda>_. []"]
    unfolding Let_def by blast
  have "sk_lines ?s = [demo_dumps (item_line demo_error)]"
    by (simp add: sink_submit_def sink_put_def sink_start_def new_queue_def q_put_def q_full_def
        sink_turn_def q_get_def frame)
  moreover obtain row where "item_line demo_error = JObj row" by (rule item_line_obj)
  moreover obtain t where "demo_dumps (JObj row) = CHR ''{'' # t @ ''}''"
    using dumps_braced by blast
  ultimately have "k = 0"
    using k(1) by (cases k) (auto simp: rows_within_def lines_file_def)
  then show ?thesis
    using k(2) by (simp add: count_items_def)
qed

end
