(* ===== verification/Download.thy ===== *)
theory Download
  imports ApiRoutes Recovery
begin

text \<open>
  What a download contains, while the job runs and after it, whatever part of the written lines the file
  shows: the writer's buffer and the operating system may hold back the end of it.
\<close>

section \<open>Downloads\<close>

fun included :: "download_include \<Rightarrow> sink_item \<Rightarrow> bool" where
  "included Inc_all x = True"
| "included Inc_success x = is_success_item x"
| "included Inc_errors x = (\<not> is_success_item x)"

lemma item_status:
  obtains row where "item_line x = JObj row"
    "dict_get row ''status'' = Some (JStr (if is_success_item x then ''success'' else ''error''))"
  by (cases x) (auto simp: result_line_def error_line_def dict_get_def)

lemma download_lines_strip:
  "map (py_rstrip_char newline) ls = map (py_rstrip_char newline) ls' \<Longrightarrow>
   download_lines loads w ls = download_lines loads w ls'"
proof (induction ls arbitrary: ls')
  case (Cons l ls)
  then obtain l' r where "ls' = l' # r" "py_rstrip_char newline l' = py_rstrip_char newline l"
    "map (py_rstrip_char newline) ls = map (py_rstrip_char newline) r"
    by (auto simp: Cons_eq_map_conv)
  then show ?case using Cons.IH [of r] by (simp add: Let_def)
qed simp

text \<open>The lines of a file that shows only the first \<open>m\<close> bytes: some rows, and what there is of the next one.\<close>

lemma rstrip_line: "line_text t \<Longrightarrow> py_rstrip_char newline t = t"
  by (simp add: line_text_def py_rstrip_char_def dropWhile_notin)

lemma cut_lines:
  assumes whole: "\<forall>l \<in> set ls. line_text l \<and> l \<noteq> []"
  shows "\<exists>k t. rows_within ls m k \<and> (t \<noteq> [] \<longrightarrow> k < length ls \<and> (\<exists>u. u \<noteq> [] \<and> ls ! k = t @ u)) \<and>
    map (py_rstrip_char newline) (file_lines (take m (lines_file ls))) = take k ls @ (if t = [] then [] else [t])"
proof -
  obtain j t where j: "j \<le> length ls" "take m (lines_file ls) = lines_file (take j ls) @ t"
    "length (lines_file (take j ls)) + length t = min m (length (lines_file ls))"
    "t = [] \<or> (j < length ls \<and> (\<exists>u. ls ! j = t @ u))"
    using take_lines_file [of ls m] by blast
  have t: "line_text t"
    using j(4) whole by (auto simp: line_text_def dest: nth_mem) (metis Un_iff nth_mem set_append)+
  have rows: "\<forall>l \<in> set (take j ls). line_text l"
    using whole by (auto dest: in_set_takeD)
  then have "map (py_rstrip_char newline) (map (\<lambda>l. l @ [newline]) (take j ls)) = take j ls"
    by (simp add: o_def line_text_def rstrip_newline cong: map_cong)
  then have lines: "map (py_rstrip_char newline) (file_lines (take m (lines_file ls))) =
      take j ls @ (if t = [] then [] else [t])"
    using file_lines_written [OF rows t] j(2) rstrip_line [OF t] by simp
  show ?thesis
  proof (cases "j < length ls \<and> t = ls ! j")
    case True
    then have "length (lines_file (take j ls)) + length t = m"
      using j(3) lines_file_within [of j ls] by (simp add: min_def split: if_splits)
    then have "rows_within ls m (Suc j)"
      using True length_lines_file_Suc [of j ls] length_lines_file_Suc [of "Suc j" ls]
      by (simp add: rows_within_def)
    moreover have "take (Suc j) ls = take j ls @ [t]" "t \<noteq> []"
      using True whole by (simp_all add: take_Suc_conv_app_nth)
    ultimately show ?thesis
      using lines by (intro exI [of _ "Suc j"] exI [of _ "[]"]) simp
  next
    case False
    then have short: "length t < length (ls ! j)" if "j < length ls"
      using that j(4) whole by (cases "t = []") (auto simp: neq_Nil_conv)
    have "rows_within ls m j"
      using j(1,3) short lines_file_within [of j ls] length_lines_file_Suc [of j ls]
      by (auto simp: rows_within_def min_def split: if_splits)
    moreover have "t \<noteq> [] \<longrightarrow> j < length ls \<and> (\<exists>u. u \<noteq> [] \<and> ls ! j = t @ u)"
      using j(4) False by (metis append_Nil2)
    ultimately show ?thesis
      using lines by blast
  qed
qed

text \<open>What the generator yields of them: a torn line is no JSON, so only \<open>include=all\<close> streams it.\<close>

lemma download_rows:
  assumes "\<forall>x \<in> set xs. json_text_ok dumps loads (item_line x)" "line_text t" "loads t = None"
  shows "download_lines loads (wanted_status inc)
      (map (\<lambda>x. dumps (item_line x)) xs @ (if t = [] then [] else [t])) =
    (map (\<lambda>x. dumps (item_line x)) (filter (included inc) xs) @ (if t \<noteq> [] \<and> inc = Inc_all then [t] else []),
     None)"
  using assms
proof (induction xs)
  case Nil
  then show ?case
    by (cases inc) (simp_all add: Let_def wanted_status_def rstrip_line)
next
  case (Cons x xs)
  obtain row where row: "item_line x = JObj row"
    "dict_get row ''status'' = Some (JStr (if is_success_item x then ''success'' else ''error''))"
    by (rule item_status)
  have ok: "loads (dumps (item_line x)) = Some (JObj row)" "dumps (item_line x) \<noteq> []"
    and strip: "py_rstrip_char newline (dumps (item_line x)) = dumps (item_line x)"
    using Cons.prems row(1) by (auto simp: json_text_ok_def intro: rstrip_line)
  then show ?case
    using Cons row(2) by (cases inc; cases "is_success_item x") (simp_all add: Let_def wanted_status_def)
qed

lemma download_cut:
  assumes "repr_faithful repr pf" and ls: "ls = map (\<lambda>x. json_dumps repr (item_line x)) xs"
  shows "\<exists>k t. rows_within ls m k \<and> (t \<noteq> [] \<longrightarrow> k < length ls \<and> (\<exists>u. u \<noteq> [] \<and> ls ! k = t @ u)) \<and>
    download_lines (json_loads pf) (wanted_status inc) (file_lines (take m (lines_file ls))) =
      (map (\<lambda>x. json_dumps repr (item_line x)) (filter (included inc) (take k xs)) @
         (if t \<noteq> [] \<and> inc = Inc_all then [t] else []), None)"
proof -
  have ok: "\<forall>x \<in> set xs. json_text_ok (json_dumps repr) (json_loads pf) (item_line x)"
    using item_text_ok [OF assms(1)] by blast
  then have "\<forall>l \<in> set ls. line_text l \<and> l \<noteq> []"
    by (auto simp: ls json_text_ok_def)
  from cut_lines [OF this, of m] obtain k t where k: "rows_within ls m k"
    "t \<noteq> [] \<longrightarrow> k < length ls \<and> (\<exists>u. u \<noteq> [] \<and> ls ! k = t @ u)"
    and lines: "map (py_rstrip_char newline) (file_lines (take m (lines_file ls))) =
      take k ls @ (if t = [] then [] else [t])"
    by blast
  have torn: "line_text t \<and> json_loads pf t = None"
  proof (cases "t = []")
    case True
    then show ?thesis
      by (auto simp: line_text_def json_loads_def skip_space_def simp del: scan_value.simps
          dest: scan_shorter(1) split: option.split)
  next
    case False
    then obtain u where u: "k < length ls" "u \<noteq> []" "ls ! k = t @ u" using k(2) by blast
    obtain row where row: "item_line (xs ! k) = JObj row" by (rule item_line_obj)
    have whole: "ls ! k = json_dumps repr (item_line (xs ! k))" using u(1) by (simp add: ls)
    have "json_loads pf t = None"
      using loads_cut_off [OF assms(1), of row t u] item_line_json_ok [of "xs ! k"] row whole u(2,3) by simp
    moreover have "line_text (t @ u)"
      using dumps_line [OF assms(1), of "item_line (xs ! k)"] whole u(3) by simp
    ultimately show ?thesis by (simp add: line_text_def)
  qed
  have rows: "take k ls = map (\<lambda>x. json_dumps repr (item_line x)) (take k xs)"
    by (simp add: ls take_map)
  have "\<forall>l \<in> set (take k ls @ (if t = [] then [] else [t])). line_text l"
    using ok torn by (auto simp: rows json_text_ok_def dest: in_set_takeD)
  then have "map (py_rstrip_char newline) (take k ls @ (if t = [] then [] else [t])) =
      take k ls @ (if t = [] then [] else [t])"
    by (intro map_idI) (auto intro: rstrip_line)
  then have "download_lines (json_loads pf) (wanted_status inc) (file_lines (take m (lines_file ls))) =
      download_lines (json_loads pf) (wanted_status inc) (take k ls @ (if t = [] then [] else [t]))"
    using lines by (intro download_lines_strip) simp
  also have "\<dots> = (map (\<lambda>x. json_dumps repr (item_line x)) (filter (included inc) (take k xs)) @
      (if t \<noteq> [] \<and> inc = Inc_all then [t] else []), None)"
    unfolding rows using ok torn by (intro download_rows) (auto dest: in_set_takeD)
  finally show ?thesis
    using k by blast
qed

section \<open>The property\<close>


text \<open>A job with one rejected row, run to its end, and a process that serves it.\<close>

definition single_rows :: "parsed list" where
  "single_rows = [demo_rows ! 1]"

definition single_env :: "(json \<Rightarrow> string) \<Rightarrow> job_env" where
  "single_env dumps = demo_env\<lparr>je_dumps := dumps\<rparr>"

definition single_state :: "(json \<Rightarrow> string) \<Rightarrow> job_sys" where
  "single_state dumps = the (sys_run (single_env dumps)
     (replicate 5 (L_run 0) @ [demo_resume 1, demo_resume 2, L_run 3, L_sink 4, L_sink 4, L_run 5, L_run 6])
     (start_run demo_record 60 30 (1 / 2) 30 [] 0 0 single_rows None))"

definition single_app :: app_state where
  "single_app = (demo_app 0)\<lparr>ap_runners := [(''j'',
     (the (dict_get (ap_runners (demo_app 0)) ''j''))\<lparr>ru_job := Some (single_state demo_dumps)\<rparr>)]\<rparr>"

definition single_api :: api_env where
  "single_api = demo_api\<lparr>ae_dumps := demo_dumps, ae_loads := demo_loads\<rparr>"

lemma single_reaches: "job_reaches (single_env dumps) demo_record 60 single_rows (single_state dumps)"
proof -
  let ?s0 = "start_run demo_record 60 30 (1 / 2) 30 [] 0 0 single_rows None"
  let ?ls = "replicate 5 (L_run 0) @ [demo_resume 1, demo_resume 2, L_run 3, L_sink 4, L_sink 4, L_run 5, L_run 6]"
  have "sys_run (single_env dumps) ?ls ?s0 \<noteq> None" by code_simp
  then have "sys_run (single_env dumps) ?ls ?s0 = Some (single_state dumps)"
    by (auto simp: single_state_def)
  then have "reachable (single_env dumps) ?s0 (single_state dumps)"
    using reachable.start by (rule sys_run_reachable)
  moreover have "fresh_record demo_record" "rows_ok single_rows"
    by (simp_all add: demo_record_def rows_ok_def single_rows_def demo_rows_def row_ok_def)
  ultimately show ?thesis
    unfolding job_reaches_def by fastforce
qed

lemma single_facts:
  "job_over (single_state dumps) \<and> sk_prior (wc_sink (js_ctx (single_state dumps))) = [] \<and>
   jr_status (the_record (single_state dumps)) = JS_FAILED \<and>
   length (wc_emitted (js_ctx (single_state dumps))) = 1 \<and>
   (case hd (wc_emitted (js_ctx (single_state dumps))) of S_error e \<Rightarrow> re_item_id e = ''b'' | _ \<Rightarrow> False)"
  by code_simp


end
