(* ===== verification/LiveRow.thy ===== *)
theory LiveRow
  imports DigitalOcean Scheduler
begin

text \<open>
  The live provider and the worker together: which answer of the endpoint becomes a success row, and what
  is in that row.
\<close>

section \<open>Turns that emit no success row\<close>

definition no_success :: "wctx \<Rightarrow> wctx \<Rightarrow> bool" where
  "no_success c c' \<longleftrightarrow>
     (\<exists>new. wc_emitted c' = wc_emitted c @ new \<and> filter is_success_item new = []) \<and> wc_usage c' = wc_usage c"

lemma no_success_same: "wc_emitted c' = wc_emitted c \<Longrightarrow> wc_usage c' = wc_usage c \<Longrightarrow> no_success c c'"
  by (simp add: no_success_def)

lemma no_success_emit:
  "wc_emitted c1 = wc_emitted c \<Longrightarrow> wc_usage c1 = wc_usage c \<Longrightarrow>
   no_success c (fst (item_finished nx (emit_error i k m a h c1)))"
  by (auto simp: no_success_def item_finished_def emit_error_def resolve_error_def bump_error_class_def
      submit_row_def Let_def split: option.split)

lemma no_success_retry:
  "wc_emitted c1 = wc_emitted c \<Longrightarrow> wc_usage c1 = wc_usage c \<Longrightarrow>
   no_success c (fst (retry_or_exhaust env c1 it a k m h))"
  by (auto simp: retry_or_exhaust_def Let_def no_success_emit no_success_same split: prod.split)

lemma no_success_after_call:
  assumes "\<And>r k. response = Some r \<Longrightarrow> classify (Some r) exc \<noteq> Inr (FC_SUCCESS, k)"
    and "wc_emitted c1 = wc_emitted c" "wc_usage c1 = wc_usage c"
  shows "no_success c (fst (after_call xr pf osc env c1 it a t response exc))"
  using assms
  by (auto simp: after_call_def Let_def item_fatal_def item_escaped_def no_success_emit no_success_retry
      no_success_same dest: classify_success_response split: sum.split option.split)

section \<open>The answer of the endpoint\<close>

text \<open>What a usable answer holds: status 200, a JSON body whose first choice has a string content, and
  readable token counts.\<close>

definition live_answer :: "(string \<Rightarrow> int option) \<Rightarrow> post_outcome \<Rightarrow> (string \<times> int \<times> int) option" where
  "live_answer parse_int posted =
     (case posted of
        Post_response h \<Rightarrow>
          (case hr_json h of
             Some body \<Rightarrow>
               (case body_content body of
                  Inr (JStr s) \<Rightarrow>
                    (case body_usage parse_int body of
                       Inr (i, out) \<Rightarrow> if hr_status h = 200 then Some (s, i, out) else None
                     | _ \<Rightarrow> None)
                | _ \<Rightarrow> None)
           | None \<Rightarrow> None)
      | _ \<Rightarrow> None)"

lemma live_answer_Some:
  "live_answer parse_int posted = Some (s, i, out) \<longleftrightarrow>
   (\<exists>h body. posted = Post_response h \<and> hr_status h = 200 \<and> hr_json h = Some body \<and>
      body_content body = Inr (JStr s) \<and> body_usage parse_int body = Inr (i, out))"
  by (auto simp: live_answer_def split: post_outcome.split option.split sum.split json.split)


end
