(* ===== verification/Scripts.thy ===== *)
theory Scripts
  imports Ingest DigitalOcean Metrics JobEnd
begin

text \<open>
  The scripts under \<open>src/scripts\<close>: \<open>cost_table.py\<close>, \<open>generate_batch.py\<close> and \<open>memory_probe.py\<close>.  What they
  print is a list of texts, one for each \<open>print\<close>.  The text of numbers, \<open>json.dumps\<close>, the draws of the
  random generator and the measured memory are parameters.
\<close>

section \<open>The cost table\<close>

definition avg_input_tokens :: int where "avg_input_tokens = 150"
definition avg_output_tokens :: int where "avg_output_tokens = 200"

definition cost_for_n :: "int \<Rightarrow> pyfloat \<Rightarrow> pyfloat \<Rightarrow> int \<Rightarrow> int \<Rightarrow> pyfloat" where
  "cost_for_n n_prompts cost_in cost_out avg_in avg_out =
     of_int n_prompts * (of_int avg_in / 1000000 * cost_in + of_int avg_out / 1000000 * cost_out)"

abbreviation prompts_cost :: "int \<Rightarrow> pyfloat \<times> pyfloat \<Rightarrow> pyfloat" where
  "prompts_cost n p \<equiv> cost_for_n n (fst p) (snd p) avg_input_tokens avg_output_tokens"

text \<open>The rows in the order of the table; \<open>sorted\<close> is stable.\<close>

definition cost_rows :: "(string \<times> pyfloat \<times> pyfloat) list" where
  "cost_rows = sort_key (\<lambda>kv. prompts_cost 1000 (snd kv)) model_pricing"

definition cost_row_text :: "(string \<Rightarrow> pyfloat \<Rightarrow> string) \<Rightarrow> string \<times> pyfloat \<times> pyfloat \<Rightarrow> string" where
  "cost_row_text fmt row =
     (case row of (model, cost_in, cost_out) \<Rightarrow>
        ''| `'' @ model @ ''` | $'' @ fmt [] cost_in @ '' | $'' @ fmt [] cost_out @
        '' | ~$'' @ fmt ''.2f'' (prompts_cost 1000 (cost_in, cost_out)) @
        '' | ~$'' @ fmt '',.2f'' (prompts_cost 500000 (cost_in, cost_out)) @ '' |'')"

definition cost_table :: "(string \<Rightarrow> pyfloat \<Rightarrow> string) \<Rightarrow> string list" where
  "cost_table fmt =
     [''assuming ~'' @ py_str_int avg_input_tokens @ '' input / ~'' @ py_str_int avg_output_tokens @
        '' output tokens per prompt'' @ [newline],
      ''| Model ID | $/1M input | $/1M output | Est. cost, 1,000 prompts | Est. cost, 500,000 prompts |'',
      ''|---|---|---|---|---|'']
     @ map (cost_row_text fmt) cost_rows"

lemma cost_for_n_linear: "prompts_cost n p = of_int n * prompts_cost 1 p"
  by (simp add: cost_for_n_def)

text \<open>The cost table agrees with the scheduler and is in order: every priced model has exactly one row,
  the rows are sorted by cost whatever the number of prompts, and the cost shown for \<open>n\<close> prompts is the
  one a job would report for \<open>n\<close> rows of the average size.\<close>

lemma cost_table_agrees:
  "mset cost_rows = mset model_pricing \<and>
   (0 \<le> n \<longrightarrow> sorted (map (\<lambda>kv. prompts_cost n (snd kv)) cost_rows)) \<and>
   prompts_cost n (cost_in, cost_out) =
     usage_cost \<lparr>cost_per_1m_input = cost_in, cost_per_1m_output = cost_out\<rparr>
       \<lparr>ut_input_tokens = n * avg_input_tokens, ut_output_tokens = n * avg_output_tokens,
        ut_estimated_cost_usd = 0\<rparr>"
proof (intro conjI impI)
  show "mset cost_rows = mset model_pricing" by (simp add: cost_rows_def)
  assume n: "0 \<le> n"
  have "sorted (map (\<lambda>kv. prompts_cost 1000 (snd kv)) cost_rows)"
    by (simp add: cost_rows_def)
  then show "sorted (map (\<lambda>kv. prompts_cost n (snd kv)) cost_rows)"
    using n by (simp add: sorted_map cost_for_n_linear [of 1000] cost_for_n_linear [of n]
        sorted_wrt_iff_nth_less mult_left_mono)
qed (simp add: cost_for_n_def usage_cost_def algebra_simps add_divide_distrib)

lemma cost_table_agrees_witness:
  "sorted (map (\<lambda>kv. prompts_cost 500000 (snd kv)) cost_rows)"
  using cost_table_agrees [of 500000] by (meson zero_le_numeral)

section \<open>A generated batch\<close>

definition topics :: "string list" where
  "topics =
     [''the history of the printing press'', ''how tide pools form'',
      ''why sourdough starters need feeding'', ''the physics of soap bubbles'',
      ''the migration patterns of monarch butterflies'', ''how suspension bridges distribute load'',
      ''the origin of the word 'quarantine'' @ [CHR 0x27], ''why leaves change color in autumn'',
      ''how noise-cancelling headphones work'', ''the etiquette of tea ceremonies'']"

text \<open>\<open>choice i xs\<close> is the element the generator picks at its \<open>i\<close>-th call.\<close>

definition batch_row :: "(nat \<Rightarrow> string list \<Rightarrow> string) \<Rightarrow> nat \<Rightarrow> json pydict" where
  "batch_row choice i =
     [(''id'', JStr (''item-'' @ zero_pad 5 (py_str_nat i))),
      (''prompt'', JStr (''In two sentences, explain '' @ choice i topics @ ''.''))]"

definition build_rows :: "(nat \<Rightarrow> string list \<Rightarrow> string) \<Rightarrow> nat \<Rightarrow> json pydict list" where
  "build_rows choice n = map (batch_row choice) [0..<n]"

text \<open>The file and what is printed.\<close>

definition generate_batch ::
    "(json \<Rightarrow> string) \<Rightarrow> (nat \<Rightarrow> string list \<Rightarrow> string) \<Rightarrow> nat \<Rightarrow> string \<Rightarrow> string \<times> string" where
  "generate_batch dumps choice n out =
     (let rows = build_rows choice n in
      (dumps (JList (map JObj rows)),
       ''wrote '' @ py_str_nat (length rows) @ '' rows to '' @ out))"

subsection \<open>Numerals\<close>

lemma digits_value_pad: "digits_value (zero_pad w s) = digits_value s"
proof -
  have "foldl (\<lambda>n c. 10 * n + (of_char c - 48)) (0 :: nat) (replicate k CHR ''0'') = 0" for k
    by (induction k) simp_all
  then show ?thesis by (simp add: digits_value_def zero_pad_def)
qed

lemma padded_inj: "zero_pad w (py_str_nat i) = zero_pad w (py_str_nat j) \<Longrightarrow> i = j"
  by (metis digits_value_pad digits_value_str)

definition batch_item :: "(nat \<Rightarrow> string list \<Rightarrow> string) \<Rightarrow> nat \<Rightarrow> prompt_item" where
  "batch_item choice i =
     \<lparr>pi_id = ''item-'' @ zero_pad 5 (py_str_nat i),
      pi_prompt = ''In two sentences, explain '' @ choice i topics @ ''.'', pi_raw = batch_row choice i\<rparr>"

lemma batch_row_item: "row_to_item py_repr (JObj (batch_row choice i)) k = P_item (batch_item choice i)"
  by (simp add: row_to_item_def batch_row_def batch_item_def dict_get_def dict_get_or_def)

lemma batch_items:
  "array_items py_repr k (map JObj (map (batch_row choice) is)) = map (\<lambda>i. P_item (batch_item choice i)) is"
  by (induction "is" arbitrary: k) (simp_all add: batch_row_item)

text \<open>A generated batch is a valid input: when the text of the file is an array that the parser reads
  back, the engine ingests exactly its \<open>n\<close> rows, each as a prompt with the generated id and text, none
  rejected, and no two rows share an id, for any \<open>n\<close> (beyond five digits too).\<close>

lemma generated_batch_ingests:
  assumes "sniff_is_json_array (fst (generate_batch dumps choice n out))"
    and "ijson_items (fst (generate_batch dumps choice n out)) = (map JObj (build_rows choice n), None)"
  shows "iter_items_sync py_repr loads ijson_items (fst (generate_batch dumps choice n out)) =
      (map (\<lambda>i. P_item (batch_item choice i)) [0..<n], None) \<and>
    distinct (map (\<lambda>i. pi_id (batch_item choice i)) [0..<n])"
proof
  have "array_items py_repr 0 (map JObj (build_rows choice n)) = map (\<lambda>i. P_item (batch_item choice i)) [0..<n]"
    unfolding build_rows_def by (rule batch_items)
  then show "iter_items_sync py_repr loads ijson_items (fst (generate_batch dumps choice n out)) =
      (map (\<lambda>i. P_item (batch_item choice i)) [0..<n], None)"
    using assms by (simp add: iter_items_sync_def)
  have "inj_on (\<lambda>i. pi_id (batch_item choice i)) {0..<n}"
    by (auto simp: inj_on_def batch_item_def dest: padded_inj)
  then show "distinct (map (\<lambda>i. pi_id (batch_item choice i)) [0..<n])"
    by (simp add: distinct_map)
qed

lemma generated_batch_ingests_witness:
  "length (fst (iter_items_sync (\<lambda>v. []) (\<lambda>l. Inl []) (\<lambda>c. (map JObj (build_rows (\<lambda>i. hd) 2), None))
     (fst (generate_batch (\<lambda>v. ''[]'') (\<lambda>i. hd) 2 ''out'')))) = 2"
proof -
  have "sniff_is_json_array (fst (generate_batch (\<lambda>v. ''[]'') (\<lambda>i. hd) 2 ''out''))"
    by (simp add: generate_batch_def Let_def sniff_is_json_array_def peek_bytes_def py_isspace_def)
  from generated_batch_ingests [OF this, of "\<lambda>c. (map JObj (build_rows (\<lambda>i. hd) 2), None)" "\<lambda>v. []" "\<lambda>l. Inl []"]
  show ?thesis by simp
qed

section \<open>The memory probe\<close>

definition probe_sizes :: "int list" where
  "probe_sizes = [1000, 10000, 100000, 500000]"

definition probe_concurrency :: int where "probe_concurrency = 16"

definition probe_row :: "nat \<Rightarrow> json" where
  "probe_row i = JObj [(''id'', JStr (''item-'' @ py_str_nat i)),
     (''prompt'', JStr (''prompt number '' @ py_str_nat i))]"

text \<open>The writes of the loop, one after the other.\<close>

fun probe_writes :: "(json \<Rightarrow> string) \<Rightarrow> nat \<Rightarrow> nat \<Rightarrow> string" where
  "probe_writes dumps i 0 = []"
| "probe_writes dumps i (Suc k) =
     (if i \<noteq> 0 then '','' else []) @ dumps (probe_row i) @ probe_writes dumps (Suc i) k"

definition write_batch_streaming :: "(json \<Rightarrow> string) \<Rightarrow> int \<Rightarrow> string" where
  "write_batch_streaming dumps n = ''['' @ probe_writes dumps 0 (nat n) @ '']''"

definition probe_config :: "string \<Rightarrow> job_config" where
  "probe_config batch_path =
     \<lparr>jc_input_path = batch_path, jc_model = ''mock'', jc_max_tokens = 64,
      jc_concurrency = Some probe_concurrency, jc_webhook_url = None,
      jc_max_job_spend_usd = 1000000, jc_max_items = None\<rparr>"

definition probe_record :: "int \<Rightarrow> string \<Rightarrow> string \<Rightarrow> pyfloat \<Rightarrow> pyfloat \<Rightarrow> job_record" where
  "probe_record n batch_path result_path t0 t1 =
     new_job_record (''probe-'' @ py_str_int n) (probe_config batch_path) JS_QUEUED result_path t0 t1"

definition probe_rpm :: int where "probe_rpm = 10000000"

text \<open>The job of \<open>_run_one\<close>; \<open>JobRunner\<close> gets its defaults.\<close>

definition probe_start ::
    "int \<Rightarrow> string \<Rightarrow> string \<Rightarrow> pyfloat \<Rightarrow> pyfloat \<Rightarrow> string \<Rightarrow> pyfloat \<Rightarrow> pyfloat \<Rightarrow> parsed list
      \<Rightarrow> py_exn option \<Rightarrow> job_sys" where
  "probe_start n batch_path result_path t0 t1 prior now_bucket now_sink rows err =
     start_run (probe_record n batch_path result_path t0 t1) probe_rpm 30 (1 / 2) 30 prior now_bucket now_sink
       rows err"

record probe_result =
  pb_n :: int
  pb_baseline_rss_mb :: pyfloat
  pb_peak_rss_mb :: pyfloat
  pb_final_rss_mb :: pyfloat
  pb_delta_mb :: pyfloat
  pb_elapsed_s :: pyfloat
  pb_throughput_rps :: pyfloat

text \<open>\<open>_run_one\<close> after the run: the assertion and the result.  \<open>samples\<close> are what the sampler read.\<close>

definition probe_outcome ::
    "int \<Rightarrow> job_counts \<Rightarrow> pyfloat \<Rightarrow> pyfloat list \<Rightarrow> pyfloat \<Rightarrow> pyfloat \<Rightarrow> py_exn + probe_result" where
  "probe_outcome n counts baseline_rss samples final_rss elapsed =
     (let peak_rss = foldl max baseline_rss samples in
      if succeeded counts \<noteq> n then Inl Assertion_error
      else Inr \<lparr>pb_n = n, pb_baseline_rss_mb = py_round baseline_rss 1, pb_peak_rss_mb = py_round peak_rss 1,
                pb_final_rss_mb = py_round final_rss 1, pb_delta_mb = py_round (peak_rss - baseline_rss) 1,
                pb_elapsed_s = py_round elapsed 2,
                pb_throughput_rps = (if 0 < elapsed then py_round (of_int n / elapsed) 1 else 0)\<rparr>)"

lemma foldl_max: "x \<le> foldl max x xs" for x :: pyfloat
proof (induction xs arbitrary: x)
  case (Cons y xs)
  then show ?case using order_trans [OF max.cobounded1 [of x y] Cons] by simp
qed simp

lemma probe_array: "sniff_is_json_array (write_batch_streaming dumps n)"
  by (simp add: write_batch_streaming_def sniff_is_json_array_def peek_bytes_def py_isspace_def)

text \<open>The probe's assertion: over a batch that the parser reads, when the run has ended undisturbed and no
  row failed, all \<open>n\<close> rows have succeeded, so the script reports a result, and a difference that is not
  negative.\<close>

lemma probe_succeeds:
  assumes "reachable E (probe_start n batch_path result_path t0 t1 prior nb ns rows err) s" "rows_ok rows"
    and "int (length rows) = n"
    and "job_over s" "\<not> wc_cancel_event (js_ctx s)" "\<not> wc_abort_event (js_ctx s)"
    and "failed (wc_counts (js_ctx s)) = 0"
  shows "\<exists>r. probe_outcome n (wc_counts (js_ctx s)) baseline samples final elapsed = Inr r \<and> 0 \<le> pb_delta_mb r"
proof -
  let ?r = "probe_record n batch_path result_path t0 t1"
  have config: "jr_config ?r = probe_config batch_path" by (simp add: probe_record_def new_job_record_def)
  have reach: "job_reaches E ?r probe_rpm rows s"
  proof -
    have "fresh_record ?r" "0 < probe_rpm" by (simp_all add: probe_record_def probe_rpm_def)
    then show ?thesis
      using assms(1,2) unfolding job_reaches_def probe_start_def by blast
  qed
  have inv: "job_inv E rows (workers_of ?r probe_rpm) s" by (rule job_reaches_inv [OF reach])
  have "0 < workers_of ?r probe_rpm"
    by (simp add: config probe_config_def job_concurrency_def py_or_int_def probe_concurrency_def)
  then have counts: "int (length (wc_emitted (js_ctx s))) = ingested (wc_counts (js_ctx s))"
    "pending (wc_counts (js_ctx s)) = 0"
    using over_counts [OF inv assms(4)] by blast+
  have "\<not> ingesting (js_run s)"
    using assms(4) by (cases "js_run s") (simp_all add: job_over_def)
  then have "ingested (wc_counts (js_ctx s)) = n"
    using reachable_input(2,3) [OF reach] assms(3,5,6) config by (simp add: input_read_def rows_to_read_def probe_config_def)
  moreover have "succeeded (wc_counts (js_ctx s)) + failed (wc_counts (js_ctx s)) = ingested (wc_counts (js_ctx s))"
    using over_counts(2) [OF inv assms(4) \<open>0 < workers_of ?r probe_rpm\<close>] by (simp add: conserved_def)
  ultimately have "succeeded (wc_counts (js_ctx s)) = n" using assms(7) by simp
  then show ?thesis
    using foldl_max [of baseline samples] by (simp add: probe_outcome_def Let_def py_round_nonneg)
qed

definition probe_asdict :: "probe_result \<Rightarrow> json" where
  "probe_asdict r = JObj
     [(''n'', JInt (pb_n r)), (''baseline_rss_mb'', JFloat (pb_baseline_rss_mb r)),
      (''peak_rss_mb'', JFloat (pb_peak_rss_mb r)), (''final_rss_mb'', JFloat (pb_final_rss_mb r)),
      (''delta_mb'', JFloat (pb_delta_mb r)), (''elapsed_s'', JFloat (pb_elapsed_s r)),
      (''throughput_rps'', JFloat (pb_throughput_rps r))]"

text \<open>\<open>main\<close>: the sizes from the command line, the file and the table from the results.\<close>

definition chosen_sizes :: "(string \<Rightarrow> py_exn + int) \<Rightarrow> string list \<Rightarrow> py_exn + int list" where
  "chosen_sizes parse argv = (if 1 < length argv then collect parse (tl argv) else Inr probe_sizes)"

definition probe_report :: "(json \<Rightarrow> string) \<Rightarrow> probe_result list \<Rightarrow> string" where
  "probe_report dumps rs = dumps (JList (map probe_asdict rs))"

definition probe_table :: "(int \<Rightarrow> string) \<Rightarrow> (pyfloat \<Rightarrow> string) \<Rightarrow> probe_result list \<Rightarrow> string list" where
  "probe_table thousands fmt rs =
     [[newline] @ ''| N | Baseline RSS | Peak RSS | Delta | Throughput |'', ''|---|---|---|---|---|'']
     @ map (\<lambda>r. ''| '' @ thousands (pb_n r) @ '' | '' @ fmt (pb_baseline_rss_mb r) @ '' MB | '' @
         fmt (pb_peak_rss_mb r) @ '' MB | '' @ fmt (pb_delta_mb r) @ '' MB | '' @
         fmt (pb_throughput_rps r) @ '' items/s |'') rs"

end
