(* ===== verification/Spaces.thy ===== *)
theory Spaces
  imports Prelude
begin

text \<open>
  The checkpointer of \<open>extensions/spaces.py\<close>: a multipart upload of one result file.  The S3 client
  is a parameter: each definition takes what the calls it makes return (an upload id, an ETag) and
  appends the calls themselves to \<open>sc_calls\<close>.  An exception of the client leaves the state as it was
  before that call.  Bytes are characters.
\<close>

section \<open>State\<close>

definition part_size :: nat where "part_size = 5 * 1024 * 1024"

datatype s3_call =
    S3_create string string
  | S3_upload_part int "string option" string
  | S3_complete "string option" "(int \<times> string) list"

record checkpointer =
  sc_bucket :: string
  sc_endpoint :: string
  sc_object_key :: string
  sc_upload_id :: "string option"
  sc_parts :: "(int \<times> string) list"
  sc_part_number :: int
  sc_calls :: "s3_call list"

definition new_checkpointer :: "string \<Rightarrow> string \<Rightarrow> string \<Rightarrow> checkpointer" where
  "new_checkpointer bucket region job_id =
     \<lparr>sc_bucket = bucket, sc_endpoint = ''https://'' @ region @ ''.digitaloceanspaces.com'',
      sc_object_key = ''batchengine/'' @ job_id @ ''/results.jsonl'', sc_upload_id = None,
      sc_parts = [], sc_part_number = 1, sc_calls = []\<rparr>"

section \<open>Operations\<close>

text \<open>The answer of a call: \<open>Inl\<close> is what the client raises.\<close>

definition spaces_start :: "py_exn + string \<Rightarrow> checkpointer \<Rightarrow> (py_exn + unit) \<times> checkpointer" where
  "spaces_start created c =
     (case created of
        Inl e \<Rightarrow> (Inl e, c)
      | Inr upload_id \<Rightarrow>
          (Inr (), c\<lparr>sc_upload_id := Some upload_id,
                     sc_calls := sc_calls c @ [S3_create (sc_bucket c) (sc_object_key c)]\<rparr>))"

text \<open>One part, as \<open>upload_chunk\<close> and \<open>complete\<close> send it; only the former moves the part number on.\<close>

definition send_part :: "string \<Rightarrow> string \<Rightarrow> checkpointer \<Rightarrow> checkpointer" where
  "send_part etag body c =
     c\<lparr>sc_parts := sc_parts c @ [(sc_part_number c, etag)],
       sc_calls := sc_calls c @ [S3_upload_part (sc_part_number c) (sc_upload_id c) body]\<rparr>"

definition upload_chunk ::
    "py_exn + string \<Rightarrow> py_exn + string \<Rightarrow> string \<Rightarrow> checkpointer \<Rightarrow> (py_exn + unit) \<times> checkpointer" where
  "upload_chunk created uploaded data c =
     (case (if sc_upload_id c = None then spaces_start created c else (Inr (), c)) of
        (Inl e, c) \<Rightarrow> (Inl e, c)
      | (Inr _, c) \<Rightarrow>
          if length data < part_size then (Inr (), c)
          else
            (case uploaded of
               Inl e \<Rightarrow> (Inl e, c)
             | Inr etag \<Rightarrow>
                 (Inr (), (send_part etag data c)\<lparr>sc_part_number := sc_part_number c + 1\<rparr>)))"

definition spaces_complete ::
    "py_exn + string \<Rightarrow> py_exn + unit \<Rightarrow> string \<Rightarrow> checkpointer \<Rightarrow> (py_exn + unit) \<times> checkpointer" where
  "spaces_complete uploaded completed result_file c =
     (if sc_upload_id c = None then (Inr (), c)
      else
        (let remaining = drop (length (sc_parts c) * part_size) result_file;
             (r, c) = (if remaining = [] then (Inr (), c)
                       else (case uploaded of
                               Inl e \<Rightarrow> (Inl e, c)
                             | Inr etag \<Rightarrow> (Inr (), send_part etag remaining c)))
         in (case r of
               Inl e \<Rightarrow> (Inl e, c)
             | Inr _ \<Rightarrow>
                 (case completed of
                    Inl e \<Rightarrow> (Inl e, c)
                  | Inr _ \<Rightarrow>
                      (Inr (), c\<lparr>sc_calls := sc_calls c @ [S3_complete (sc_upload_id c) (sc_parts c)]\<rparr>)))))"

section \<open>The object\<close>

text \<open>The uploads of a list of chunks, all of whose calls succeed.\<close>

fun upload_chunks :: "string \<Rightarrow> string list \<Rightarrow> checkpointer \<Rightarrow> checkpointer" where
  "upload_chunks upload_id [] c = c"
| "upload_chunks upload_id (d # ds) c =
     upload_chunks upload_id ds (snd (upload_chunk (Inr upload_id) (Inr ''etag'') d c))"

text \<open>What S3 joins: the bodies of the parts named at the end, in the order of their numbers, the last
  body sent under a number.\<close>

definition part_body :: "s3_call list \<Rightarrow> int \<Rightarrow> string" where
  "part_body calls n =
     (case find (\<lambda>x. case x of S3_upload_part k u b \<Rightarrow> k = n | _ \<Rightarrow> False) (rev calls) of
        Some (S3_upload_part k u b) \<Rightarrow> b
      | _ \<Rightarrow> [])"

definition s3_object :: "s3_call list \<Rightarrow> string option" where
  "s3_object calls =
     (case find (\<lambda>x. case x of S3_complete u ps \<Rightarrow> True | _ \<Rightarrow> False) calls of
        Some (S3_complete u ps) \<Rightarrow> Some (concat (map (\<lambda>(k, e). part_body calls k) ps))
      | _ \<Rightarrow> None)"

section \<open>Facts\<close>

text \<open>The upload of full chunks: part \<open>i + 1\<close> is chunk \<open>i\<close>.\<close>

definition sent_parts :: "string \<Rightarrow> string list \<Rightarrow> s3_call list" where
  "sent_parts u ds = map (\<lambda>i. S3_upload_part (int i + 1) (Some u) (ds ! i)) [0..<length ds]"

definition chunks_sent :: "string \<Rightarrow> string list \<Rightarrow> checkpointer \<Rightarrow> bool" where
  "chunks_sent u ds c \<longleftrightarrow>
     sc_upload_id c = Some u \<and> sc_part_number c = int (length ds) + 1 \<and>
     sc_parts c = map (\<lambda>i. (int i + 1, ''etag'')) [0..<length ds] \<and>
     sc_calls c = S3_create (sc_bucket c) (sc_object_key c) # sent_parts u ds"

lemma sent_parts_snoc:
  "sent_parts u (ds @ [d]) = sent_parts u ds @ [S3_upload_part (int (length ds) + 1) (Some u) d]"
  by (simp add: sent_parts_def nth_append)

lemma upload_chunk_sent:
  assumes "chunks_sent u ds c" "part_size \<le> length d"
  shows "chunks_sent u (ds @ [d]) (snd (upload_chunk (Inr u) (Inr ''etag'') d c))"
  using assms by (simp add: chunks_sent_def upload_chunk_def send_part_def sent_parts_snoc)

lemma upload_chunk_first:
  assumes "part_size \<le> length d"
  shows "chunks_sent u [d] (snd (upload_chunk (Inr u) (Inr ''etag'') d (new_checkpointer b r j)))"
  using assms
  by (simp add: chunks_sent_def upload_chunk_def spaces_start_def send_part_def sent_parts_def
      new_checkpointer_def)

lemma upload_chunks_sent:
  assumes "chunks_sent u ds c" "\<forall>d \<in> set es. part_size \<le> length d"
  shows "chunks_sent u (ds @ es) (upload_chunks u es c)"
  using assms
proof (induction es arbitrary: ds c)
  case (Cons e es)
  then show ?case
    using Cons.IH [OF upload_chunk_sent [of u ds c e]] by simp
qed simp

lemma part_body_sent:
  assumes "i < length ds"
  shows "part_body (S3_create b k # sent_parts u ds @ [S3_complete v ps]) (int i + 1) = ds ! i"
  using assms
proof (induction ds rule: rev_induct)
  case (snoc d ds)
  then show ?case
    by (cases "i = length ds") (auto simp: part_body_def sent_parts_snoc nth_append)
qed simp

lemma find_append': "find P (xs @ ys) = (case find P xs of None \<Rightarrow> find P ys | Some x \<Rightarrow> Some x)"
  by (induction xs) auto

lemma object_of_sent:
  "s3_object (S3_create b k # sent_parts u ds @
     [S3_complete (Some u) (map (\<lambda>i. (int i + 1, ''etag'')) [0..<length ds])]) = Some (concat ds)"
proof -
  let ?calls = "S3_create b k # sent_parts u ds @
     [S3_complete (Some u) (map (\<lambda>i. (int i + 1, ''etag'')) [0..<length ds])]"
  have "find (\<lambda>x. case x of S3_complete u ps \<Rightarrow> True | _ \<Rightarrow> False) (sent_parts u ds) = None"
    by (auto simp: sent_parts_def find_None_iff)
  then have "s3_object ?calls = Some (concat (map (\<lambda>i. part_body ?calls (int i + 1)) [0..<length ds]))"
    by (simp add: s3_object_def find_append' o_def)
  also have "\<dots> = Some (concat (map (\<lambda>i. ds ! i) [0..<length ds]))"
    by (auto simp: part_body_sent intro!: arg_cong [where f = concat])
  finally show ?thesis by (simp add: map_nth)
qed

text \<open>A complete checkpoint: when every chunk given to \<open>upload_chunk\<close> is exactly one part of 5 MiB and
  the calls succeed, the object that \<open>complete\<close> makes S3 join is the result file, tail included, byte
  for byte.\<close>

lemma spaces_object_is_file:
  assumes "ds \<noteq> []" "\<forall>d \<in> set ds. length d = part_size" "file = concat ds @ tl'"
  shows "s3_object (sc_calls (snd (spaces_complete (Inr ''etag'') (Inr ()) file
    (upload_chunks u ds (new_checkpointer b r j))))) = Some file"
proof -
  let ?c = "upload_chunks u ds (new_checkpointer b r j)"
  obtain d es where ds: "ds = d # es" using assms(1) by (cases ds) auto
  have sent: "chunks_sent u ds ?c"
    using upload_chunks_sent [OF upload_chunk_first [of d u b r j], of es] assms(2) by (simp add: ds)
  have "length (concat ds) = length ds * part_size"
    using assms(2) by (induction ds) auto
  moreover have "length (sc_parts ?c) = length ds"
    using sent by (simp add: chunks_sent_def)
  ultimately have rest: "drop (length (sc_parts ?c) * part_size) file = tl'"
    by (simp add: assms(3))
  show ?thesis
  proof (cases "tl' = []")
    case True
    then show ?thesis
      using sent rest object_of_sent assms(3) by (simp add: spaces_complete_def chunks_sent_def)
  next
    case False
    have "s3_object (sc_calls (snd (spaces_complete (Inr ''etag'') (Inr ()) file ?c))) =
        Some (concat (ds @ [tl']))"
      using sent rest False object_of_sent [of _ _ u "ds @ [tl']"]
      by (simp add: spaces_complete_def chunks_sent_def send_part_def sent_parts_snoc)
    then show ?thesis by (simp add: assms(3))
  qed
qed

lemma spaces_object_is_file_witness:
  "s3_object (sc_calls (snd (spaces_complete (Inr ''etag'') (Inr ())
     (replicate part_size CHR ''x'' @ ''tail'')
     (upload_chunks ''u'' [replicate part_size CHR ''x''] (new_checkpointer ''b'' ''nyc3'' ''j''))))) =
   Some (replicate part_size CHR ''x'' @ ''tail'')"
  by (rule spaces_object_is_file [where tl' = "''tail''"]) simp_all

end
