(* ===== verification/Spec2Isabelle.thy ===== *)
theory Spec2Isabelle
  imports ProcessBatch ProcessLedger JobDrain Download LiveRow Scripts Spaces
begin

text \<open>
  A model of the batch inference engine (the Python package \<open>src/src/batchengine\<close>) and the theorems that
  make it correct.

  \<^bold>\<open>The program.\<close>  A client posts the path of an input file.  The engine creates a job record, answers at
  once, and runs the job in the background: a thread parses the file and hands its rows over a bounded
  queue to the event loop; the runner counts them and puts them into a second bounded queue; a pool of
  workers takes them out, waits for a token of a rate limiter, calls the inference provider, classifies
  the outcome, and retries or emits a result row; one writer task appends the rows to the result file
  and syncs it.  The job ends with a terminal record in the store and a webhook.  The client reads the
  status, cancels the job and downloads the rows.  The promise all parts serve is conservation: every
  ingested row ends as exactly one result row.

  \<^bold>\<open>The theories.\<close>
  \<^item> \<open>Prelude\<close>: the Python values (floats, dictionaries, deques, formatting, exceptions) and the
    lemmas about lists that several components share; \<open>Json\<close>: JSON values; \<open>TextIO\<close>: text files
    line by line; \<open>PyJson\<close>: the text that \<open>json.dumps\<close> writes and the scanner of \<open>json.loads\<close>, with
    the round trip; \<open>PyJsonPrefix\<close>: a document that is cut off is no document; \<open>UtcTime\<close>: \<open>gmtime\<close> and
    the text of times; \<open>PyQueue\<close>: \<open>asyncio.Queue\<close> as the locale \<open>fifo_buffer\<close>, interpreted on the
    model's queue; \<open>Models\<close>: the types of \<open>core/models.py\<close>; \<open>ProviderBase\<close>: the interface of
    \<open>providers/base.py\<close>.
  \<^item> \<open>Retry\<close> and \<open>Breaker\<close> (\<open>core/retry.py\<close>), \<open>RateLimit\<close> (\<open>core/ratelimit.py\<close>), \<open>Sink\<close>
    (\<open>core/sink.py\<close>, with \<open>replay\<close>; \<open>Recovery\<close> is the replay of what a crash leaves): each a record with its operations, an invariant that every
    operation keeps, and the behaviour over arbitrary histories of operations.
  \<^item> \<open>Worker\<close> (\<open>core/worker.py\<close>): the worker loop as a function of its control state and of what it
    reads or is answered.  The control states are the places where the coroutine can be suspended; the
    code between two of them is one step.  \<open>WorkerInv\<close> and \<open>WorkerStep\<close> show what one step moves where,
    within the locale \<open>worker_pool\<close>, whose parameter is the spend check; \<open>Scheduler\<close> interprets it.
  \<^item> \<open>Scheduler\<close> (\<open>core/scheduler.py\<close>): the runner's own steps and the whole job as the step function
    \<open>sys_step\<close> over labels that say whose turn it is and what is read, with reachability as an
    inductive relation.  \<open>JobInv\<close> is the invariant of every reachable state; \<open>JobProps\<close>, \<open>JobEnd\<close>,
    \<open>JobStop\<close> and \<open>JobLive\<close> draw the consequences; \<open>JobDrain\<close> is the shutdown of the process while a job
    runs, with \<open>stop_run\<close> the turn in which \<open>run\<close> gets \<open>CancelledError\<close>; \<open>JobDemo\<close> is a job run to its end
    for the examples.
  \<^item> \<open>Ingest\<close> and \<open>Bridge\<close> (\<open>core/ingest.py\<close>): the parser, and \<open>stream_items\<close> as a step relation of
    thread and generator.  \<open>Pipeline\<close> is the job that reads its rows from the generator while the thread
    parses (\<open>stream_job\<close>): every run of it is one of the job of \<open>Scheduler\<close> over the whole input.
  \<^item> \<open>Store\<close> (\<open>store/\<close>): the \<open>JobStore\<close> Protocol as the locale \<open>job_store\<close>, interpreted on the
    dictionary of the memory store, which holds addresses of record objects in a heap, and on the table of
    the SQLite store.  \<open>SpendLedger\<close>
    (\<open>core/spend_ledger.py\<close>), \<open>MockProvider\<close> and \<open>DigitalOcean\<close> (\<open>providers/\<close>), \<open>Webhook\<close> and
    \<open>Spaces\<close> (\<open>extensions/\<close>), \<open>Metrics\<close> (\<open>observability/metrics.py\<close>).
  \<^item> \<open>Api\<close> (\<open>config.py\<close>, \<open>app_state.py\<close>, \<open>api/\<close>): settings, process state and one function per
    route.  \<open>ApiJobs\<close>, \<open>ApiRoutes\<close> and \<open>Download\<close> state what a client sees of a job in any state it
    reaches; \<open>LiveRow\<close> what the worker makes of an answer of the live provider.
  \<^item> \<open>Process\<close> (\<open>main.py\<close> and all of the above): the whole service as the step function \<open>proc_step\<close> over
    labels: a submission, the first turn of a job's task, a turn of one of its coroutines, the end of the
    task with webhook and ledger, a cancellation, a graceful restart or a crash.  \<open>JobSaves\<close> is what a job
    writes to the store, \<open>ProcessInv\<close> the invariant of the service, \<open>ProcessProps\<close>, \<open>ProcessLedger\<close> and
    \<open>ProcessBatch\<close> its properties, \<open>ProcessDemo\<close> a run with a restart for the examples.
  \<^item> \<open>Scripts\<close> (\<open>src/scripts\<close>): the cost table, the batch generator, the memory probe.

  \<^bold>\<open>What the theorems show.\<close>  Safety of a job: conservation in every reachable state, exactly one result
  row per row, nothing skipped, reports that agree with the rows, a truthful terminal record, no worker
  killed by an exception.  Bounds: memory in terms of the number of workers, provider calls in terms of
  the ingested rows, calls after an abort or cancellation, token bucket pacing, unsynced rows, items of
  a live job, posts of a webhook.  Progress: a job never deadlocks and takes a bounded number of turns
  besides idle polls; the bridge and the breaker never block for good.  Persistence: the SQLite store
  refines the memory store but for changes that were not saved, records and result files read back as what was written, also a result file
  that a crash cut off at any byte.  Shutdown: a job that still reads its input drains what it has queued.  Interface: refused
  submissions leave no trace, status reports are typed and bounded, downloads are the rows that
  are wholly in the file, all of them once the job is over.
  Service: every job of the running process is in a state it reaches alone, so that all of the above holds
  of each; turns of one job leave the others alone and cannot block them; an accepted job is never lost
  and a finished one never changes, through restarts and crashes; the ledger is the exact sum of the costs
  of the jobs that ended; webhooks are sent at most once; the metrics show every job.  Several lemmas and
  some properties record deviations: a broken JSON array leaves the job running for ever, and so does a
  restart; a shutdown that comes while \<open>run\<close> waits for its workers loses the rows in progress, and every shutdown forgets what running jobs have spent, and the total cap is not reserved; the
  estimated time counts the remaining rows twice, a stale probe of the breaker opens it to all,
  \<open>usage: null\<close> escapes the live provider's handler.

  \<^bold>\<open>Conventions.\<close>
  \<^item> Floats are exact rationals: rounding, infinities and NaN are not modelled.  Python's integers are
    \<open>int\<close>; lengths and attempts are \<open>nat\<close>; IPv4 addresses are 32-bit words.
  \<^item> Code outside \<open>src/\<close> is a parameter: \<open>ijson\<close>, the parser of an input line with its messages,
    \<open>float(str)\<close>, the text of floats, DNS, the URL parser, HMAC, \<open>httpx\<close>, the S3 client, the random draws.
    The definitions also take the functions for JSON as arguments; the theorems about files, records and
    the ledger instantiate them with \<open>json_dumps\<close> and \<open>json_loads\<close> of \<open>PyJson\<close> (\<open>python_json\<close> for the
    service).  What is assumed is documented: the text of a float reads back as that float
    (\<open>repr_faithful\<close>, with the instance \<open>demo_repr\<close>), and a new job id was not used before.
  \<^item> A clock is read once for each stretch of code between two suspensions, a reading for each of the
    clocks that stretch uses; theorems that need it say that a clock does not go back.
  \<^item> Errors are values: \<open>Inl\<close> of an exception, an outcome of a call, a control state \<open>R_raised\<close>,
    \<open>W_crashed\<close> or \<open>W_cancelled\<close>.  A step that cannot happen is \<open>None\<close>.
  \<^item> \<open>wc_emitted\<close>, \<open>wc_calls\<close>, \<open>js_saves\<close>, \<open>pr_posts\<close> and \<open>pr_costs\<close> record what was submitted, called,
    saved, posted and billed, so that theorems can speak of it; no step reads them (the service writes what
    a turn adds to \<open>js_saves\<close> to its table).
  \<^item> Only the scanner of \<open>json_loads\<close> has fuel: a step for each character and each value, so that
    \<open>Suc (2 * length s)\<close> is enough (\<open>scan_enough\<close>).  Otherwise loops that suspend are
    steps, the others structural recursion or with a measure.  The bound
    \<open>53 * rows + 3 * workers + 6\<close> on the turns of a job comes from a rank: 53 exceeds the suspensions of
    one row over all its attempts (at most 8) with their waits.

  \<^bold>\<open>Not modelled.\<close>  The text of log messages and the logging configuration; FastAPI (routing, 422
  answers, streaming), \<open>create_app\<close> and reading settings from the environment.  At a graceful shutdown the
  cancelled tasks go on to drain their queues: \<open>JobDrain\<close> has that for a job, and \<open>Process\<close> only what
  outlives the process in its tables, the settlement of each task (the cost is 0 in both).  The
  cancellation of worker tasks is the control state \<open>W_cancelled\<close>; the theorems that exclude it say
  \<open>undisturbed\<close>.  A save that a cancellation interrupts counts as made.  Failures of the file system and of the database; characters beyond one byte; the
  arguments, directories and measurements of the scripts.
\<close>

end
